(* ===== verification/AC_Prelude.thy ===== *)
theory AC_Prelude
  imports Main "HOL-Library.Word" "HOL-Library.Sublist"
begin

text \<open>
  Shared vocabulary of the development: the integer types of the C sources at their
  width, bytes and C strings, and the small facts on lists, options and words that the
  component theories use over and over. A C string is a \<^typ>\<open>string\<close> (its bytes up to,
  and without, the terminating NUL); a raw buffer is a list of \<open>u8\<close>.
\<close>

unbundle bit_operations_syntax

named_theorems ac_defs \<open>definitions of the model, unfolded when a witness is evaluated\<close>
named_theorems ac_bits \<open>bit-level facts on machine words\<close>

type_synonym u8 = "8 word"
type_synonym u16 = "16 word"
type_synonym u32 = "32 word"
type_synonym u64 = "64 word"
type_synonym cstr = string

subsection \<open>Lists\<close>

lemma drop_append_exact [simp]: "n = length xs \<Longrightarrow> drop n (xs @ ys) = ys"
  by simp

lemma list_update_append_exact:
  "n = length xs \<Longrightarrow> (xs @ y # ys)[n := z] = xs @ z # ys"
  by (simp add: list_update_append)

subsection \<open>Words\<close>

lemma unat_of_nat_less:
  "n < 2 ^ LENGTH('a) \<Longrightarrow> unat (of_nat n :: 'a::len word) = n"
  by (simp add: unsigned_of_nat take_bit_nat_eq_self)

lemma word_of_int_less32:
  assumes "0 \<le> x" "x < 2 ^ 32" "0 \<le> y" "y < 2 ^ 32"
  shows "((word_of_int x :: u32) < word_of_int y) = (x < y)"
    and "((word_of_int x :: u32) = word_of_int y) = (x = y)"
  using assms
  by (simp_all add: word_less_def word_uint_eq_iff unsigned_of_int take_bit_int_eq_self)

lemma word_eq_of_int32:
  "0 \<le> n \<Longrightarrow> n < 2 ^ 32 \<Longrightarrow> (A = (word_of_int n :: u32)) = (uint A = n)"
  by (auto simp: unsigned_of_int take_bit_int_eq_self)

end
