(* ===== verification/Arch_Tables.thy ===== *)
theory Arch_Tables
  imports AC_Prelude
begin

text \<open>
  The generated per-architecture headers \<^verbatim>\<open>src/arch/x86_64.h\<close> and
  \<^verbatim>\<open>src/arch/aarch64.h\<close>: the audit architecture, the syscall numbers the C code uses by
  name and the deny table \<^verbatim>\<open>AC_SYSCALL_TAB\<close>. An absent syscall has the number \<open>-1\<close>.
\<close>

text \<open>\<^verbatim>\<open>struct ac_sys { int nr; const char *name; }\<close>.\<close>

record ac_sys =
  sys_nr :: int
  sys_name :: cstr

definition mk_sys :: "int \<Rightarrow> cstr \<Rightarrow> ac_sys" where
  "mk_sys n s = \<lparr>sys_nr = n, sys_name = s\<rparr>"

record arch =
  AC_AUDIT_ARCH :: u32
  AC_SYS_execve :: int
  AC_SYS_openat :: int
  AC_SYS_connect :: int
  AC_SYS_clone :: int
  AC_SYS_clone3 :: int
  AC_SYSCALL_TAB :: "ac_sys list"
  AC_TRIP_X :: "int list"

text \<open>\<^verbatim>\<open>AUDIT_ARCH_X86_64\<close> and \<^verbatim>\<open>AUDIT_ARCH_AARCH64\<close> of \<^verbatim>\<open>linux/audit.h\<close>.\<close>

abbreviation AUDIT_ARCH_X86_64 :: u32 where "AUDIT_ARCH_X86_64 \<equiv> 0xC000003E"
abbreviation AUDIT_ARCH_AARCH64 :: u32 where "AUDIT_ARCH_AARCH64 \<equiv> 0xC00000B7"

definition x86_64_syscall_tab :: "ac_sys list" where
  "x86_64_syscall_tab =
    [mk_sys 165 ''mount'', mk_sys 166 ''umount2'', mk_sys 155 ''pivot_root'',
     mk_sys 272 ''unshare'', mk_sys 308 ''setns'', mk_sys 321 ''bpf'',
     mk_sys 298 ''perf_event_open'', mk_sys 101 ''ptrace'', mk_sys 250 ''keyctl'',
     mk_sys 175 ''init_module'', mk_sys 313 ''finit_module'', mk_sys 176 ''delete_module'',
     mk_sys 246 ''kexec_load'', mk_sys 320 ''kexec_file_load'', mk_sys 169 ''reboot'',
     mk_sys 167 ''swapon'', mk_sys 168 ''swapoff'', mk_sys 310 ''process_vm_readv'',
     mk_sys 311 ''process_vm_writev'', mk_sys 312 ''kcmp'', mk_sys 438 ''pidfd_getfd'',
     mk_sys 440 ''process_madvise'', mk_sys 448 ''process_mrelease'', mk_sys 304 ''open_by_handle_at'',
     mk_sys 303 ''name_to_handle_at'', mk_sys 430 ''fsopen'', mk_sys 431 ''fsconfig'',
     mk_sys 432 ''fsmount'', mk_sys 433 ''fspick'', mk_sys 429 ''move_mount'',
     mk_sys 428 ''open_tree'', mk_sys 442 ''mount_setattr'', mk_sys 248 ''add_key'',
     mk_sys 249 ''request_key'', mk_sys 300 ''fanotify_init'', mk_sys 227 ''clock_settime'',
     mk_sys 164 ''settimeofday'', mk_sys 159 ''adjtimex'', mk_sys 153 ''vhangup'',
     mk_sys 103 ''syslog'', mk_sys 179 ''quotactl'', mk_sys 443 ''quotactl_fd'',
     mk_sys 323 ''userfaultfd'', mk_sys 134 ''uselib'', mk_sys 212 ''lookup_dcookie'',
     mk_sys 425 ''io_uring_setup'', mk_sys 426 ''io_uring_enter'', mk_sys 427 ''io_uring_register'',
     mk_sys 173 ''ioperm'', mk_sys 172 ''iopl'']"

text \<open>The names of \<^verbatim>\<open>AC_TRIP_X\<close> with their numbers: mount, umount2, pivot_root, \<dots>\<close>

definition x86_64_trip :: "int list" where
  "x86_64_trip =
    [165, 166, 155, 272, 308, 435, 321, 298, 101, 250, 175, 176,
     323, 425, 430, 431, 432, 433, 429, 428, 442, 173, 172]"

definition x86_64 :: arch where
  "x86_64 =
    \<lparr>AC_AUDIT_ARCH = AUDIT_ARCH_X86_64,
     AC_SYS_execve = 59, AC_SYS_openat = 257, AC_SYS_connect = 42,
     AC_SYS_clone = 56, AC_SYS_clone3 = 435,
     AC_SYSCALL_TAB = x86_64_syscall_tab, AC_TRIP_X = x86_64_trip\<rparr>"

definition aarch64_syscall_tab :: "ac_sys list" where
  "aarch64_syscall_tab =
    [mk_sys 40 ''mount'', mk_sys 39 ''umount2'', mk_sys 41 ''pivot_root'',
     mk_sys 97 ''unshare'', mk_sys 268 ''setns'', mk_sys 280 ''bpf'',
     mk_sys 241 ''perf_event_open'', mk_sys 117 ''ptrace'', mk_sys 219 ''keyctl'',
     mk_sys 105 ''init_module'', mk_sys 273 ''finit_module'', mk_sys 106 ''delete_module'',
     mk_sys 104 ''kexec_load'', mk_sys 294 ''kexec_file_load'', mk_sys 142 ''reboot'',
     mk_sys 224 ''swapon'', mk_sys 225 ''swapoff'', mk_sys 270 ''process_vm_readv'',
     mk_sys 271 ''process_vm_writev'', mk_sys 272 ''kcmp'', mk_sys 438 ''pidfd_getfd'',
     mk_sys 440 ''process_madvise'', mk_sys 448 ''process_mrelease'', mk_sys 265 ''open_by_handle_at'',
     mk_sys 264 ''name_to_handle_at'', mk_sys 430 ''fsopen'', mk_sys 431 ''fsconfig'',
     mk_sys 432 ''fsmount'', mk_sys 433 ''fspick'', mk_sys 429 ''move_mount'',
     mk_sys 428 ''open_tree'', mk_sys 442 ''mount_setattr'', mk_sys 217 ''add_key'',
     mk_sys 218 ''request_key'', mk_sys 262 ''fanotify_init'', mk_sys 112 ''clock_settime'',
     mk_sys 404 ''clock_settime64'', mk_sys 170 ''settimeofday'', mk_sys 171 ''adjtimex'',
     mk_sys 58 ''vhangup'', mk_sys 116 ''syslog'', mk_sys 60 ''quotactl'',
     mk_sys 443 ''quotactl_fd'', mk_sys 282 ''userfaultfd'', mk_sys 18 ''lookup_dcookie'',
     mk_sys 425 ''io_uring_setup'', mk_sys 426 ''io_uring_enter'', mk_sys 427 ''io_uring_register'']"

text \<open>The names of \<^verbatim>\<open>AC_TRIP_X\<close> with their numbers: mount, umount2, pivot_root, \<dots>\<close>

definition aarch64_trip :: "int list" where
  "aarch64_trip =
    [40, 39, 41, 97, 268, 435, 280, 241, 117, 219, 105, 106,
     282, 425, 430, 431, 432, 433, 429, 428, 442]"

definition aarch64 :: arch where
  "aarch64 =
    \<lparr>AC_AUDIT_ARCH = AUDIT_ARCH_AARCH64,
     AC_SYS_execve = 221, AC_SYS_openat = 56, AC_SYS_connect = 203,
     AC_SYS_clone = 220, AC_SYS_clone3 = 435,
     AC_SYSCALL_TAB = aarch64_syscall_tab, AC_TRIP_X = aarch64_trip\<rparr>"

lemmas arch_tables_defs =
  x86_64_def x86_64_syscall_tab_def x86_64_trip_def
  aarch64_def aarch64_syscall_tab_def aarch64_trip_def mk_sys_def

text \<open>
  What \<^verbatim>\<open>tools/gen-arch-headers.sh\<close> promises of a table and the C code relies on: the
  numbers are those of present syscalls, pairwise different, small enough to be an \<open>int\<close>
  and few enough for \<^verbatim>\<open>g_deny[128]\<close>; \<open>clone\<close> and \<open>clone3\<close>, which the filter handles on
  their own, are not in it.
\<close>

definition wf_arch :: "arch \<Rightarrow> bool" where
  "wf_arch a \<longleftrightarrow>
     list_all (\<lambda>s. 0 \<le> sys_nr s \<and> sys_nr s < 2 ^ 31) (AC_SYSCALL_TAB a)
     \<and> distinct (map sys_nr (AC_SYSCALL_TAB a))
     \<and> length (AC_SYSCALL_TAB a) \<le> 128
     \<and> 0 \<le> AC_SYS_clone a \<and> AC_SYS_clone a < 2 ^ 31
     \<and> AC_SYS_clone3 a < 2 ^ 31
     \<and> AC_SYS_clone a \<noteq> AC_SYS_clone3 a
     \<and> AC_SYS_clone a \<notin> set (map sys_nr (AC_SYSCALL_TAB a))
     \<and> AC_SYS_clone3 a \<notin> set (map sys_nr (AC_SYSCALL_TAB a))"

lemma wf_x86_64: "wf_arch x86_64"
  unfolding wf_arch_def arch_tables_defs by simp

lemma wf_aarch64: "wf_arch aarch64"
  unfolding wf_arch_def arch_tables_defs by simp

end
