(* ===== verification/Classic_Bpf.thy ===== *)
theory Classic_Bpf
  imports AC_Prelude
begin

text \<open>
  The target language of the seccomp compiler: classic BPF programs over
  \<^verbatim>\<open>struct seccomp_data\<close>, restricted to the opcodes \<^verbatim>\<open>src/sand.c\<close> emits. An
  instruction is \<^verbatim>\<open>struct sock_filter\<close> at its real widths: jump offsets are 8 bits, so a
  table that is too large would really wrap them. Jumps are forward only; a program
  counter is therefore represented by the rest of the program. \<open>None\<close> is a program the
  kernel refuses to load (running off the end, an unknown opcode, a bad load offset).
\<close>

record sock_filter =
  bf_code :: u16
  bf_jt :: u8
  bf_jf :: u8
  bf_k :: u32

definition BPF_LD :: u16 where "BPF_LD = 0x00"
definition BPF_W :: u16 where "BPF_W = 0x00"
definition BPF_ABS :: u16 where "BPF_ABS = 0x20"
definition BPF_JMP :: u16 where "BPF_JMP = 0x05"
definition BPF_JEQ :: u16 where "BPF_JEQ = 0x10"
definition BPF_JGT :: u16 where "BPF_JGT = 0x20"
definition BPF_JSET :: u16 where "BPF_JSET = 0x40"
definition BPF_K :: u16 where "BPF_K = 0x00"
definition BPF_RET :: u16 where "BPF_RET = 0x06"

lemmas bpf_opcode_defs =
  BPF_LD_def BPF_W_def BPF_ABS_def BPF_JMP_def BPF_JEQ_def BPF_JGT_def BPF_JSET_def
  BPF_K_def BPF_RET_def

definition BPF_STMT :: "u16 \<Rightarrow> u32 \<Rightarrow> sock_filter" where
  "BPF_STMT c v = \<lparr>bf_code = c, bf_jt = 0, bf_jf = 0, bf_k = v\<rparr>"

definition BPF_JUMP :: "u16 \<Rightarrow> u32 \<Rightarrow> u8 \<Rightarrow> u8 \<Rightarrow> sock_filter" where
  "BPF_JUMP c v t f = \<lparr>bf_code = c, bf_jt = t, bf_jf = f, bf_k = v\<rparr>"

text \<open>
  \<^verbatim>\<open>struct seccomp_data\<close>: \<open>nr\<close> at byte 0, \<open>arch\<close> at 4, the instruction pointer at 8 and six
  64-bit arguments from byte 16, little endian. \<open>BPF_LD | BPF_W | BPF_ABS\<close> loads the
  32-bit word at an aligned offset.
\<close>

record seccomp_data =
  sd_nr :: u32
  sd_arch :: u32
  sd_ip :: u64
  sd_args :: "u64 list"

definition sd_words :: "seccomp_data \<Rightarrow> u32 list" where
  "sd_words d = sd_nr d # sd_arch d #
     concat (map (\<lambda>w. [ucast w, ucast (drop_bit 32 w)]) (sd_ip d # sd_args d))"

definition bpf_load :: "seccomp_data \<Rightarrow> u32 \<Rightarrow> u32 option" where
  "bpf_load d off =
     (if unat off mod 4 = 0 \<and> unat off div 4 < length (sd_words d)
      then Some (sd_words d ! (unat off div 4)) else None)"

function bpf_run :: "sock_filter list \<Rightarrow> u32 \<Rightarrow> seccomp_data \<Rightarrow> u32 option" where
  "bpf_run [] A d = None"
| "bpf_run (f # fs) A d =
     (if bf_code f = BPF_LD OR BPF_W OR BPF_ABS then
        (case bpf_load d (bf_k f) of None \<Rightarrow> None | Some v \<Rightarrow> bpf_run fs v d)
      else if bf_code f = BPF_JMP OR BPF_JEQ OR BPF_K then
        bpf_run (drop (unat (if A = bf_k f then bf_jt f else bf_jf f)) fs) A d
      else if bf_code f = BPF_JMP OR BPF_JGT OR BPF_K then
        bpf_run (drop (unat (if A > bf_k f then bf_jt f else bf_jf f)) fs) A d
      else if bf_code f = BPF_JMP OR BPF_JSET OR BPF_K then
        bpf_run (drop (unat (if A AND bf_k f \<noteq> 0 then bf_jt f else bf_jf f)) fs) A d
      else if bf_code f = BPF_RET OR BPF_K then Some (bf_k f)
      else None)"
  by pat_completeness auto
termination
  by (relation "measure (\<lambda>(fs, A, d). length fs)") auto

declare bpf_run.simps(2) [simp del]

subsection \<open>One equation per emitted instruction\<close>

lemma bpf_run_load [simp]:
  "bpf_run (BPF_STMT (BPF_LD OR BPF_W OR BPF_ABS) off # fs) A d =
     (case bpf_load d off of None \<Rightarrow> None | Some v \<Rightarrow> bpf_run fs v d)"
  by (simp add: bpf_run.simps(2) BPF_STMT_def bpf_opcode_defs)

lemma bpf_run_ret [simp]: "bpf_run (BPF_STMT (BPF_RET OR BPF_K) v # fs) A d = Some v"
  by (simp add: bpf_run.simps(2) BPF_STMT_def bpf_opcode_defs)

lemma bpf_run_jeq [simp]:
  "bpf_run (BPF_JUMP (BPF_JMP OR BPF_JEQ OR BPF_K) v t f # fs) A d =
     bpf_run (drop (unat (if A = v then t else f)) fs) A d"
  by (simp add: bpf_run.simps(2) BPF_JUMP_def bpf_opcode_defs)

lemma bpf_run_jgt [simp]:
  "bpf_run (BPF_JUMP (BPF_JMP OR BPF_JGT OR BPF_K) v t f # fs) A d =
     bpf_run (drop (unat (if A > v then t else f)) fs) A d"
  by (simp add: bpf_run.simps(2) BPF_JUMP_def bpf_opcode_defs)

lemma bpf_run_jset [simp]:
  "bpf_run (BPF_JUMP (BPF_JMP OR BPF_JSET OR BPF_K) v t f # fs) A d =
     bpf_run (drop (unat (if A AND v \<noteq> 0 then t else f)) fs) A d"
  by (simp add: bpf_run.simps(2) BPF_JUMP_def bpf_opcode_defs)

lemma bpf_load_nr [simp]: "bpf_load d 0 = Some (sd_nr d)"
  by (simp add: bpf_load_def sd_words_def)

lemma bpf_load_arch [simp]: "bpf_load d 4 = Some (sd_arch d)"
  by (simp add: bpf_load_def sd_words_def)

lemma bpf_load_arg0 [simp]:
  "sd_args d \<noteq> [] \<Longrightarrow> bpf_load d 16 = Some (ucast (hd (sd_args d)))"
  by (cases "sd_args d") (simp_all add: bpf_load_def sd_words_def)

end
