(* ===== verification/Seccomp.thy ===== *)
theory Seccomp
  imports Arch_Tables Classic_Bpf
begin

text \<open>
  The seccomp layer of \<^verbatim>\<open>src/sand.c\<close>: the deny list, its compilation into a binary search
  tree of BPF instructions, and the whole filter \<^verbatim>\<open>seccomp_apply\<close> installs. The global
  array \<^verbatim>\<open>g_flt\<close> with its fill count \<^verbatim>\<open>g_n\<close> is the list of the instructions pushed so far,
  and \<^verbatim>\<open>g_deny\<close> with \<^verbatim>\<open>g_ndeny\<close> the list of collected entries; that neither outgrows its C
  array is proved below.
\<close>

subsection \<open>Constants of the kernel interface\<close>

definition SECCOMP_RET_ALLOW :: u32 where "SECCOMP_RET_ALLOW = 0x7fff0000"
definition SECCOMP_RET_ERRNO :: u32 where "SECCOMP_RET_ERRNO = 0x00050000"
definition SECCOMP_RET_DATA :: u32 where "SECCOMP_RET_DATA = 0x0000ffff"
definition SECCOMP_RET_KILL_PROCESS :: u32 where "SECCOMP_RET_KILL_PROCESS = 0x80000000"
definition SECCOMP_RET_USER_NOTIF :: u32 where "SECCOMP_RET_USER_NOTIF = 0x7fc00000"
definition EPERM :: u32 where "EPERM = 1"
definition ENOSYS :: u32 where "ENOSYS = 38"
definition CLONE_NEWUSER :: u32 where "CLONE_NEWUSER = 0x10000000"
definition CLONE_NEWNET :: u32 where "CLONE_NEWNET = 0x40000000"

definition DENY_EPERM :: u32 where "DENY_EPERM = SECCOMP_RET_ERRNO OR (EPERM AND SECCOMP_RET_DATA)"
definition DENY_KILL :: u32 where "DENY_KILL = SECCOMP_RET_KILL_PROCESS"
definition DENY_ENOSYS :: u32 where "DENY_ENOSYS = SECCOMP_RET_ERRNO OR (ENOSYS AND SECCOMP_RET_DATA)"

definition OFF_NR :: u32 where "OFF_NR = 0"
definition OFF_ARCH :: u32 where "OFF_ARCH = 4"
definition OFF_ARG0 :: u32 where "OFF_ARG0 = 16"

subsection \<open>The compiler\<close>

type_synonym flt = "sock_filter list"

definition f_push :: "flt \<Rightarrow> sock_filter \<Rightarrow> flt" where
  "f_push g_flt f = g_flt @ [f]"

text \<open>\<^verbatim>\<open>struct sc_deny { long nr; const char *name; }\<close> has the fields of \<^typ>\<open>ac_sys\<close>.\<close>

definition deny :: "ac_sys list \<Rightarrow> int \<Rightarrow> cstr \<Rightarrow> ac_sys list" where
  "deny g_deny n s = g_deny @ [mk_sys n s]"

definition denylist_build :: "arch \<Rightarrow> ac_sys list \<Rightarrow> ac_sys list" where
  "denylist_build a g_deny =
     fold (\<lambda>s ds. deny ds (sys_nr s) (sys_name s)) (AC_SYSCALL_TAB a) g_deny"

text \<open>\<^verbatim>\<open>qsort(g_deny, g_ndeny, sizeof g_deny[0], cmp_sc)\<close>; \<^verbatim>\<open>cmp_sc\<close> compares the numbers.\<close>

definition qsort_deny :: "ac_sys list \<Rightarrow> ac_sys list" where
  "qsort_deny = sort_key sys_nr"

text \<open>
  \<^verbatim>\<open>emit_bst\<close>: three instructions for the middle element, the left subtree, the patch of
  the node's \<open>jt\<close> (truncated to 8 bits by the assignment), the right subtree.
\<close>

function emit_bst :: "ac_sys list \<Rightarrow> u32 \<Rightarrow> int \<Rightarrow> int \<Rightarrow> flt \<Rightarrow> flt" where
  "emit_bst g_deny g_deny_ret lo hi g_flt =
     (if lo > hi then g_flt
      else
        let mid = (lo + hi) div 2;
            node = length g_flt;
            v = word_of_int (sys_nr (g_deny ! nat mid));
            g1 = f_push g_flt (BPF_JUMP (BPF_JMP OR BPF_JGT OR BPF_K) v 0 0);
            g2 = f_push g1 (BPF_JUMP (BPF_JMP OR BPF_JEQ OR BPF_K) v 0 1);
            g3 = f_push g2 (BPF_STMT (BPF_RET OR BPF_K) g_deny_ret);
            g4 = emit_bst g_deny g_deny_ret lo (mid - 1) g3;
            right = length g4;
            g5 = g4[node := (g4 ! node)\<lparr>bf_jt := word_of_int (int right - int node - 1)\<rparr>]
        in emit_bst g_deny g_deny_ret (mid + 1) hi g5)"
  by pat_completeness auto
termination
  by (relation "measure (\<lambda>(ds, r, lo, hi, g). nat (hi - lo + 1))") auto

declare emit_bst.simps [simp del]

definition deny_enosys :: "int \<Rightarrow> flt \<Rightarrow> flt" where
  "deny_enosys n g_flt =
     f_push (f_push g_flt (BPF_JUMP (BPF_JMP OR BPF_JEQ OR BPF_K) (word_of_int n) 0 1))
       (BPF_STMT (BPF_RET OR BPF_K) DENY_ENOSYS)"

text \<open>The program of \<^verbatim>\<open>seccomp_apply\<close>, from the architecture check to the final ALLOW.\<close>

definition seccomp_program :: "arch \<Rightarrow> bool \<Rightarrow> flt" where
  "seccomp_program a ask =
     (let g_deny_ret = (if ask then SECCOMP_RET_USER_NOTIF else DENY_EPERM);
          g0 = foldl f_push []
            [BPF_STMT (BPF_LD OR BPF_W OR BPF_ABS) OFF_ARCH,
             BPF_JUMP (BPF_JMP OR BPF_JEQ OR BPF_K) (AC_AUDIT_ARCH a) 1 0,
             BPF_STMT (BPF_RET OR BPF_K) DENY_KILL,
             BPF_STMT (BPF_LD OR BPF_W OR BPF_ABS) OFF_NR,
             BPF_JUMP (BPF_JMP OR BPF_JEQ OR BPF_K) (word_of_int (AC_SYS_clone a)) 0 4,
             BPF_STMT (BPF_LD OR BPF_W OR BPF_ABS) OFF_ARG0,
             BPF_JUMP (BPF_JMP OR BPF_JSET OR BPF_K) (CLONE_NEWUSER OR CLONE_NEWNET) 0 1,
             BPF_STMT (BPF_RET OR BPF_K) DENY_EPERM,
             BPF_STMT (BPF_LD OR BPF_W OR BPF_ABS) OFF_NR];
          g_deny = denylist_build a [];
          g1 = (if AC_SYS_clone3 a \<ge> 0 then deny_enosys (AC_SYS_clone3 a) g0 else g0);
          sorted = qsort_deny g_deny;
          g2 = emit_bst sorted g_deny_ret 0 (int (length sorted) - 1) g1
      in f_push g2 (BPF_STMT (BPF_RET OR BPF_K) SECCOMP_RET_ALLOW))"

subsection \<open>Correctness of the search tree\<close>

text \<open>
  Jumps are relative, so emitting after a prefix is emitting from scratch behind the
  prefix: \<open>bst_code\<close> is the code of a subtree on its own.
\<close>

function bst_code :: "ac_sys list \<Rightarrow> u32 \<Rightarrow> int \<Rightarrow> int \<Rightarrow> flt" where
  "bst_code ds r lo hi =
     (if lo > hi then []
      else
        let mid = (lo + hi) div 2;
            v = word_of_int (sys_nr (ds ! nat mid));
            l = bst_code ds r lo (mid - 1)
        in BPF_JUMP (BPF_JMP OR BPF_JGT OR BPF_K) v (word_of_int (int (length l) + 2)) 0
           # BPF_JUMP (BPF_JMP OR BPF_JEQ OR BPF_K) v 0 1
           # BPF_STMT (BPF_RET OR BPF_K) r
           # l @ bst_code ds r (mid + 1) hi)"
  by pat_completeness auto
termination
  by (relation "measure (\<lambda>(ds, r, lo, hi). nat (hi - lo + 1))") auto

declare bst_code.simps [simp del]

lemma emit_bst_code: "emit_bst ds r lo hi g = g @ bst_code ds r lo hi"
proof (induction ds r lo hi g rule: emit_bst.induct)
  case (1 ds r lo hi g)
  show ?case
  proof (cases "lo > hi")
    case True
    then show ?thesis by (simp add: emit_bst.simps bst_code.simps)
  next
    case False
    then show ?thesis
      by (subst emit_bst.simps, subst bst_code.simps)
         (simp add: Let_def "1.IH" f_push_def BPF_JUMP_def nth_append list_update_append)
  qed
qed

lemma length_bst_code: "length (bst_code ds r lo hi) = 3 * nat (hi - lo + 1)"
proof (induction ds r lo hi rule: bst_code.induct)
  case (1 ds r lo hi)
  show ?case
  proof (cases "lo > hi")
    case True
    then show ?thesis by (simp add: bst_code.simps)
  next
    case False
    let ?m = "(lo + hi) div 2"
    have "lo \<le> ?m" "?m \<le> hi" using False by auto
    then show ?thesis using False "1.IH"
      by (subst bst_code.simps) (simp add: Let_def nat_add_distrib[symmetric] nat_diff_distrib)
  qed
qed

text \<open>A sorted deny table that fits \<^verbatim>\<open>g_deny[128]\<close>.\<close>

definition bst_ok :: "ac_sys list \<Rightarrow> bool" where
  "bst_ok ds \<longleftrightarrow> sorted_wrt (<) (map sys_nr ds)
     \<and> (\<forall>s\<in>set ds. 0 \<le> sys_nr s \<and> sys_nr s < 2 ^ 31) \<and> length ds \<le> 128"

lemma bst_ok_less:
  assumes "bst_ok ds" "i < j" "j < length ds"
  shows "sys_nr (ds ! i) < sys_nr (ds ! j)"
  using assms sorted_wrt_nth_less[of "(<)" "map sys_nr ds" i j] by (simp add: bst_ok_def)

text \<open>
  Running the code of the subtree \<open>lo..hi\<close> in front of any continuation returns the deny
  action when the accumulator is one of its numbers and falls through otherwise.
\<close>

lemma bst_run:
  assumes "bst_ok ds" "0 \<le> lo" "hi < int (length ds)" "0 \<le> n" "n < 2 ^ 32"
  shows "bpf_run (bst_code ds r lo hi @ rest) (word_of_int n) d =
           (if \<exists>i\<in>{lo..hi}. sys_nr (ds ! nat i) = n then Some r
            else bpf_run rest (word_of_int n) d)"
  using assms
proof (induction ds r lo hi arbitrary: rest rule: bst_code.induct)
  case (1 ds r lo hi)
  show ?case
  proof (cases "lo > hi")
    case True
    then show ?thesis by (simp add: bst_code.simps)
  next
    case False
    define m where "m = (lo + hi) div 2"
    define v where "v = sys_nr (ds ! nat m)"
    define l where "l = bst_code ds r lo (m - 1)"
    define rr where "rr = bst_code ds r (m + 1) hi"
    have m: "lo \<le> m" "m \<le> hi" using False by (auto simp: m_def)
    have "ds ! nat m \<in> set ds" using "1.prems" m by simp
    then have vb: "0 \<le> v" "v < 2 ^ 32" using "1.prems" by (auto simp: v_def bst_ok_def)
    have hl: "hi - lo < 128" using "1.prems" by (auto simp: bst_ok_def)
    have "m - lo \<le> 64" using hl m by (simp add: m_def)
    then have "length l + 2 < 2 ^ LENGTH(8)" using m by (simp add: l_def length_bst_code)
    then have len: "unat (word_of_nat (length l) + 2 :: u8) = length l + 2"
      using unat_of_nat_less[of "length l + 2", where 'a = 8] by (simp add: add.commute)
    have below: "\<And>i. lo \<le> i \<Longrightarrow> i < m \<Longrightarrow> sys_nr (ds ! nat i) < v"
      and above: "\<And>i. m < i \<Longrightarrow> i \<le> hi \<Longrightarrow> v < sys_nr (ds ! nat i)"
      using "1.prems" m by (auto simp: v_def intro!: bst_ok_less)
    have code: "bst_code ds r lo hi =
      BPF_JUMP (BPF_JMP OR BPF_JGT OR BPF_K) (word_of_int v) (word_of_int (int (length l) + 2)) 0
      # BPF_JUMP (BPF_JMP OR BPF_JEQ OR BPF_K) (word_of_int v) 0 1
      # BPF_STMT (BPF_RET OR BPF_K) r # l @ rr"
      using False by (subst bst_code.simps) (simp add: Let_def m_def v_def l_def rr_def)
    have IHl: "\<And>rest. bpf_run (l @ rest) (word_of_int n) d =
        (if \<exists>i\<in>{lo..m - 1}. sys_nr (ds ! nat i) = n then Some r else bpf_run rest (word_of_int n) d)"
      using "1.IH"(1)[OF False m_def refl] "1.prems" m unfolding l_def by simp
    have IHr: "\<And>rest. bpf_run (rr @ rest) (word_of_int n) d =
        (if \<exists>i\<in>{m + 1..hi}. sys_nr (ds ! nat i) = n then Some r else bpf_run rest (word_of_int n) d)"
      using "1.IH"(2)[OF False m_def refl refl] "1.prems" m unfolding rr_def by simp
    note w = word_of_int_less32[OF vb "1.prems"(4,5)] word_of_int_less32[OF "1.prems"(4,5) vb]
    have ex: "(\<exists>i\<in>{lo..hi}. sys_nr (ds ! nat i) = n) =
        ((\<exists>i\<in>{lo..m - 1}. sys_nr (ds ! nat i) = n) \<or> v = n \<or> (\<exists>i\<in>{m + 1..hi}. sys_nr (ds ! nat i) = n))"
    proof -
      have "{lo..hi} = {lo..m - 1} \<union> {m} \<union> {m + 1..hi}" using m by auto
      then show ?thesis by (simp add: bex_Un v_def disj_left_commute)
    qed
    consider "v < n" | "v = n" | "n < v" by linarith
    then show ?thesis
    proof cases
      case 1
      then have "\<not> (\<exists>i\<in>{lo..m - 1}. sys_nr (ds ! nat i) = n)" using below by force
      with 1 show ?thesis unfolding ex by (simp add: code w len IHr)
    next
      case 2
      then show ?thesis unfolding ex by (simp add: code w)
    next
      case 3
      then have "\<not> (\<exists>i\<in>{m + 1..hi}. sys_nr (ds ! nat i) = n)" using above by force
      with 3 show ?thesis unfolding ex by (simp add: code w IHl IHr)
    qed
  qed
qed

lemma denylist_build_eq: "denylist_build a g = g @ AC_SYSCALL_TAB a"
proof -
  have "fold (\<lambda>s ds. deny ds (sys_nr s) (sys_name s)) xs g = g @ xs" for xs
    by (induction xs arbitrary: g) (simp_all add: deny_def mk_sys_def)
  then show ?thesis by (simp add: denylist_build_def)
qed

lemma bst_ok_qsort: "wf_arch a \<Longrightarrow> bst_ok (qsort_deny (AC_SYSCALL_TAB a))"
  by (auto simp: wf_arch_def bst_ok_def qsort_deny_def list_all_iff strict_sorted_iff
      distinct_map)

lemma set_qsort_deny [simp]: "set (qsort_deny ds) = set ds"
  by (simp add: qsort_deny_def)

lemma bst_table_run:
  assumes "bst_ok ds"
  shows "bpf_run (bst_code ds r 0 (int (length ds) - 1) @ rest) A d =
           (if uint A \<in> set (map sys_nr ds) then Some r else bpf_run rest A d)"
proof -
  have "(\<exists>i\<in>{0..int (length ds) - 1}. sys_nr (ds ! nat i) = n) = (n \<in> set (map sys_nr ds))" for n
  proof
    assume "n \<in> set (map sys_nr ds)"
    then obtain j where "j < length ds" "sys_nr (ds ! j) = n" by (auto simp: in_set_conv_nth)
    then show "\<exists>i\<in>{0..int (length ds) - 1}. sys_nr (ds ! nat i) = n"
      by (intro bexI[of _ "int j"]) auto
  qed auto
  moreover have "uint A < 2 ^ 32" using uint_lt2p[of A] by simp
  ultimately show ?thesis
    using bst_run[OF assms, of 0 "int (length ds) - 1" "uint A" r rest d] by simp
qed

subsection \<open>The filter as a whole\<close>

text \<open>
  What the comments of \<^verbatim>\<open>seccomp_apply\<close> promise, as a decision on the system call: a foreign
  architecture is killed, \<open>clone\<close> with a user or network namespace flag is refused whatever
  \<open>--ask\<close> says, \<open>clone3\<close> does not exist, a listed number is refused (or, under \<open>--ask\<close>,
  parked for the supervisor), everything else runs.
\<close>

definition seccomp_spec :: "arch \<Rightarrow> bool \<Rightarrow> seccomp_data \<Rightarrow> u32" where
  "seccomp_spec a ask d =
     (let n = uint (sd_nr d) in
      if sd_arch d \<noteq> AC_AUDIT_ARCH a then DENY_KILL
      else if n = AC_SYS_clone a \<and> ucast (hd (sd_args d)) AND (CLONE_NEWUSER OR CLONE_NEWNET) \<noteq> 0
        then DENY_EPERM
      else if n = AC_SYS_clone3 a then DENY_ENOSYS
      else if n \<in> set (map sys_nr (AC_SYSCALL_TAB a))
        then if ask then SECCOMP_RET_USER_NOTIF else DENY_EPERM
      else SECCOMP_RET_ALLOW)"

lemma seccomp_program_decides:
  assumes "wf_arch a" "length (sd_args d) = 6"
  shows "bpf_run (seccomp_program a ask) 0 d = Some (seccomp_spec a ask d)"
proof -
  have args: "sd_args d \<noteq> []" using assms(2) by auto
  have cl: "(A = (word_of_int (AC_SYS_clone a) :: u32)) = (uint A = AC_SYS_clone a)" for A
    using assms(1) by (simp add: wf_arch_def word_eq_of_int32)
  have c3: "0 \<le> AC_SYS_clone3 a \<Longrightarrow> (A = (word_of_int (AC_SYS_clone3 a) :: u32)) = (uint A = AC_SYS_clone3 a)" for A
    using assms(1) by (simp add: wf_arch_def word_eq_of_int32)
  have n3: "AC_SYS_clone3 a < 0 \<Longrightarrow> uint A \<noteq> AC_SYS_clone3 a" for A :: u32
    by (smt (verit) uint_ge_0)
  note bst = bst_table_run[OF bst_ok_qsort[OF assms(1)], unfolded set_map set_qsort_deny]
  have wf: "AC_SYS_clone a \<noteq> AC_SYS_clone3 a" "AC_SYS_clone a \<notin> set (map sys_nr (AC_SYSCALL_TAB a))"
    using assms(1) by (auto simp: wf_arch_def)
  note prog = seccomp_program_def Let_def f_push_def deny_enosys_def emit_bst_code
    denylist_build_eq OFF_NR_def OFF_ARCH_def OFF_ARG0_def
  show ?thesis
  proof (cases "0 \<le> AC_SYS_clone3 a")
    case True
    then show ?thesis
      using args wf by (simp add: prog seccomp_spec_def cl c3 bst)
  next
    case False
    then show ?thesis
      using args wf n3 by (simp add: prog seccomp_spec_def cl bst)
  qed
qed

text \<open>C13: the program \<^verbatim>\<open>seccomp_apply\<close> compiles decides every system call as
  \<open>seccomp_spec\<close> does, for each architecture table that satisfies what the generator
  promises. In particular it always returns: it never runs off its end.\<close>

theorem seccomp_program_correct:
  assumes "wf_arch a" "length (sd_args d) = 6"
  shows "bpf_run (seccomp_program a ask) 0 d = Some (seccomp_spec a ask d)"
  using assms by (rule seccomp_program_decides)

theorem seccomp_program_correct_witness:
  "bpf_run (seccomp_program x86_64 False) 0
     \<lparr>sd_nr = 165, sd_arch = AUDIT_ARCH_X86_64, sd_ip = 0, sd_args = [0, 0, 0, 0, 0, 0]\<rparr>
   = Some DENY_EPERM"
  using seccomp_program_correct[OF wf_x86_64,
      of "\<lparr>sd_nr = 165, sd_arch = AUDIT_ARCH_X86_64, sd_ip = 0, sd_args = [0, 0, 0, 0, 0, 0]\<rparr>" False]
  by (simp add: seccomp_spec_def arch_tables_defs)

lemma length_seccomp_program:
  "length (seccomp_program a ask) =
     10 + (if 0 \<le> AC_SYS_clone3 a then 2 else 0) + 3 * length (AC_SYSCALL_TAB a)"
  by (simp add: seccomp_program_def Let_def f_push_def deny_enosys_def emit_bst_code
      denylist_build_eq length_bst_code qsort_deny_def)

text \<open>A piece of code whose jumps stay inside it or land right behind it.\<close>

definition closed :: "flt \<Rightarrow> bool" where
  "closed p \<longleftrightarrow> (\<forall>i < length p. i + unat (bf_jt (p ! i)) < length p \<and> i + unat (bf_jf (p ! i)) < length p)"

lemma closed_append: "closed p \<Longrightarrow> closed q \<Longrightarrow> closed (p @ q)"
proof -
  assume c: "closed p" "closed q"
  show ?thesis
    unfolding closed_def
  proof (intro allI impI)
    fix i assume i: "i < length (p @ q)"
    show "i + unat (bf_jt ((p @ q) ! i)) < length (p @ q) \<and> i + unat (bf_jf ((p @ q) ! i)) < length (p @ q)"
    proof (cases "i < length p")
      case True
      then show ?thesis using c(1) by (auto simp: closed_def nth_append intro: trans_less_add1)
    next
      case False
      then obtain j where j: "i = length p + j" by (metis le_Suc_ex not_less)
      then show ?thesis using c(2) i by (auto simp: closed_def nth_append)
    qed
  qed
qed

lemma closed_Nil: "closed []"
  by (simp add: closed_def)

lemma closed_Cons: "closed (f # p) \<longleftrightarrow> unat (bf_jt f) \<le> length p \<and> unat (bf_jf f) \<le> length p \<and> closed p"
  unfolding closed_def length_Cons All_less_Suc2 nth_Cons_0 nth_Cons_Suc by auto

lemma bst_offset: "0 \<le> lo \<Longrightarrow> lo \<le> hi \<Longrightarrow> hi < int n \<Longrightarrow> n \<le> 128 \<Longrightarrow> length (bst_code ds r lo ((lo + hi) div 2 - 1)) + 2 < 256"
  by (simp add: length_bst_code)

lemma closed_bst_code: "0 \<le> lo \<Longrightarrow> hi < int n \<Longrightarrow> n \<le> 128 \<Longrightarrow> closed (bst_code ds r lo hi)"
proof (induction ds r lo hi rule: bst_code.induct)
  case (1 ds r lo hi)
  show ?case
  proof (cases "lo > hi")
    case True
    then show ?thesis by (simp add: bst_code.simps closed_Nil)
  next
    case False
    define m where "m = (lo + hi) div 2"
    define l where "l = bst_code ds r lo (m - 1)"
    define rr where "rr = bst_code ds r (m + 1) hi"
    have m: "lo \<le> m" "m \<le> hi" using False by (auto simp: m_def)
    have "length l + 2 < 2 ^ LENGTH(8)" using bst_offset[of lo hi n ds r] "1.prems" False by (simp add: l_def m_def)
    then have len: "unat (word_of_nat (length l) + 2 :: u8) = length l + 2"
      using unat_of_nat_less[of "length l + 2", where 'a = 8] by (simp add: add.commute)
    have "closed l" "closed rr"
      using "1.IH"(1)[OF False m_def refl] "1.IH"(2)[OF False m_def refl refl] "1.prems" m unfolding l_def rr_def by simp_all
    then have "closed (l @ rr)" by (rule closed_append)
    then show ?thesis using False
      by (subst bst_code.simps)
        (simp add: Let_def m_def[symmetric] l_def[symmetric] rr_def[symmetric] closed_Cons BPF_JUMP_def BPF_STMT_def len)
  qed
qed

lemma seccomp_program_closed:
  assumes "length (AC_SYSCALL_TAB a) \<le> 128"
  shows "\<exists>p. seccomp_program a ask = p @ [BPF_STMT (BPF_RET OR BPF_K) SECCOMP_RET_ALLOW] \<and> closed p"
proof -
  have bst: "closed (bst_code (qsort_deny (AC_SYSCALL_TAB a)) r 0 (int (length (AC_SYSCALL_TAB a)) - 1))" for r
    by (rule closed_bst_code[of _ _ "length (AC_SYSCALL_TAB a)"]) (use assms in simp_all)
  have len: "length (qsort_deny (AC_SYSCALL_TAB a)) = length (AC_SYSCALL_TAB a)" by (simp add: qsort_deny_def)
  show ?thesis
    unfolding seccomp_program_def Let_def f_push_def deny_enosys_def emit_bst_code denylist_build_eq append_Nil len
    by (rule exI, rule conjI, rule refl)
      (intro closed_append[OF _ bst], simp add: closed_Cons closed_Nil BPF_JUMP_def BPF_STMT_def)
qed

lemma table_sizes: "length (AC_SYSCALL_TAB x86_64) = 50" "length (AC_SYSCALL_TAB aarch64) = 48"
  by (simp_all add: arch_tables_defs)

text \<open>C38: the arrays and jump fields of the filter suffice. For both architectures of the repository the deny list (50 and 48 calls) fits \<^verbatim>\<open>g_deny[128]\<close>
  and the program \<^verbatim>\<open>g_flt[512]\<close>, the 16-bit \<open>len\<close> of \<^verbatim>\<open>struct sock_fprog\<close> is exact, every jump of the program lands inside it, and
  the offset \<^verbatim>\<open>emit_bst\<close> assigns to the 8-bit \<open>jt\<close> of a node (the distance to the code of its right half, \<open>g\<close> being the code up to and
  with the node's three instructions) is below 256, so that nothing is cut off.\<close>

theorem seccomp_arrays_suffice:
  assumes "a = x86_64 \<or> a = aarch64"
  shows "length (denylist_build a []) \<le> 128 \<and> length (seccomp_program a ask) \<le> 512 \<and>
    unat (of_nat (length (seccomp_program a ask)) :: u16) = length (seccomp_program a ask) \<and>
    (\<forall>i. Suc i < length (seccomp_program a ask) \<longrightarrow>
       Suc i + unat (bf_jt (seccomp_program a ask ! i)) < length (seccomp_program a ask) \<and>
       Suc i + unat (bf_jf (seccomp_program a ask ! i)) < length (seccomp_program a ask)) \<and>
    (\<forall>lo hi r g. 0 \<le> lo \<and> lo \<le> hi \<and> hi < int (length (denylist_build a [])) \<longrightarrow>
       int (length (emit_bst (qsort_deny (denylist_build a [])) r lo ((lo + hi) div 2 - 1) g)) - (int (length g) - 3) - 1 < 256)"
proof -
  have t: "length (AC_SYSCALL_TAB a) \<le> 128" using assms table_sizes by auto
  then have n: "length (seccomp_program a ask) \<le> 512" by (simp add: length_seccomp_program)
  have u: "unat (of_nat (length (seccomp_program a ask)) :: u16) = length (seccomp_program a ask)"
    using n by (intro unat_of_nat_less) simp
  obtain p where p: "seccomp_program a ask = p @ [BPF_STMT (BPF_RET OR BPF_K) SECCOMP_RET_ALLOW]" "closed p"
    using seccomp_program_closed[OF t] by blast
  have "Suc i + unat (bf_jt (seccomp_program a ask ! i)) < length (seccomp_program a ask) \<and>
      Suc i + unat (bf_jf (seccomp_program a ask ! i)) < length (seccomp_program a ask)" if "Suc i < length (seccomp_program a ask)" for i
    using that p(2) unfolding p(1) closed_def by (simp add: nth_append)
  moreover have "int (length (emit_bst (qsort_deny (denylist_build a [])) r lo ((lo + hi) div 2 - 1) g)) - (int (length g) - 3) - 1 < 256"
    if "0 \<le> lo \<and> lo \<le> hi \<and> hi < int (length (denylist_build a []))" for lo hi r g
    using that bst_offset[OF _ _ _ t, of lo hi "qsort_deny (AC_SYSCALL_TAB a)" r] by (simp add: emit_bst_code denylist_build_eq)
  ultimately show ?thesis using t n u by (simp add: denylist_build_eq)
qed

theorem seccomp_arrays_suffice_witness:
  "length (denylist_build aarch64 []) \<le> 128 \<and> length (seccomp_program aarch64 True) \<le> 512 \<and>
   Suc 4 + unat (bf_jf (seccomp_program aarch64 True ! 4)) < length (seccomp_program aarch64 True)"
proof -
  note s = seccomp_arrays_suffice[of aarch64 True, OF disjI2[OF refl]]
  have "Suc 4 < length (seccomp_program aarch64 True)" by (simp add: length_seccomp_program)
  then show ?thesis using s by blast
qed

text \<open>
  The call that installs the program. \<open>prctl\<close> and \<open>seccomp\<close> are the kernel's; \<^verbatim>\<open>die\<close> is the
  left value with its message. Under \<open>--ask\<close> the result is the listener descriptor.
\<close>

definition SECCOMP_FILTER_FLAG_LOG :: u64 where "SECCOMP_FILTER_FLAG_LOG = 2"
definition SECCOMP_FILTER_FLAG_NEW_LISTENER :: u64 where "SECCOMP_FILTER_FLAG_NEW_LISTENER = 8"

definition seccomp_apply ::
    "arch \<Rightarrow> bool \<Rightarrow> int \<Rightarrow> (u64 \<Rightarrow> u16 \<Rightarrow> flt \<Rightarrow> int) \<Rightarrow> cstr + int" where
  "seccomp_apply a ask prctl_rc sys_seccomp =
     (let prog = seccomp_program a ask in
      if prctl_rc < 0 then Inl ''no_new_privs''
      else
        let fl = SECCOMP_FILTER_FLAG_LOG;
            fl = (if ask then fl OR SECCOMP_FILTER_FLAG_NEW_LISTENER else fl);
            rc = sys_seccomp fl (of_nat (length prog)) prog
        in if rc < 0 then Inl ''seccomp install (--ask needs kernel >= 5.0)'' else Inr rc)"

text \<open>C39: on x86_64 the deny list does not reach the x32 system calls, which share
  \<open>AUDIT_ARCH_X86_64\<close> and are numbered from \<open>0x40000000\<close>: the filter allows every one of
  them, the x32 twins of the listed calls included.\<close>

theorem x32_syscalls_allowed:
  assumes "sd_arch d = AUDIT_ARCH_X86_64" "0x40000000 \<le> sd_nr d" "length (sd_args d) = 6"
  shows "bpf_run (seccomp_program x86_64 ask) 0 d = Some SECCOMP_RET_ALLOW"
proof -
  have "0x40000000 \<le> uint (sd_nr d)" using assms(2) by (simp add: word_le_def)
  then have "seccomp_spec x86_64 ask d = SECCOMP_RET_ALLOW"
    using assms(1) by (simp add: seccomp_spec_def arch_tables_defs)
  then show ?thesis using seccomp_program_decides[OF wf_x86_64 assms(3)] by simp
qed

theorem x32_syscalls_allowed_witness:
  "bpf_run (seccomp_program x86_64 False) 0
     \<lparr>sd_nr = 0x40000000 + 165, sd_arch = AUDIT_ARCH_X86_64, sd_ip = 0, sd_args = [0, 0, 0, 0, 0, 0]\<rparr>
   = Some SECCOMP_RET_ALLOW"
  by (rule x32_syscalls_allowed) simp_all

end
