(* ===== verification/Bitmap64.thy ===== *)
theory Bitmap64
  imports AC_Prelude
begin

text \<open>
  Arrays of 64-bit words used as bit sets. Two components share the idiom: the
  "always allow" set of \<^verbatim>\<open>--ask\<close> (\<^verbatim>\<open>g_always[8]\<close> in \<^verbatim>\<open>src/sand.c\<close>) and the allocator of
  /30 networks (\<^verbatim>\<open>g_netmap[256]\<close> in \<^verbatim>\<open>src/agentlsm.c\<close>). The locale \<open>bitset\<close> is the interface
  both rely on; the words implement it.
\<close>

subsection \<open>The interface\<close>

locale bitset =
  fixes members :: "'m \<Rightarrow> nat set"
    and capacity :: "'m \<Rightarrow> nat"
    and tst :: "'m \<Rightarrow> nat \<Rightarrow> bool"
    and st :: "'m \<Rightarrow> nat \<Rightarrow> 'm"
    and cl :: "'m \<Rightarrow> nat \<Rightarrow> 'm"
  assumes tst_iff: "i < capacity m \<Longrightarrow> tst m i \<longleftrightarrow> i \<in> members m"
    and members_st: "i < capacity m \<Longrightarrow> members (st m i) = insert i (members m)"
    and members_cl: "i < capacity m \<Longrightarrow> members (cl m i) = members m - {i}"
    and capacity_st: "capacity (st m i) = capacity m"
    and capacity_cl: "capacity (cl m i) = capacity m"
    and members_bound: "i \<in> members m \<Longrightarrow> i < capacity m"
begin

lemma members_cl_st:
  "i < capacity m \<Longrightarrow> i \<notin> members m \<Longrightarrow> members (cl (st m i) i) = members m"
  by (simp add: members_st members_cl capacity_st)

lemma tst_st:
  "i < capacity m \<Longrightarrow> j < capacity m \<Longrightarrow> tst (st m i) j \<longleftrightarrow> j = i \<or> tst m j"
  by (simp add: tst_iff members_st capacity_st)

text \<open>The search loop both for a free index: the first clear bit below a bound.\<close>

lemma find_free_Some:
  assumes "find (\<lambda>i. \<not> tst m i) [0..<n] = Some i" "n \<le> capacity m"
  shows "i < n" "i \<notin> members m" "\<forall>j<i. j \<in> members m"
proof -
  from assms(1) have "i < n" "\<not> tst m i" "\<forall>j<i. tst m j" by (auto simp: find_Some_iff)
  then show "i < n" "i \<notin> members m" "\<forall>j<i. j \<in> members m" using assms(2) by (auto simp: tst_iff)
qed

lemma find_free_None:
  assumes "find (\<lambda>i. \<not> tst m i) [0..<n] = None" "n \<le> capacity m"
  shows "{..<n} \<subseteq> members m"
  using assms by (auto simp: find_None_iff tst_iff)

end

subsection \<open>Words implement it\<close>

text \<open>\<^verbatim>\<open>m[i >> 6] & (1ULL << (i & 63))\<close> and its two updates.\<close>

definition bm_test :: "u64 list \<Rightarrow> nat \<Rightarrow> bool" where
  "bm_test m i \<longleftrightarrow> (m ! (i div 64)) AND push_bit (i mod 64) 1 \<noteq> 0"

definition bm_set :: "u64 list \<Rightarrow> nat \<Rightarrow> u64 list" where
  "bm_set m i = m[i div 64 := (m ! (i div 64)) OR push_bit (i mod 64) 1]"

definition bm_clear :: "u64 list \<Rightarrow> nat \<Rightarrow> u64 list" where
  "bm_clear m i = m[i div 64 := (m ! (i div 64)) AND NOT (push_bit (i mod 64) 1)]"

definition bm_members :: "u64 list \<Rightarrow> nat set" where
  "bm_members m = {i. i < 64 * length m \<and> bit (m ! (i div 64)) (i mod 64)}"

lemma bm_test_iff: "i < 64 * length m \<Longrightarrow> bm_test m i \<longleftrightarrow> i \<in> bm_members m"
  unfolding bm_test_def bit_iff_and_push_bit_not_eq_0[symmetric] by (simp add: bm_members_def)

lemma div_mod_64_eq_iff: "i div 64 = j div 64 \<Longrightarrow> i mod 64 = j mod 64 \<longleftrightarrow> i = (j :: nat)"
  by (metis mult_div_mod_eq)

lemma bm_members_set: "i < 64 * length m \<Longrightarrow> bm_members (bm_set m i) = insert i (bm_members m)"
  by (auto simp: bm_members_def bm_set_def nth_list_update bit_simps div_mod_64_eq_iff)

lemma bm_members_clear: "i < 64 * length m \<Longrightarrow> bm_members (bm_clear m i) = bm_members m - {i}"
  by (auto simp: bm_members_def bm_clear_def nth_list_update bit_simps div_mod_64_eq_iff)

interpretation words: bitset bm_members "\<lambda>m. 64 * length m" bm_test bm_set bm_clear
  by unfold_locales
    (simp_all add: bm_test_iff bm_members_set bm_members_clear, auto simp: bm_set_def bm_clear_def bm_members_def)

lemma bm_members_replicate_0 [simp]: "bm_members (replicate n 0) = {}"
  by (auto simp: bm_members_def)

lemma length_bm [simp]: "length (bm_set m i) = length m" "length (bm_clear m i) = length m"
  by (simp_all add: bm_set_def bm_clear_def)

end
