(* ===== verification/Ask_Mode.thy ===== *)
theory Ask_Mode
  imports Seccomp Bitmap64
begin

text \<open>
  \<^verbatim>\<open>--ask\<close> (\<^verbatim>\<open>src/sand.c\<close>): a listed system call parks in the kernel and the supervisor
  answers it. \<open>ask_handle\<close> is one parked call: the notification received, the terminal's
  input if there is a terminal, and whether the notification is still valid when the answer
  is ready come from outside; the "always" bitmap, the response, the kill and the unread
  terminal input are its effects.
\<close>

record seccomp_notif =
  rq_id :: u64
  rq_pid :: u32
  rq_flags :: u32
  rq_data :: seccomp_data

record seccomp_notif_resp =
  rs_id :: u64
  rs_val :: u64
  rs_error :: int
  rs_flags :: u32

definition SECCOMP_USER_NOTIF_FLAG_CONTINUE :: u32 where "SECCOMP_USER_NOTIF_FLAG_CONTINUE = 1"

fun sc_name :: "ac_sys list \<Rightarrow> int \<Rightarrow> cstr" where
  "sc_name [] n = ''?''"
| "sc_name (s # ss) n = (if sys_nr s = n then sys_name s else sc_name ss n)"

text \<open>
  The answer is the first character of a line; the rest of the line is read and dropped.
  \<open>None\<close> is \<open>EOF\<close>.
\<close>

fun drain_line :: "cstr \<Rightarrow> cstr" where
  "drain_line [] = []"
| "drain_line (d # cs) = (if d = CHR 0x0A then cs else drain_line cs)"

fun ask_getc :: "cstr \<Rightarrow> char option \<times> cstr" where
  "ask_getc [] = (None, [])"
| "ask_getc (c # cs) = (Some c, if c = CHR 0x0A then cs else drain_line cs)"

record ask_result =
  ar_always :: "u64 list"
  ar_sent :: "seccomp_notif_resp option"
  ar_killed :: bool
  ar_asked :: "cstr option"
  ar_tty :: "cstr option"

definition ask_handle ::
    "ac_sys list \<Rightarrow> u64 list \<Rightarrow> seccomp_notif option \<Rightarrow> cstr option \<Rightarrow> bool \<Rightarrow> ask_result" where
  "ask_handle g_deny g_always recv tty id_valid =
     (case recv of
        None \<Rightarrow> \<lparr>ar_always = g_always, ar_sent = None, ar_killed = False, ar_asked = None, ar_tty = tty\<rparr>
      | Some req \<Rightarrow>
        let resp = \<lparr>rs_id = rq_id req, rs_val = 0, rs_error = 0, rs_flags = 0\<rparr>;
            run = resp\<lparr>rs_flags := SECCOMP_USER_NOTIF_FLAG_CONTINUE\<rparr>;
            refuse = resp\<lparr>rs_error := - uint EPERM\<rparr>;
            n = sint (sd_nr (rq_data req));
            answer = (\<lambda>always r killed asked t.
              \<lparr>ar_always = always, ar_sent = (if id_valid then Some r else None),
               ar_killed = killed, ar_asked = asked, ar_tty = t\<rparr>)
        in if 0 \<le> n \<and> n < 512 \<and> bm_test g_always (nat n) then answer g_always run False None tty
           else case tty of
             None \<Rightarrow> answer g_always refuse False None tty
           | Some input \<Rightarrow>
               let (c, rest) = ask_getc input; asked = Some (sc_name g_deny n) in
               if c = Some CHR ''y'' \<or> c = Some CHR ''Y'' then
                 answer g_always run False asked (Some rest)
               else if c = Some CHR ''a'' \<or> c = Some CHR ''A'' then
                 answer (if 0 \<le> n \<and> n < 512 then bm_set g_always (nat n) else g_always)
                   run False asked (Some rest)
               else if c = Some CHR ''k'' \<or> c = Some CHR ''K'' then
                 answer g_always refuse True asked (Some rest)
               else answer g_always refuse False asked (Some rest))"

text \<open>A session of parked calls, in the order the supervisor handles them.\<close>

fun ask_session ::
    "ac_sys list \<Rightarrow> u64 list \<Rightarrow> (seccomp_notif \<times> cstr option \<times> bool) list \<Rightarrow> ask_result list" where
  "ask_session g_deny g_always [] = []"
| "ask_session g_deny g_always ((req, tty, ok) # es) =
     (let r = ask_handle g_deny g_always (Some req) tty ok
      in r # ask_session g_deny (ar_always r) es)"

subsection \<open>The contract\<close>

text \<open>
  The policy on numbers: a set of numbers allowed for good, and the four answers. A parked
  call runs when its number is in the set or the human says so, and every other outcome,
  a missing terminal and end of input included, is a refusal.
\<close>

datatype verdict = Run | Refuse

definition call_nr :: "seccomp_notif \<Rightarrow> int" where
  "call_nr req = sint (sd_nr (rq_data req))"

definition first_char :: "cstr option \<Rightarrow> char option" where
  "first_char tty = (case tty of Some (c # _) \<Rightarrow> Some c | _ \<Rightarrow> None)"

definition says_always :: "cstr option \<Rightarrow> bool" where
  "says_always tty \<longleftrightarrow> first_char tty \<in> {Some CHR ''a'', Some CHR ''A''}"

definition says_run :: "cstr option \<Rightarrow> bool" where
  "says_run tty \<longleftrightarrow> first_char tty \<in> {Some CHR ''y'', Some CHR ''Y'', Some CHR ''a'', Some CHR ''A''}"

definition says_kill :: "cstr option \<Rightarrow> bool" where
  "says_kill tty \<longleftrightarrow> first_char tty \<in> {Some CHR ''k'', Some CHR ''K''}"

definition ask_spec :: "int set \<Rightarrow> seccomp_notif \<Rightarrow> cstr option \<Rightarrow> int set \<times> verdict \<times> bool" where
  "ask_spec S req tty =
     (if call_nr req \<in> S then (S, Run, False)
      else (if says_always tty \<and> call_nr req \<in> {0..<512} then insert (call_nr req) S else S,
            if says_run tty then Run else Refuse, says_kill tty))"

definition resp_of :: "seccomp_notif \<Rightarrow> verdict \<Rightarrow> seccomp_notif_resp" where
  "resp_of req v =
     (case v of
        Run \<Rightarrow> \<lparr>rs_id = rq_id req, rs_val = 0, rs_error = 0, rs_flags = SECCOMP_USER_NOTIF_FLAG_CONTINUE\<rparr>
      | Refuse \<Rightarrow> \<lparr>rs_id = rq_id req, rs_val = 0, rs_error = - 1, rs_flags = 0\<rparr>)"

definition always_set :: "u64 list \<Rightarrow> int set" where
  "always_set g = int ` bm_members g"

lemma always_set_iff:
  "length g = 8 \<Longrightarrow> n \<in> always_set g \<longleftrightarrow> 0 \<le> n \<and> n < 512 \<and> bm_test g (nat n)"
  using words.members_bound[of "nat n" g] words.tst_iff[of "nat n" g]
  by (auto simp: always_set_def image_iff intro!: bexI[of _ "nat n"] dest: words.members_bound)

lemma always_set_set:
  "length g = 8 \<Longrightarrow> 0 \<le> n \<Longrightarrow> n < 512 \<Longrightarrow> always_set (bm_set g (nat n)) = insert n (always_set g)"
  by (simp add: always_set_def words.members_st)

lemma always_set_init [simp]: "always_set (replicate n 0) = {}"
  by (simp add: always_set_def)

lemma ask_getc_first: "fst (ask_getc s) = first_char (Some s)"
  by (cases s) (simp_all add: first_char_def)

lemma ask_handle_step:
  assumes "length g = 8"
    and "ask_handle g_deny g (Some req) tty ok = r"
    and "ask_spec (always_set g) req tty = (S', v, kill)"
  shows "always_set (ar_always r) = S'" "length (ar_always r) = 8" "ar_killed r = kill"
    "ar_sent r = (if ok then Some (resp_of req v) else None)"
proof -
  note spec = ask_spec_def resp_of_def says_run_def says_always_def says_kill_def
  have "always_set (ar_always r) = S' \<and> length (ar_always r) = 8 \<and> ar_killed r = kill
    \<and> ar_sent r = (if ok then Some (resp_of req v) else None)"
  proof (cases "call_nr req \<in> always_set g")
    case True
    then show ?thesis using assms
      by (auto simp: ask_handle_def Let_def spec always_set_iff call_nr_def)
  next
    case False
    note asked = this
    show ?thesis
    proof (cases tty)
      case None
      then show ?thesis using assms asked
        by (auto simp: ask_handle_def Let_def spec always_set_iff call_nr_def first_char_def EPERM_def)
    next
      case (Some s)
      obtain rest where c: "ask_getc s = (first_char (Some s), rest)"
        using ask_getc_first[of s] by (metis prod.collapse)
      define Y where "Y \<longleftrightarrow> first_char (Some s) = Some CHR ''y'' \<or> first_char (Some s) = Some CHR ''Y''"
      define A where "A \<longleftrightarrow> first_char (Some s) = Some CHR ''a'' \<or> first_char (Some s) = Some CHR ''A''"
      define K where "K \<longleftrightarrow> first_char (Some s) = Some CHR ''k'' \<or> first_char (Some s) = Some CHR ''K''"
      have says: "says_run tty \<longleftrightarrow> Y \<or> A" "says_always tty \<longleftrightarrow> A" "says_kill tty \<longleftrightarrow> K"
        by (auto simp: Some says_run_def says_always_def says_kill_def Y_def A_def K_def)
      have excl: "\<not> (Y \<and> A)" "\<not> (Y \<and> K)" "\<not> (A \<and> K)" by (auto simp: Y_def A_def K_def)
      have na: "\<not> (0 \<le> call_nr req \<and> call_nr req < 512 \<and> bm_test g (nat (call_nr req)))"
        using asked assms(1) by (simp add: always_set_iff)
      have r: "r = ask_handle g_deny g (Some req) (Some s) ok" using assms(2) Some by simp
      note simps = r ask_handle_def Let_def c prod.case option.case call_nr_def[symmetric]
        Y_def[symmetric] A_def[symmetric] K_def[symmetric] if_not_P[OF na]
      consider "Y" | "A" | "K" | "\<not> Y" "\<not> A" "\<not> K" by blast
      then show ?thesis
      proof cases
        case 1
        with says excl assms(1,3) asked show ?thesis
          unfolding simps by (simp add: ask_spec_def resp_of_def)
      next
        case 2
        with says excl assms(1,3) asked show ?thesis
          unfolding simps by (auto simp add: ask_spec_def resp_of_def always_set_set)
      next
        case 3
        with says excl assms(1,3) asked show ?thesis
          unfolding simps by (simp add: ask_spec_def resp_of_def EPERM_def)
      next
        case 4
        with says excl assms(1,3) asked show ?thesis
          unfolding simps by (simp add: ask_spec_def resp_of_def EPERM_def)
      qed
    qed
  qed
  then show "always_set (ar_always r) = S'" "length (ar_always r) = 8" "ar_killed r = kill"
    "ar_sent r = (if ok then Some (resp_of req v) else None)" by simp_all
qed

text \<open>C34: one parked call. The bitmap refines the set of numbers allowed for good, and the
  response, the kill and the new set are those of \<open>ask_spec\<close>; the response is sent exactly
  when the notification is still valid, and carries its id.\<close>

theorem ask_handle_refines:
  assumes "length g = 8"
    and "ask_handle g_deny g (Some req) tty ok = r"
    and "ask_spec (always_set g) req tty = (S', v, kill)"
  shows "always_set (ar_always r) = S' \<and> length (ar_always r) = 8 \<and> ar_killed r = kill
    \<and> ar_sent r = (if ok then Some (resp_of req v) else None)"
  using ask_handle_step[OF assms] by simp

definition demo_req :: "u32 \<Rightarrow> seccomp_notif" where
  "demo_req n = \<lparr>rq_id = 7, rq_pid = 42, rq_flags = 0,
     rq_data = \<lparr>sd_nr = n, sd_arch = AUDIT_ARCH_X86_64, sd_ip = 0, sd_args = replicate 6 0\<rparr>\<rparr>"

theorem ask_handle_refines_witness:
  "ar_sent (ask_handle [] (replicate 8 0) (Some (demo_req 165)) (Some ''a'') True)
     = Some (resp_of (demo_req 165) Run)
   \<and> always_set (ar_always (ask_handle [] (replicate 8 0) (Some (demo_req 165)) (Some ''a'') True)) = {165}"
proof -
  have "ask_spec (always_set (replicate 8 0)) (demo_req 165) (Some ''a'') = ({165}, Run, False)"
    by (simp add: ask_spec_def says_always_def says_run_def says_kill_def first_char_def
        call_nr_def demo_req_def)
  from ask_handle_refines[OF _ refl this, of "[]" True] show ?thesis by simp
qed

subsection \<open>Whole sessions\<close>

lemma ask_session_nth:
  assumes "length g = 8" "i < length es"
  shows "ar_sent (ask_session g_deny g es ! i) =
    (let (req, tty, ok) = es ! i;
         granted = call_nr req \<in> always_set g \<or>
           (\<exists>j<i. call_nr (fst (es ! j)) = call_nr req \<and> call_nr req \<in> {0..<512}
              \<and> says_always (fst (snd (es ! j))))
     in if ok then Some (resp_of req (if granted \<or> says_run tty then Run else Refuse)) else None)"
  using assms
proof (induction es arbitrary: g i)
  case Nil
  then show ?case by simp
next
  case (Cons e es)
  obtain req tty ok where e: "e = (req, tty, ok)" by (cases e)
  define r where "r = ask_handle g_deny g (Some req) tty ok"
  obtain S' v kill where spec: "ask_spec (always_set g) req tty = (S', v, kill)" by (metis prod_cases3)
  note step = ask_handle_step[OF Cons.prems(1) r_def[symmetric] spec]
  show ?case
  proof (cases i)
    case 0
    then show ?thesis using step(4) spec
      by (auto simp: e r_def[symmetric] Let_def ask_spec_def split: if_splits)
  next
    case (Suc k)
    have S': "S' = always_set g \<union> (if says_always tty \<and> call_nr req \<in> {0..<512} then {call_nr req} else {})"
      using spec by (auto simp: ask_spec_def split: if_splits)
    have "call_nr req' \<in> S' \<or> (\<exists>j<k. P j) \<longleftrightarrow> call_nr req' \<in> always_set g \<or>
        (call_nr req = call_nr req' \<and> call_nr req' \<in> {0..<512} \<and> says_always tty) \<or> (\<exists>j<k. P j)" for req' P
      using S' by auto
    with Cons.IH[of "ar_always r" k] step(1,2) Cons.prems Suc show ?thesis
      by (simp add: e r_def[symmetric] Let_def Ex_less_Suc2 case_prod_beta)
  qed
qed

text \<open>C35: a whole \<open>--ask\<close> session from the empty bitmap. The call handled at step \<open>i\<close> runs
  exactly when the human answers \<open>y\<close> or \<open>a\<close> to it, or answered \<open>a\<close> to an earlier call with
  the same number; in every other case it is refused with \<open>EPERM\<close>.\<close>

theorem ask_session_verdict:
  assumes "i < length es" "es ! i = (req, tty, True)"
  shows "ar_sent (ask_session g_deny (replicate 8 0) es ! i) =
    Some (resp_of req
      (if says_run tty \<or> (\<exists>j<i. call_nr (fst (es ! j)) = call_nr req \<and> call_nr req \<in> {0..<512}
            \<and> says_always (fst (snd (es ! j)))) then Run else Refuse))"
  using ask_session_nth[of "replicate 8 0" i es g_deny] assms by (simp add: Let_def disj_commute)

theorem ask_session_verdict_witness:
  "ar_sent (ask_session [] (replicate 8 0)
      [(demo_req 165, Some ''a'', True), (demo_req 101, None, True), (demo_req 165, None, True)] ! 2)
     = Some (resp_of (demo_req 165) Run)"
proof -
  let ?es = "[(demo_req 165, Some ''a'', True), (demo_req 101, None, True), (demo_req 165, None, True)]"
  have "\<exists>j<2. call_nr (fst (?es ! j)) = call_nr (demo_req 165) \<and> call_nr (demo_req 165) \<in> {0..<512}
          \<and> says_always (fst (snd (?es ! j)))"
    by (rule exI[of _ 0]) (simp add: says_always_def first_char_def call_nr_def demo_req_def)
  with ask_session_verdict[of 2 ?es "demo_req 165" None "[]"] show ?thesis by simp
qed

end
