(* ===== verification/Exec_Wire.thy ===== *)
theory Exec_Wire
  imports AC_Prelude
begin

text \<open>
  The exec protocol of the long-running mode (\<^verbatim>\<open>src/sand.c\<close>): the wire format
  (\<^verbatim>\<open>put_u32\<close>, \<^verbatim>\<open>get_u32\<close>), full reads and writes over a stream socket, the jail's
  \<^verbatim>\<open>handle_conn\<close> with its stdin pump and the host's \<^verbatim>\<open>client_exec\<close>.

  What a descriptor delivers is a list of chunks: one \<open>read\<close> returns at most the first
  chunk, and no chunk (or an empty one) is end of file or an error, the two results
  \<open>r <= 0\<close> the code does not tell apart.
\<close>

type_synonym bytes = "u8 list"
type_synonym stream = "bytes list"

subsection \<open>Words on the wire\<close>

definition put_u32 :: "u32 \<Rightarrow> bytes" where
  "put_u32 v = [ucast v, ucast (drop_bit 8 v), ucast (drop_bit 16 v), ucast (drop_bit 24 v)]"

definition get_u32 :: "bytes \<Rightarrow> u32" where
  "get_u32 b = ucast (b ! 0) OR push_bit 8 (ucast (b ! 1)) OR push_bit 16 (ucast (b ! 2))
     OR push_bit 24 (ucast (b ! 3))"

lemma length_put_u32 [simp]: "length (put_u32 v) = 4"
  by (simp add: put_u32_def)

lemma get_put_u32 [simp]: "get_u32 (put_u32 v) = v"
proof (rule bit_word_eqI)
  fix n assume "n < LENGTH(32)"
  then show "bit (get_u32 (put_u32 v)) n \<longleftrightarrow> bit v n"
    by (cases "n < 8"; cases "n < 16"; cases "n < 24")
       (auto simp: get_u32_def put_u32_def bit_simps)
qed

subsection \<open>Full reads and writes\<close>

definition sys_read :: "stream \<Rightarrow> nat \<Rightarrow> bytes \<times> stream" where
  "sys_read cs n =
     (case cs of [] \<Rightarrow> ([], [])
      | c # cs' \<Rightarrow> if length c \<le> n then (c, cs') else (take n c, drop n c # cs'))"

lemma sys_read_length: "length (fst (sys_read cs n)) \<le> n"
  by (auto simp: sys_read_def split: list.split)

function read_full :: "stream \<Rightarrow> nat \<Rightarrow> (bytes \<times> stream) option" where
  "read_full cs n =
     (if n = 0 then Some ([], cs)
      else let (p, cs') = sys_read cs n in
        if p = [] then None
        else map_option (\<lambda>(q, cs''). (p @ q, cs'')) (read_full cs' (n - length p)))"
  by pat_completeness auto
termination
  by (relation "measure snd") (auto simp: sys_read_def split: list.splits if_splits)

declare read_full.simps [simp del]

text \<open>
  \<^verbatim>\<open>write_full\<close> against a kernel that answers the successive \<open>write\<close> calls with the values
  in \<open>ws\<close> (no further answer is an error). The result is the bytes that went out and
  whether the call returned 0.
\<close>

function write_full :: "int list \<Rightarrow> bytes \<Rightarrow> bytes \<times> bool" where
  "write_full ws p =
     (if p = [] then ([], True)
      else case ws of [] \<Rightarrow> ([], False)
        | r # ws' \<Rightarrow>
            if r \<le> 0 then ([], False)
            else let n = min (nat r) (length p); (out, ok) = write_full ws' (drop n p)
                 in (take n p @ out, ok))"
  by pat_completeness auto
termination
  by (relation "measure (\<lambda>(ws, p). length p)") auto

declare write_full.simps [simp del]

lemma read_full_0 [simp]: "read_full cs 0 = Some ([], cs)"
  by (simp add: read_full.simps)

lemma sys_read_cases:
  assumes "[] \<notin> set cs" "0 < n" "sys_read cs n = (p, cs')"
  shows "(cs = [] \<and> p = []) \<or>
    (p \<noteq> [] \<and> length p \<le> n \<and> concat cs = p @ concat cs' \<and> [] \<notin> set cs')"
  using assms by (auto simp: sys_read_def split: list.splits if_splits)

lemma read_full_spec:
  assumes "[] \<notin> set cs"
  shows "if n \<le> length (concat cs)
    then \<exists>cs'. read_full cs n = Some (take n (concat cs), cs')
           \<and> concat cs' = drop n (concat cs) \<and> [] \<notin> set cs'
    else read_full cs n = None"
  using assms
proof (induction cs n rule: read_full.induct)
  case (1 cs n)
  show ?case
  proof (cases "n = 0")
    case True
    with "1.prems" show ?thesis by simp
  next
    case False
    obtain p cs' where rd: "sys_read cs n = (p, cs')" by (metis prod.exhaust)
    have eq: "read_full cs n = (if p = [] then None
        else map_option (\<lambda>(q, cs''). (p @ q, cs'')) (read_full cs' (n - length p)))"
      using False by (subst read_full.simps) (simp add: rd)
    from sys_read_cases[OF "1.prems" _ rd] False
    consider "cs = []" "p = []"
      | "p \<noteq> []" "length p \<le> n" "concat cs = p @ concat cs'" "[] \<notin> set cs'" by auto
    then show ?thesis
    proof cases
      case 1
      with False eq show ?thesis by simp
    next
      case 2
      with "1.IH"[OF False rd[symmetric] refl] show ?thesis
        by (auto simp: eq split: if_splits)
    qed
  qed
qed

lemma read_full_Some:
  assumes "[] \<notin> set cs" "concat cs = xs @ ys" "n = length xs"
  shows "\<exists>cs'. read_full cs n = Some (xs, cs') \<and> concat cs' = ys \<and> [] \<notin> set cs'"
  using read_full_spec[OF assms(1), of n] assms(2,3) by simp

lemma write_full_prefix:
  "write_full ws p = (out, ok) \<Longrightarrow> prefix out p \<and> (ok \<longleftrightarrow> out = p)"
proof (induction ws p arbitrary: out rule: write_full.induct)
  case (1 ws p)
  show ?case
  proof (cases "p = [] \<or> ws = [] \<or> hd ws \<le> 0")
    case True
    with "1.prems" show ?thesis by (subst (asm) write_full.simps) (auto split: list.splits if_splits)
  next
    case False
    then obtain r ws' where ws: "ws = r # ws'" "0 < r" by (cases ws) auto
    define n where "n = min (nat r) (length p)"
    obtain out' where rec: "write_full ws' (drop n p) = (out', ok)" "out = take n p @ out'"
      using "1.prems" False by (subst (asm) write_full.simps) (auto simp: ws n_def Let_def split: prod.splits)
    have "prefix out' (drop n p) \<and> (ok \<longleftrightarrow> out' = drop n p)"
      using "1.IH"[of r ws' n out'] False rec(1) ws n_def by simp
    then show ?thesis
      by (metis append_take_drop_id rec(2) same_append_eq same_prefix_prefix)
  qed
qed


subsection \<open>The jail side\<close>

text \<open>
  \<^verbatim>\<open>handle_conn\<close>, first half: the request header. The two guards on \<open>argc\<close> and \<open>len\<close>, the
  allocation and a short read all lead to \<^verbatim>\<open>goto out\<close>, the value \<open>None\<close>: the connection is
  closed without an answer. The result is \<open>argv\<close> and what is left of the stream. Both
  supported machines are little endian, so the four bytes read into \<^verbatim>\<open>uint32_t\<close> have the
  value \<open>get_u32\<close> gives them.
\<close>

abbreviation MAXARGS :: u32 where "MAXARGS \<equiv> 256"

fun read_args :: "(nat \<Rightarrow> bool) \<Rightarrow> nat \<Rightarrow> stream \<Rightarrow> (bytes list \<times> stream) option" where
  "read_args malloc_ok 0 cs = Some ([], cs)"
| "read_args malloc_ok (Suc i) cs =
     (case read_full cs 4 of None \<Rightarrow> None
      | Some (b, cs1) \<Rightarrow>
          let len = get_u32 b in
          if len = 0 \<or> len > 65536 then None
          else if \<not> malloc_ok (unat len + 1) then None
          else (case read_full cs1 (unat len) of None \<Rightarrow> None
            | Some (arg, cs2) \<Rightarrow>
                map_option (\<lambda>(args, cs3). (arg # args, cs3)) (read_args malloc_ok i cs2)))"

definition read_request :: "(nat \<Rightarrow> bool) \<Rightarrow> stream \<Rightarrow> (bytes list \<times> stream) option" where
  "read_request malloc_ok cs =
     (case read_full cs 4 of None \<Rightarrow> None
      | Some (b, cs1) \<Rightarrow>
          let argc = get_u32 b in
          if argc = 0 \<or> argc > MAXARGS then None
          else read_args malloc_ok (unat argc) cs1)"

text \<open>
  Second half: the command runs with its stdin on a pipe the loop below feeds. One
  iteration sees the child's status if \<open>waitpid\<close> with \<open>WNOHANG\<close> reaped it, and otherwise the
  outcome of \<open>poll\<close>; \<open>Input wr\<close> is readable data, with \<open>wr\<close> the outcome of the
  \<^verbatim>\<open>write_full\<close> into the pipe: \<open>None\<close> when all of it was written, \<open>Some k\<close> when it failed after \<open>k\<close> bytes. A loop that has used up its iterations is still running.
\<close>

datatype wstatus = Exited u8 | Signaled nat | Stopped

datatype poll_res = PollErr | PollIntr | NoInput | Input "nat option"

record pump =
  pm_in :: stream
  pm_eof :: bool
  pm_open :: bool
  pm_piped :: bytes

datatype pump_end = Running pump | Finished pump "wstatus option"

definition pump_input :: "pump \<Rightarrow> nat option \<Rightarrow> pump" where
  "pump_input s wr =
     (let (buf, cs) = sys_read (pm_in s) 65536; s = s\<lparr>pm_in := cs\<rparr> in
      if buf = [] then s\<lparr>pm_eof := True, pm_open := False\<rparr>
      else if pm_open s then
        (case wr of None \<Rightarrow> s\<lparr>pm_piped := pm_piped s @ buf\<rparr>
         | Some k \<Rightarrow> s\<lparr>pm_piped := pm_piped s @ take k buf, pm_open := False\<rparr>)
      else s)"

fun pump_loop :: "pump \<Rightarrow> (wstatus option \<times> poll_res) list \<Rightarrow> pump_end" where
  "pump_loop s [] = Running s"
| "pump_loop s ((Some st, _) # es) = Finished s (Some st)"
| "pump_loop s ((None, ev) # es) =
     (if pm_eof s then pump_loop s es
      else case ev of
        PollErr \<Rightarrow> Finished s None
      | PollIntr \<Rightarrow> pump_loop s es
      | NoInput \<Rightarrow> pump_loop s es
      | Input wr \<Rightarrow> pump_loop (pump_input s wr) es)"

definition exit_code :: "wstatus \<Rightarrow> u32" where
  "exit_code st = (case st of Exited e \<Rightarrow> ucast e | Signaled n \<Rightarrow> 128 + of_nat n | Stopped \<Rightarrow> 1)"

text \<open>
  The whole of \<^verbatim>\<open>handle_conn\<close>. \<open>pipe_ok\<close> and \<open>fork_ok\<close> are the two system calls; \<open>final\<close> is the
  status of the blocking \<open>waitpid\<close> after the loop, used when the loop did not reap. When
  \<open>fork\<close> fails, \<open>p\<close> is \<open>-1\<close>: in a jail without other children \<open>waitpid(-1, \<dots>)\<close> returns
  \<open>-1 == p\<close> at once and \<open>st\<close> keeps its initial \<open>0\<close>, a normal exit with code 0.
\<close>

datatype conn_end =
    Dropped
  | StillRunning "bytes list" pump
  | Replied "bytes list" pump bytes
  | RepliedNoChild bytes

definition handle_conn ::
    "(nat \<Rightarrow> bool) \<Rightarrow> bool \<Rightarrow> bool \<Rightarrow> stream \<Rightarrow> (wstatus option \<times> poll_res) list \<Rightarrow> wstatus \<Rightarrow> conn_end"
where
  "handle_conn malloc_ok pipe_ok fork_ok cs es final =
     (case read_request malloc_ok cs of None \<Rightarrow> Dropped
      | Some (argv, rest) \<Rightarrow>
          if \<not> pipe_ok then Dropped
          else if \<not> fork_ok then RepliedNoChild (put_u32 (exit_code (Exited 0)))
          else (case pump_loop \<lparr>pm_in = rest, pm_eof = False, pm_open = True, pm_piped = []\<rparr> es of
              Running s \<Rightarrow> StillRunning argv s
            | Finished s st \<Rightarrow>
                let st = (case st of Some st \<Rightarrow> st | None \<Rightarrow> final)
                in Replied argv (s\<lparr>pm_open := False\<rparr>) (put_u32 (exit_code st))))"

text \<open>\<^verbatim>\<open>jail_server\<close>: the connections handled before the supervisor's end goes away.\<close>

datatype 'fd jail_msg = Gone | NoRights | Conn 'fd

fun jail_server :: "'fd jail_msg list \<Rightarrow> 'fd list \<times> bool" where
  "jail_server [] = ([], False)"
| "jail_server (Gone # ms) = ([], True)"
| "jail_server (NoRights # ms) = jail_server ms"
| "jail_server (Conn fd # ms) = (let (fds, dead) = jail_server ms in (fd # fds, dead))"


subsection \<open>The host side\<close>

definition dashdash :: bytes where "dashdash = [45, 45]"

text \<open>\<^verbatim>\<open>av = [SOCK, ("--"), CMD, ARGS...]\<close>; \<open>None\<close> is the usage error with exit code 2.\<close>

fun client_args :: "bytes list \<Rightarrow> (bytes \<times> bytes list) option" where
  "client_args (sock # a # args) =
     (if a = dashdash then (if args = [] then None else Some (sock, args)) else Some (sock, a # args))"
| "client_args _ = None"

text \<open>
  The \<^verbatim>\<open>APPEND\<close> macro: the buffer doubles until the new bytes fit; \<open>None\<close> is the failed
  \<open>realloc\<close>. The buffer is its capacity and its contents.
\<close>

function grow :: "nat \<Rightarrow> nat \<Rightarrow> nat" where
  "grow need cap = (if 0 < cap \<and> cap < need then grow need (2 * cap) else cap)"
  by pat_completeness auto
termination
  by (relation "measure (\<lambda>(need, cap). need - cap)") auto

declare grow.simps [simp del]

definition append_req :: "(nat \<Rightarrow> bool) \<Rightarrow> nat \<times> bytes \<Rightarrow> bytes \<Rightarrow> (nat \<times> bytes) option" where
  "append_req realloc_ok = (\<lambda>(cap, req) p.
     let n = length req + length p in
     if n > cap then (let cap' = grow n cap in if realloc_ok cap' then Some (cap', req @ p) else None)
     else Some (cap, req @ p))"

fun append_args :: "(nat \<Rightarrow> bool) \<Rightarrow> nat \<times> bytes \<Rightarrow> bytes list \<Rightarrow> (nat \<times> bytes) option" where
  "append_args realloc_ok b [] = Some b"
| "append_args realloc_ok b (p # ps) =
     (case append_req realloc_ok b (put_u32 (of_nat (length p))) of None \<Rightarrow> None
      | Some b1 \<Rightarrow> (case append_req realloc_ok b1 p of None \<Rightarrow> None
          | Some b2 \<Rightarrow> append_args realloc_ok b2 ps))"

definition build_request :: "(nat \<Rightarrow> bool) \<Rightarrow> bytes list \<Rightarrow> (nat \<times> bytes) option" where
  "build_request realloc_ok args =
     (case append_req realloc_ok (65536, []) (put_u32 (of_nat (length args))) of None \<Rightarrow> None
      | Some b \<Rightarrow> append_args realloc_ok b args)"

text \<open>
  The duplex phase. The last four bytes of the reply are the exit status, so four bytes are
  held back: \<open>cl_pend\<close> is \<^verbatim>\<open>pend[0..npend)\<close>. One iteration is one \<open>poll\<close>: what the socket
  delivered if it was ready, and what standard input delivered (with the outcome of the
  \<^verbatim>\<open>write_full\<close> to the socket) if that was.
\<close>

record client =
  cl_pend :: bytes
  cl_out :: bytes
  cl_wr_open :: bool
  cl_sent :: bytes

datatype cl_poll = ClErr | ClIntr | ClPoll "bytes option" "(bytes \<times> bool) option"

definition client_reply :: "client \<Rightarrow> bytes \<Rightarrow> client" where
  "client_reply c buf =
     (let npend = length (cl_pend c);
          total = npend + length buf;
          emit = (if total > 4 then total - 4 else 0);
          from_pend = (if emit < npend then emit else npend);
          out = cl_out c @ take from_pend (cl_pend c);
          out = (if emit > from_pend then out @ take (emit - from_pend) buf else out);
          np = map (\<lambda>i. if i < npend then cl_pend c ! i else buf ! (i - npend)) [emit..<total]
      in c\<lparr>cl_out := out, cl_pend := np\<rparr>)"

definition client_stdin :: "client \<Rightarrow> (bytes \<times> bool) option \<Rightarrow> client" where
  "client_stdin c inp =
     (case inp of None \<Rightarrow> c
      | Some (buf, ok) \<Rightarrow>
          if \<not> cl_wr_open c then c
          else if buf = [] \<or> \<not> ok then c\<lparr>cl_wr_open := False\<rparr>
          else c\<lparr>cl_sent := cl_sent c @ buf\<rparr>)"

text \<open>The second component tells whether the loop has been left.\<close>

fun client_loop :: "client \<Rightarrow> cl_poll list \<Rightarrow> client \<times> bool" where
  "client_loop c [] = (c, False)"
| "client_loop c (ClErr # es) = (c, True)"
| "client_loop c (ClIntr # es) = client_loop c es"
| "client_loop c (ClPoll None inp # es) = client_loop (client_stdin c inp) es"
| "client_loop c (ClPoll (Some buf) inp # es) =
     (if buf = [] then (c, True)
      else client_loop (client_stdin (client_reply c buf) inp) es)"

definition client_status :: "client \<Rightarrow> u32" where
  "client_status c = (if length (cl_pend c) \<noteq> 4 then 2 else get_u32 (cl_pend c))"

text \<open>
  \<^verbatim>\<open>client_exec\<close> as a whole: what it printed and the value it returns, \<open>None\<close> while the
  duplex phase still runs. \<open>connect_ok\<close>, \<open>send_ok\<close> are the outcomes of \<open>connect\<close> and of sending
  the request.
\<close>

abbreviation client_init :: client where
  "client_init \<equiv> \<lparr>cl_pend = [], cl_out = [], cl_wr_open = True, cl_sent = []\<rparr>"

definition client_exec ::
    "(nat \<Rightarrow> bool) \<Rightarrow> bool \<Rightarrow> bool \<Rightarrow> bytes list \<Rightarrow> cl_poll list \<Rightarrow> (bytes \<times> u32) option" where
  "client_exec realloc_ok connect_ok send_ok av es =
     (case client_args av of None \<Rightarrow> Some ([], 2)
      | Some (sock, args) \<Rightarrow>
          if \<not> connect_ok then Some ([], 2)
          else case build_request realloc_ok args of None \<Rightarrow> Some ([], 2)
          | Some _ \<Rightarrow>
              if \<not> send_ok then Some ([], 2)
              else let (c, left) = client_loop client_init es
                   in if left then Some (cl_out c, client_status c) else None)"

subsection \<open>Requests survive the wire\<close>

definition wire_request :: "bytes list \<Rightarrow> bytes" where
  "wire_request args =
     put_u32 (of_nat (length args)) @ concat (map (\<lambda>p. put_u32 (of_nat (length p)) @ p) args)"

lemma grow_ge: "0 < cap \<Longrightarrow> need \<le> grow need cap"
proof (induction need cap rule: grow.induct)
  case (1 need cap)
  then show ?case by (subst grow.simps) auto
qed

lemma append_req_Some:
  assumes "append_req ok (cap, req) p = Some (cap', req')" "0 < cap" "length req \<le> cap"
  shows "req' = req @ p" "length req' \<le> cap'" "0 < cap'"
proof -
  have "0 < grow n cap" if "0 < n" for n using grow_ge[OF assms(2), of n] that by simp
  then show "req' = req @ p" "length req' \<le> cap'" "0 < cap'"
    using assms grow_ge[OF assms(2), of "length req + length p"]
    by (auto simp: append_req_def Let_def split: if_splits)
qed

lemma append_args_Some:
  assumes "append_args ok (cap, req) ps = Some (cap', req')" "0 < cap" "length req \<le> cap"
  shows "req' = req @ concat (map (\<lambda>p. put_u32 (of_nat (length p)) @ p) ps) \<and> length req' \<le> cap'"
  using assms
proof (induction ps arbitrary: cap req)
  case Nil
  then show ?case by simp
next
  case (Cons p ps)
  from Cons.prems(1) obtain cap1 req1 cap2 req2 where
    b: "append_req ok (cap, req) (put_u32 (of_nat (length p))) = Some (cap1, req1)"
       "append_req ok (cap1, req1) p = Some (cap2, req2)"
       "append_args ok (cap2, req2) ps = Some (cap', req')"
    by (auto split: option.splits)
  note s1 = append_req_Some[OF b(1) Cons.prems(2,3)]
  note s2 = append_req_Some[OF b(2) s1(3,2)]
  show ?case using Cons.IH[OF b(3) s2(3,2)] s1(1) s2(1) by auto
qed

lemma build_request_Some:
  assumes "build_request ok args = Some (cap, req)"
  shows "req = wire_request args \<and> length req \<le> cap"
proof -
  from assms obtain cap1 req1 where
    b: "append_req ok (65536, []) (put_u32 (of_nat (length args))) = Some (cap1, req1)"
       "append_args ok (cap1, req1) args = Some (cap, req)"
    by (auto simp: build_request_def split: option.splits)
  note s1 = append_req_Some[OF b(1)]
  show ?thesis using append_args_Some[OF b(2)] s1 by (auto simp: wire_request_def)
qed


text \<open>An argument the server accepts, and a request it accepts.\<close>

definition arg_ok :: "bytes \<Rightarrow> bool" where
  "arg_ok p \<longleftrightarrow> p \<noteq> [] \<and> length p \<le> 65536"

definition args_ok :: "bytes list \<Rightarrow> bool" where
  "args_ok args \<longleftrightarrow> args \<noteq> [] \<and> length args \<le> 256 \<and> list_all arg_ok args"

lemma get_put_nat:
  "n < 2 ^ 32 \<Longrightarrow> unat (get_u32 (put_u32 (of_nat n))) = n"
  by (simp add: unat_of_nat_less)

lemma read_args_wire:
  assumes "list_all arg_ok args" "\<forall>n. malloc_ok n" "[] \<notin> set cs"
    "concat cs = concat (map (\<lambda>p. put_u32 (of_nat (length p)) @ p) args) @ ys"
  shows "\<exists>cs'. read_args malloc_ok (length args) cs = Some (args, cs') \<and> concat cs' = ys \<and> [] \<notin> set cs'"
  using assms
proof (induction args arbitrary: cs)
  case Nil
  then show ?case by simp
next
  case (Cons p ps)
  let ?tail = "concat (map (\<lambda>p. put_u32 (of_nat (length p)) @ p) ps) @ ys"
  have p: "p \<noteq> []" "length p \<le> 65536" using Cons.prems(1) by (auto simp: arg_ok_def)
  obtain cs1 where r1: "read_full cs 4 = Some (put_u32 (of_nat (length p)), cs1)"
      "concat cs1 = p @ ?tail" "[] \<notin> set cs1"
    using read_full_Some[OF Cons.prems(3), of "put_u32 (of_nat (length p))" "p @ ?tail" 4]
      Cons.prems(4) by auto
  obtain cs2 where r2: "read_full cs1 (length p) = Some (p, cs2)"
      "concat cs2 = ?tail" "[] \<notin> set cs2"
    using read_full_Some[OF r1(3,2) refl] by auto
  have len: "unat (of_nat (length p) :: u32) = length p" using p by (simp add: unat_of_nat_less)
  have bounds: "(of_nat (length p) :: u32) \<noteq> 0" "\<not> (of_nat (length p) :: u32) > 65536"
    using p len by (auto simp: word_less_nat_alt unat_eq_0[symmetric])
  obtain cs3 where "read_args malloc_ok (length ps) cs2 = Some (ps, cs3)"
      "concat cs3 = ys" "[] \<notin> set cs3"
    using Cons.IH[OF _ Cons.prems(2) r2(3,2)] Cons.prems(1) by auto
  moreover have "malloc_ok (Suc (length p))" using Cons.prems(2) by blast
  ultimately show ?case by (simp add: r1(1) r2(1) bounds len Let_def)
qed

lemma read_request_wire:
  assumes "args_ok args" "\<forall>n. malloc_ok n" "[] \<notin> set cs" "concat cs = wire_request args @ ys"
  shows "\<exists>cs'. read_request malloc_ok cs = Some (args, cs') \<and> concat cs' = ys \<and> [] \<notin> set cs'"
proof -
  have n: "args \<noteq> []" "length args \<le> 256" "list_all arg_ok args" using assms(1) by (auto simp: args_ok_def)
  obtain cs1 where r1: "read_full cs 4 = Some (put_u32 (of_nat (length args)), cs1)"
      "concat cs1 = concat (map (\<lambda>p. put_u32 (of_nat (length p)) @ p) args) @ ys" "[] \<notin> set cs1"
    using read_full_Some[OF assms(3), of "put_u32 (of_nat (length args))" _ 4] assms(4)
    by (auto simp: wire_request_def)
  have len: "unat (of_nat (length args) :: u32) = length args" using n by (simp add: unat_of_nat_less)
  have bounds: "(of_nat (length args) :: u32) \<noteq> 0" "\<not> (of_nat (length args) :: u32) > MAXARGS"
    using n len by (auto simp: word_less_nat_alt unat_eq_0[symmetric])
  show ?thesis
    using read_args_wire[OF n(3) assms(2) r1(3,2)] by (simp add: read_request_def r1(1) bounds len Let_def)
qed

text \<open>C26: whatever the socket does to the chunking, the jail reads exactly the argument vector
  the client encoded, and what it has not read is the client's standard input from its first
  byte on. The client's buffer was large enough at every append.\<close>

theorem request_roundtrip:
  assumes "args_ok args" "\<forall>n. malloc_ok n" "build_request realloc_ok args = Some (cap, req)"
    and "[] \<notin> set cs" "concat cs = req @ stdin"
  shows "length req \<le> cap \<and>
    (\<exists>rest. read_request malloc_ok cs = Some (args, rest) \<and> concat rest = stdin)"
  using read_request_wire[OF assms(1,2,4)] build_request_Some[OF assms(3)] assms(5) by auto

theorem request_roundtrip_witness:
  "\<exists>rest. read_request (\<lambda>_. True) [[1, 0], [0, 0, 2, 0, 0, 0, 108], [115, 7], [8]] = Some ([[108, 115]], rest)
     \<and> concat rest = [7, 8]"
proof -
  have "build_request (\<lambda>_. True) [[108, 115]] = Some (65536, [1, 0, 0, 0, 2, 0, 0, 0, 108, 115])"
    by (simp add: build_request_def append_req_def Let_def put_u32_def)
  from request_roundtrip[OF _ _ this, of "\<lambda>_. True" "[[1, 0], [0, 0, 2, 0, 0, 0, 108], [115, 7], [8]]" "[7, 8]"]
  show ?thesis by (simp add: args_ok_def arg_ok_def)
qed


subsection \<open>Requests the jail refuses\<close>

lemma read_args_empty_arg:
  assumes "[] \<in> set args" "list_all (\<lambda>p. length p < 2 ^ 32) args" "[] \<notin> set cs"
    "concat cs = concat (map (\<lambda>p. put_u32 (of_nat (length p)) @ p) args) @ ys"
  shows "read_args malloc_ok (length args) cs = None"
  using assms
proof (induction args arbitrary: cs)
  case Nil
  then show ?case by simp
next
  case (Cons p ps)
  let ?tail = "concat (map (\<lambda>p. put_u32 (of_nat (length p)) @ p) ps) @ ys"
  obtain cs1 where r1: "read_full cs 4 = Some (put_u32 (of_nat (length p)), cs1)"
      "concat cs1 = p @ ?tail" "[] \<notin> set cs1"
    using read_full_Some[OF Cons.prems(3), of "put_u32 (of_nat (length p))" "p @ ?tail" 4]
      Cons.prems(4) by auto
  show ?case
  proof (cases "p = []")
    case True
    then show ?thesis by (simp add: r1(1))
  next
    case False
    obtain cs2 where r2: "read_full cs1 (length p) = Some (p, cs2)"
        "concat cs2 = ?tail" "[] \<notin> set cs2"
      using read_full_Some[OF r1(3,2) refl] by auto
    have "unat (of_nat (length p) :: u32) = length p"
      using Cons.prems(2) by (simp add: unat_of_nat_less)
    moreover have "read_args malloc_ok (length ps) cs2 = None"
      using Cons.IH[OF _ _ r2(3,2)] Cons.prems(1,2) False by simp
    ultimately show ?thesis by (simp add: r1(1) r2(1) Let_def)
  qed
qed

text \<open>A command with an empty argument never runs. The client encodes it without
  complaint, the jail treats the zero length as a protocol violation and closes the
  connection without an exit status.\<close>

theorem empty_argument_dropped:
  assumes "[] \<in> set args" "length args < 2 ^ 32" "list_all (\<lambda>p. length p < 2 ^ 32) args"
    and "build_request realloc_ok args = Some (cap, req)"
    and "[] \<notin> set cs" "concat cs = req @ stdin"
  shows "handle_conn malloc_ok pipe_ok fork_ok cs es final = Dropped"
proof -
  have req: "req = wire_request args" using build_request_Some[OF assms(4)] by simp
  obtain cs1 where r1: "read_full cs 4 = Some (put_u32 (of_nat (length args)), cs1)"
      "concat cs1 = concat (map (\<lambda>p. put_u32 (of_nat (length p)) @ p) args) @ stdin" "[] \<notin> set cs1"
    using read_full_Some[OF assms(5), of "put_u32 (of_nat (length args))" _ 4] assms(6) req
    by (auto simp: wire_request_def)
  have "unat (of_nat (length args) :: u32) = length args" using assms(2) by (simp add: unat_of_nat_less)
  then have "read_request malloc_ok cs = None"
    using read_args_empty_arg[OF assms(1,3) r1(3,2)] by (simp add: read_request_def r1(1) Let_def)
  then show ?thesis by (simp add: handle_conn_def)
qed

theorem empty_argument_dropped_witness:
  "handle_conn (\<lambda>_. True) True True [[2, 0, 0, 0, 4, 0, 0, 0, 101, 99, 104, 111, 0, 0, 0, 0]] [] (Exited 0) = Dropped"
proof -
  have "build_request (\<lambda>_. True) [[101, 99, 104, 111], []] =
      Some (65536, [2, 0, 0, 0, 4, 0, 0, 0, 101, 99, 104, 111, 0, 0, 0, 0])"
    by (simp add: build_request_def append_req_def Let_def put_u32_def)
  from empty_argument_dropped[OF _ _ _ this, of "[[2, 0, 0, 0, 4, 0, 0, 0, 101, 99, 104, 111, 0, 0, 0, 0]]" "[]"]
  show ?thesis by simp
qed

subsection \<open>Standard input reaches the command\<close>

text \<open>
  Along the loop the bytes in the pipe and the bytes not yet read make up the client's
  input, as long as no write into the pipe has failed.
\<close>

definition pump_inv :: "bytes \<Rightarrow> pump \<Rightarrow> bool" where
  "pump_inv inp s \<longleftrightarrow> prefix (pm_piped s) inp \<and> [] \<notin> set (pm_in s)
     \<and> (pm_open s \<longrightarrow> pm_piped s @ concat (pm_in s) = inp)"

fun pump_of :: "pump_end \<Rightarrow> pump" where
  "pump_of (Running s) = s"
| "pump_of (Finished s st) = s"

lemma sys_read_concat:
  assumes "[] \<notin> set cs" "sys_read cs 65536 = (buf, cs')"
  shows "concat cs = buf @ concat cs'" "[] \<notin> set cs'" "buf = [] \<Longrightarrow> cs = []"
  using assms by (auto simp: sys_read_def split: list.splits if_splits)

lemma pump_input_inv:
  assumes "pump_inv inp s"
  shows "pump_inv inp (pump_input s wr)"
proof -
  obtain buf cs where rd: "sys_read (pm_in s) 65536 = (buf, cs)" by (metis prod.exhaust)
  have "[] \<notin> set (pm_in s)" using assms by (simp add: pump_inv_def)
  note cc = sys_read_concat[OF this rd]
  show ?thesis
  proof (cases wr)
    case None
    then show ?thesis using assms cc by (auto simp: pump_input_def rd pump_inv_def Let_def)
  next
    case (Some k)
    have "prefix (pm_piped s @ take k buf) inp" if "pm_open s"
    proof -
      have "inp = pm_piped s @ buf @ concat cs" using that assms cc(1) by (simp add: pump_inv_def)
      also have "buf = take k buf @ drop k buf" by simp
      finally have "inp = (pm_piped s @ take k buf) @ drop k buf @ concat cs" unfolding append_assoc .
      then show ?thesis by (metis prefixI)
    qed
    then show ?thesis using Some assms cc by (auto simp: pump_input_def rd pump_inv_def Let_def)
  qed
qed

lemma pump_loop_inv: "pump_inv inp s \<Longrightarrow> pump_inv inp (pump_of (pump_loop s es))"
  by (induction s es rule: pump_loop.induct) (auto simp: pump_input_inv split: poll_res.split)

text \<open>The status of the command: the first one \<^verbatim>\<open>waitpid\<close> reports in the loop, or, when the loop ends at a failed \<^verbatim>\<open>poll\<close> before that,
  the one of the blocking \<^verbatim>\<open>waitpid\<close> after the loop.\<close>

definition reaped :: "(wstatus option \<times> poll_res) list \<Rightarrow> wstatus \<Rightarrow> wstatus \<Rightarrow> bool" where
  "reaped es final st \<longleftrightarrow>
     (\<exists>es1 es2. list_all (\<lambda>e. fst e = None) es1 \<and>
        ((\<exists>ev. es = es1 @ (Some st, ev) # es2) \<or> es = es1 @ (None, PollErr) # es2 \<and> st = final))"

lemma reaped_here: "reaped ((Some st, ev) # es) final st" "reaped ((None, PollErr) # es) final final"
  unfolding reaped_def by (rule exI[of _ "[]"], simp)+

lemma reaped_later: "reaped es final st \<Longrightarrow> reaped ((None, ev) # es) final st"
proof -
  assume "reaped es final st"
  then obtain es1 es2 where "list_all (\<lambda>e. fst e = None) es1" "(\<exists>ev. es = es1 @ (Some st, ev) # es2) \<or> es = es1 @ (None, PollErr) # es2 \<and> st = final"
    unfolding reaped_def by blast
  then show ?thesis unfolding reaped_def by (intro exI[of _ "(None, ev) # es1"] exI[of _ es2]) simp
qed

lemma pump_loop_reaped: "pump_loop s es = Finished s' st \<Longrightarrow> reaped es final (case st of Some x \<Rightarrow> x | None \<Rightarrow> final)"
  by (induction s es rule: pump_loop.induct) (auto simp: reaped_here reaped_later split: if_splits poll_res.splits)

subsection \<open>Replies survive the wire\<close>

lemma map_upt_append:
  "map (\<lambda>i. if i < length xs then xs ! i else ys ! (i - length xs)) [e..<length xs + length ys]
     = drop e (xs @ ys)" (is "map ?f [e..<?n] = _")
proof -
  have "map ?f [0..<?n] = xs @ ys" by (rule nth_equalityI) (auto simp: nth_append)
  then have "drop e (map ?f [0..<?n]) = drop e (xs @ ys)" by simp
  then show ?thesis by (simp add: drop_map)
qed

lemma client_reply_spec:
  "cl_out (client_reply c buf) @ cl_pend (client_reply c buf) = cl_out c @ cl_pend c @ buf"
  "length (cl_pend (client_reply c buf)) = min 4 (length (cl_pend c) + length buf)"
  "cl_wr_open (client_reply c buf) = cl_wr_open c" "cl_sent (client_reply c buf) = cl_sent c"
proof -
  define e where "e = (if length (cl_pend c) + length buf > 4 then length (cl_pend c) + length buf - 4 else 0)"
  have out: "cl_out (client_reply c buf) = cl_out c @ take e (cl_pend c @ buf)"
    by (simp add: client_reply_def Let_def e_def)
  have pend: "cl_pend (client_reply c buf) = drop e (cl_pend c @ buf)"
    using map_upt_append[of "cl_pend c" buf e] by (simp add: client_reply_def Let_def e_def)
  show "cl_out (client_reply c buf) @ cl_pend (client_reply c buf) = cl_out c @ cl_pend c @ buf"
    by (simp only: out pend append_assoc append_take_drop_id)
  show "length (cl_pend (client_reply c buf)) = min 4 (length (cl_pend c) + length buf)"
    by (simp only: pend length_drop length_append) (simp add: e_def)
qed (simp_all add: client_reply_def Let_def)

lemma client_stdin_frame [simp]:
  "cl_pend (client_stdin c inp) = cl_pend c" "cl_out (client_stdin c inp) = cl_out c"
  by (auto simp: client_stdin_def split: option.splits)

text \<open>The reply bytes a run of the loop sees, and a run that meets no failure and no end.\<close>

fun reply_data :: "cl_poll list \<Rightarrow> bytes" where
  "reply_data [] = []"
| "reply_data (ClPoll (Some buf) _ # es) = buf @ reply_data es"
| "reply_data (_ # es) = reply_data es"

definition live :: "cl_poll \<Rightarrow> bool" where
  "live e \<longleftrightarrow> e \<noteq> ClErr \<and> (\<forall>inp. e \<noteq> ClPoll (Some []) inp)"

lemma client_loop_reply:
  assumes "list_all live es" "length (cl_pend c) \<le> 4"
  shows "\<exists>c'. client_loop c (es @ [ClPoll (Some []) inp]) = (c', True)
    \<and> cl_out c' @ cl_pend c' = cl_out c @ cl_pend c @ reply_data es
    \<and> length (cl_pend c') = min 4 (length (cl_pend c) + length (reply_data es))"
  using assms
proof (induction c es rule: client_loop.induct)
  case (5 c buf i es)
  let ?d = "client_stdin (client_reply c buf) i"
  have "live (ClPoll (Some buf) i)" "list_all live es" using "5.prems"(1) by simp_all
  then have "buf \<noteq> []" "list_all live es" by (auto simp: live_def)
  moreover have "length (cl_pend ?d) \<le> 4" by (simp add: client_reply_spec)
  ultimately obtain c' where "client_loop ?d (es @ [ClPoll (Some []) inp]) = (c', True)"
      "cl_out c' @ cl_pend c' = cl_out ?d @ cl_pend ?d @ reply_data es"
      "length (cl_pend c') = min 4 (length (cl_pend ?d) + length (reply_data es))"
    using "5.IH" by auto
  then show ?case
    using \<open>buf \<noteq> []\<close> client_reply_spec(1)[of c buf] "5.prems"(2)
    by (auto simp: client_reply_spec(2) append_assoc[symmetric] simp del: append_assoc)
qed (simp_all add: live_def)

lemma client_run_reply:
  assumes "list_all live es" "reply_data es = out @ status" "length status = 4"
  shows "\<exists>c'. client_loop client_init (es @ [ClPoll (Some []) inp]) = (c', True)
    \<and> cl_out c' = out \<and> cl_pend c' = status"
proof -
  obtain c' where c': "client_loop client_init (es @ [ClPoll (Some []) inp]) = (c', True)"
      "cl_out c' @ cl_pend c' = out @ status" "length (cl_pend c') = 4"
    using client_loop_reply[OF assms(1), of client_init inp] assms(2,3) by fastforce
  then show ?thesis using assms(3) by (auto simp: append_eq_append_conv)
qed

text \<open>C29: the client prints exactly the command's output and returns exactly its exit
  status, however the reply is cut into chunks and interleaved with standard input; the
  four status bytes never leak into the output.\<close>

theorem client_exec_reply:
  assumes "client_args av = Some (sock, args)" "build_request realloc_ok args = Some req"
    and "list_all live es" "reply_data es = out @ put_u32 code"
  shows "client_exec realloc_ok True True av (es @ [ClPoll (Some []) inp]) = Some (out, code)"
  using client_run_reply[OF assms(3,4), of inp] assms(1,2)
  by (auto simp: client_exec_def client_status_def)

theorem client_exec_reply_witness:
  "client_exec (\<lambda>_. True) True True [[115], dashdash, [108, 115]]
     ([ClPoll (Some [97]) None, ClIntr, ClPoll (Some [98, 3]) (Some ([1], True)), ClPoll (Some [0, 0, 0]) None]
      @ [ClPoll (Some []) None]) = Some ([97, 98], 3)"
proof -
  have b: "build_request (\<lambda>_. True) [[108, 115]] = Some (65536, [1, 0, 0, 0, 2, 0, 0, 0, 108, 115])"
    by (simp add: build_request_def append_req_def Let_def put_u32_def)
  show ?thesis
    by (rule client_exec_reply[OF _ b, of _ "[115]"]) (simp_all add: live_def put_u32_def dashdash_def)
qed



end
