(* ===== verification/Bpf_Hash.thy ===== *)
theory Bpf_Hash
  imports AC_Prelude
begin

text \<open>
  \<^verbatim>\<open>BPF_MAP_TYPE_HASH\<close> as \<open>bpf(2)\<close> documents it, the store the daemon and its kernel programs
  share: a bounded table with lookup, update (\<open>BPF_ANY\<close>), delete and \<open>get_next_key\<close>. The
  entries are listed in the table's iteration order. Where a new entry lands in that order
  is up to the kernel's hashing, so \<open>bpf_update\<close> takes the position as an argument and every
  theorem holds for all positions. \<open>None\<close> is the error return.
\<close>

record ('k, 'v) bpf_map =
  entries :: "('k \<times> 'v) list"
  max_entries :: nat

definition bpf_lookup :: "('k, 'v) bpf_map \<Rightarrow> 'k \<Rightarrow> 'v option" where
  "bpf_lookup m = map_of (entries m)"

definition bpf_keys :: "('k, 'v) bpf_map \<Rightarrow> 'k list" where
  "bpf_keys m = map fst (entries m)"

definition bpf_update :: "nat \<Rightarrow> ('k, 'v) bpf_map \<Rightarrow> 'k \<Rightarrow> 'v \<Rightarrow> ('k, 'v) bpf_map option" where
  "bpf_update pos m key v =
     (if key \<in> set (bpf_keys m)
      then Some (m\<lparr>entries := map (\<lambda>(x, w). (x, if x = key then v else w)) (entries m)\<rparr>)
      else if length (entries m) \<ge> max_entries m then None
      else Some (m\<lparr>entries := take pos (entries m) @ (key, v) # drop pos (entries m)\<rparr>))"

definition bpf_delete :: "('k, 'v) bpf_map \<Rightarrow> 'k \<Rightarrow> ('k, 'v) bpf_map option" where
  "bpf_delete m key =
     (if key \<in> set (bpf_keys m) then Some (m\<lparr>entries := filter (\<lambda>(x, w). x \<noteq> key) (entries m)\<rparr>)
      else None)"

text \<open>
  \<open>get_next_key\<close>: the key after \<open>key\<close>; the first key when \<open>key\<close> is not in the table. The keys
  of a well-formed table are distinct, so \<open>remdups\<close> changes nothing there and makes every
  walk finite.
\<close>

definition bpf_next_key :: "('k, 'v) bpf_map \<Rightarrow> 'k \<Rightarrow> 'k option" where
  "bpf_next_key m key =
     (let ks = remdups (bpf_keys m);
          after = (if key \<in> set ks then tl (dropWhile (\<lambda>x. x \<noteq> key) ks) else ks)
      in case after of [] \<Rightarrow> None | x # _ \<Rightarrow> Some x)"

definition bpf_wf :: "('k, 'v) bpf_map \<Rightarrow> bool" where
  "bpf_wf m \<longleftrightarrow> distinct (bpf_keys m) \<and> length (entries m) \<le> max_entries m"

definition bpf_empty :: "nat \<Rightarrow> ('k, 'v) bpf_map" where
  "bpf_empty n = \<lparr>entries = [], max_entries = n\<rparr>"

subsection \<open>The contract its clients use\<close>

locale kernel_map =
  fixes wf :: "'m \<Rightarrow> bool"
    and look :: "'m \<Rightarrow> 'k \<Rightarrow> 'v option"
    and upd :: "nat \<Rightarrow> 'm \<Rightarrow> 'k \<Rightarrow> 'v \<Rightarrow> 'm option"
    and del :: "'m \<Rightarrow> 'k \<Rightarrow> 'm option"
  assumes look_upd: "wf m \<Longrightarrow> upd pos m a v = Some m' \<Longrightarrow> look m' = (look m)(a \<mapsto> v)"
    and wf_upd: "wf m \<Longrightarrow> upd pos m a v = Some m' \<Longrightarrow> wf m'"
    and upd_known: "wf m \<Longrightarrow> look m a \<noteq> None \<Longrightarrow> upd pos m a v \<noteq> None"
    and look_del: "wf m \<Longrightarrow> del m a = Some m' \<Longrightarrow> look m' = (look m)(a := None)"
    and wf_del: "wf m \<Longrightarrow> del m a = Some m' \<Longrightarrow> wf m'"
    and del_None: "wf m \<Longrightarrow> del m a = None \<longleftrightarrow> look m a = None"
begin

lemma look_upd_same: "wf m \<Longrightarrow> upd pos m a v = Some m' \<Longrightarrow> look m' a = Some v"
  by (simp add: look_upd)

lemma look_upd_other: "wf m \<Longrightarrow> upd pos m a v = Some m' \<Longrightarrow> b \<noteq> a \<Longrightarrow> look m' b = look m b"
  by (simp add: look_upd)

lemma del_upd:
  "wf m \<Longrightarrow> look m a = None \<Longrightarrow> upd pos m a v = Some m' \<Longrightarrow> \<exists>m''. del m' a = Some m'' \<and> look m'' = look m"
proof -
  assume wf: "wf m" and new: "look m a = None" and u: "upd pos m a v = Some m'"
  have "wf m'" using wf_upd[OF wf u] .
  moreover have "look m' a \<noteq> None" using look_upd[OF wf u] by simp
  ultimately obtain m'' where d: "del m' a = Some m''" using del_None[of m' a] by (cases "del m' a") auto
  have "look m'' = look m"
    using look_del[OF \<open>wf m'\<close> d] look_upd[OF wf u] new by (auto simp: fun_eq_iff)
  with d show ?thesis by blast
qed

end

lemma bpf_keys_lookup: "key \<in> set (bpf_keys m) \<longleftrightarrow> bpf_lookup m key \<noteq> None"
  by (simp add: bpf_keys_def bpf_lookup_def map_of_eq_None_iff)

lemma map_of_insert_mid:
  "a \<notin> fst ` set ys \<Longrightarrow> map_of (ys @ (a, v) # zs) = (map_of (ys @ zs))(a \<mapsto> v)"
  by (induction ys) (auto simp: fun_eq_iff)

lemma map_of_insert_at:
  assumes "a \<notin> fst ` set xs"
  shows "map_of (take n xs @ (a, v) # drop n xs) = (map_of xs)(a \<mapsto> v)"
proof -
  have "a \<notin> fst ` set (take n xs)" using assms set_take_subset[of n xs] by blast
  then have "map_of (take n xs @ (a, v) # drop n xs) = (map_of (take n xs @ drop n xs))(a \<mapsto> v)"
    by (rule map_of_insert_mid)
  then show ?thesis unfolding append_take_drop_id .
qed

lemma set_insert_at: "set (take n xs @ a # drop n xs) = insert a (set xs)"
proof -
  have "set xs = set (take n xs) \<union> set (drop n xs)" unfolding set_append[symmetric] append_take_drop_id ..
  then show ?thesis by simp
qed

lemma map_of_replace_at:
  "map_of (map (\<lambda>(x, w). (x, if x = a then v else w)) xs) b =
     map_option (\<lambda>w. if b = a then v else w) (map_of xs b)"
  by (induction xs) auto

lemma map_of_replace:
  assumes "a \<in> fst ` set xs"
  shows "map_of (map (\<lambda>(x, w). (x, if x = a then v else w)) xs) = (map_of xs)(a \<mapsto> v)"
proof
  fix b
  obtain w where "map_of xs a = Some w" using assms by (metis map_of_eq_None_iff not_Some_eq)
  then show "map_of (map (\<lambda>(x, w). (x, if x = a then v else w)) xs) b = ((map_of xs)(a \<mapsto> v)) b"
    unfolding map_of_replace_at by (cases "map_of xs b") auto
qed

lemma distinct_insert_at:
  "distinct xs \<Longrightarrow> a \<notin> set xs \<Longrightarrow> distinct (take n xs @ a # drop n xs)"
proof -
  assume d: "distinct xs" "a \<notin> set xs"
  then have "distinct (take n xs @ drop n xs)" by simp
  then have "set (take n xs) \<inter> set (drop n xs) = {}" unfolding distinct_append by blast
  with d show ?thesis using set_take_subset[of n xs] set_drop_subset[of n xs] by auto
qed

lemma bpf_update_Some:
  assumes "bpf_wf m" "bpf_update pos m a v = Some m'"
  shows "bpf_lookup m' = (bpf_lookup m)(a \<mapsto> v)" "bpf_wf m'"
    "set (bpf_keys m') = insert a (set (bpf_keys m))" "max_entries m' = max_entries m"
proof -
  have "bpf_lookup m' = (bpf_lookup m)(a \<mapsto> v) \<and> bpf_wf m' \<and>
      set (bpf_keys m') = insert a (set (bpf_keys m)) \<and> max_entries m' = max_entries m"
  proof (cases "a \<in> set (bpf_keys m)")
    case True
    then have m': "m' = m\<lparr>entries := map (\<lambda>(x, w). (x, if x = a then v else w)) (entries m)\<rparr>"
      using assms(2) by (simp add: bpf_update_def)
    have ks: "bpf_keys m' = bpf_keys m" by (simp add: m' bpf_keys_def comp_def case_prod_beta)
    have "a \<in> fst ` set (entries m)" using True by (simp add: bpf_keys_def)
    then have "bpf_lookup m' = (bpf_lookup m)(a \<mapsto> v)"
      unfolding bpf_lookup_def m' using map_of_replace[of a "entries m" v] by simp
    moreover have "length (entries m') = length (entries m)" "max_entries m' = max_entries m"
      by (simp_all add: m')
    ultimately show ?thesis using True assms(1) ks by (simp add: bpf_wf_def insert_absorb)
  next
    case False
    then have m': "m' = m\<lparr>entries := take pos (entries m) @ (a, v) # drop pos (entries m)\<rparr>"
        "length (entries m) < max_entries m"
      using assms(2) by (auto simp: bpf_update_def split: if_splits)
    have ks: "bpf_keys m' = take pos (bpf_keys m) @ a # drop pos (bpf_keys m)"
      by (simp add: m' bpf_keys_def take_map drop_map)
    have "distinct (bpf_keys m')" unfolding ks using assms(1) False by (intro distinct_insert_at) (auto simp: bpf_wf_def)
    moreover have "set (bpf_keys m') = insert a (set (bpf_keys m))"
      unfolding ks by (rule set_insert_at)
    moreover have "bpf_lookup m' = (bpf_lookup m)(a \<mapsto> v)"
      unfolding bpf_lookup_def m'(1) using False map_of_insert_at[of a "entries m" pos v]
      by (simp add: bpf_keys_def)
    ultimately show ?thesis using m' by (simp add: bpf_wf_def)
  qed
  then show "bpf_lookup m' = (bpf_lookup m)(a \<mapsto> v)" "bpf_wf m'"
    "set (bpf_keys m') = insert a (set (bpf_keys m))" "max_entries m' = max_entries m" by simp_all
qed

lemma map_of_filter_ne: "map_of (filter (\<lambda>(x, w). x \<noteq> a) xs) = (map_of xs)(a := None)"
  by (induction xs) (auto simp: fun_eq_iff)

lemma bpf_delete_Some:
  assumes "bpf_wf m" "bpf_delete m a = Some m'"
  shows "bpf_lookup m' = (bpf_lookup m)(a := None)" "bpf_wf m'"
    "bpf_keys m' = filter (\<lambda>x. x \<noteq> a) (bpf_keys m)" "a \<in> set (bpf_keys m)"
proof -
  have m': "m' = m\<lparr>entries := filter (\<lambda>(x, w). x \<noteq> a) (entries m)\<rparr>" and a: "a \<in> set (bpf_keys m)"
    using assms(2) by (auto simp: bpf_delete_def split: if_splits)
  show ks: "bpf_keys m' = filter (\<lambda>x. x \<noteq> a) (bpf_keys m)"
    by (simp add: m' bpf_keys_def filter_map comp_def case_prod_unfold)
  show "bpf_lookup m' = (bpf_lookup m)(a := None)"
    by (simp add: m' bpf_lookup_def map_of_filter_ne)
  show "bpf_wf m'" using assms(1) ks
    by (auto simp: bpf_wf_def m' intro: le_trans[OF length_filter_le])
  show "a \<in> set (bpf_keys m)" by (rule a)
qed

lemma card_keys_delete:
  assumes "bpf_delete m a = Some m'"
  shows "card (set (bpf_keys m')) < card (set (bpf_keys m))"
proof -
  have "set (bpf_keys m') = set (bpf_keys m) - {a}" "a \<in> set (bpf_keys m)"
    using assms by (auto simp: bpf_delete_def bpf_keys_def split: if_splits)
  then show ?thesis by (metis List.finite_set card_Diff1_less)
qed

interpretation hash: kernel_map bpf_wf bpf_lookup bpf_update bpf_delete
proof unfold_locales
  fix m :: "('a, 'b) bpf_map" and a pos v
  assume "bpf_lookup m a \<noteq> None"
  then show "bpf_update pos m a v \<noteq> None" by (simp add: bpf_update_def bpf_keys_lookup)
next
  fix m :: "('a, 'b) bpf_map" and a
  show "(bpf_delete m a = None) = (bpf_lookup m a = None)" by (simp add: bpf_delete_def bpf_keys_lookup)
qed (fact bpf_update_Some(1) bpf_update_Some(2) bpf_delete_Some(1) bpf_delete_Some(2))+

lemma bpf_empty_simps [simp]:
  "bpf_wf (bpf_empty n)" "bpf_lookup (bpf_empty n) a = None" "bpf_keys (bpf_empty n) = []"
  by (simp_all add: bpf_empty_def bpf_wf_def bpf_lookup_def bpf_keys_def)

subsection \<open>Walking a table\<close>

text \<open>\<open>keys_after m key\<close> is what a walk with \<open>get_next_key\<close> from \<open>key\<close> still has to visit.\<close>

definition keys_after :: "('k, 'v) bpf_map \<Rightarrow> 'k \<Rightarrow> 'k list" where
  "keys_after m key =
     (let ks = remdups (bpf_keys m)
      in if key \<in> set ks then tl (dropWhile (\<lambda>x. x \<noteq> key) ks) else ks)"

lemma bpf_next_key_after:
  "bpf_next_key m key = (case keys_after m key of [] \<Rightarrow> None | x # _ \<Rightarrow> Some x)"
  by (simp add: bpf_next_key_def keys_after_def Let_def)

lemma dropWhile_ne_append:
  "x \<notin> set xs \<Longrightarrow> dropWhile (\<lambda>y. y \<noteq> x) (xs @ x # ys) = x # ys"
  by (induction xs) auto

lemma keys_after_split:
  assumes "remdups (bpf_keys m) = pre @ x # ys"
  shows "keys_after m x = ys" "x \<in> set (bpf_keys m)"
proof -
  have "distinct (pre @ x # ys)" using assms by (metis distinct_remdups)
  then show "keys_after m x = ys" using dropWhile_ne_append[of x pre ys] by (simp add: keys_after_def assms)
  show "x \<in> set (bpf_keys m)" using arg_cong[OF assms, of set] by simp
qed

lemma keys_after_known:
  assumes "key \<in> set (bpf_keys m)"
  obtains pre where "remdups (bpf_keys m) = pre @ key # keys_after m key"
proof -
  obtain l r where "remdups (bpf_keys m) = l @ key # r"
    using assms by (metis set_remdups split_list)
  with keys_after_split[OF this] that show thesis by blast
qed

lemma keys_after_step:
  assumes "keys_after m key = x # ys"
  shows "keys_after m x = ys" "x \<in> set (bpf_keys m)"
proof -
  obtain pre where "remdups (bpf_keys m) = pre @ x # ys"
  proof (cases "key \<in> set (bpf_keys m)")
    case True
    then obtain pre where "remdups (bpf_keys m) = pre @ key # keys_after m key" by (rule keys_after_known)
    with assms that[of "pre @ [key]"] show thesis by simp
  next
    case False
    with assms that[of "[]"] show thesis by (simp add: keys_after_def Let_def)
  qed
  then show "keys_after m x = ys" "x \<in> set (bpf_keys m)" by (rule keys_after_split)+
qed

lemma bpf_next_key_shrinks:
  assumes "bpf_next_key m key = Some x"
  shows "length (keys_after m x) < length (keys_after m key)"
proof -
  obtain ys where ys: "keys_after m key = x # ys"
    using assms by (auto simp: bpf_next_key_after split: list.splits)
  show ?thesis unfolding keys_after_step(1)[OF ys] ys by simp
qed

end
