(* ===== verification/Lsm_Policy.thy ===== *)
theory Lsm_Policy
  imports Bpf_Hash Seccomp
begin

text \<open>
  The per-cell file policy: the kernel side (\<^verbatim>\<open>cell_file_open\<close> and the activity probes of
  \<^verbatim>\<open>src/src/agentlsm.bpf.c\<close>) and the daemon operations that edit it (\<^verbatim>\<open>cell_add\<close>, \<^verbatim>\<open>cell_del\<close>,
  \<^verbatim>\<open>cell_clr\<close> and the \<^verbatim>\<open>LIST\<close> walk of \<^verbatim>\<open>src/src/agentlsm.c\<close>). A \<^verbatim>\<open>char[PLEN]\<close> key is zero
  filled before it is written, so it is modelled by the string it holds. What the kernel
  helpers return (the current cgroup, the time, the path, whether the ring buffer has room)
  are arguments.
\<close>

definition PLEN :: nat where "PLEN = 64"
definition ACT_DENY :: u32 where "ACT_DENY = 2"

definition EV_DENY :: nat where "EV_DENY = 1"
definition EV_EXEC :: nat where "EV_EXEC = 2"
definition EV_OPEN :: nat where "EV_OPEN = 3"
definition EV_CONNECT :: nat where "EV_CONNECT = 4"
definition EV_TRIP :: nat where "EV_TRIP = 5"

type_synonym cellkey = "u64 \<times> cstr"

record lsm_maps =
  policy :: "(cstr, u32) bpf_map"
  cells :: "(u64, u32) bpf_map"
  cellpol :: "(cellkey, u32) bpf_map"

definition lsm_maps_init :: lsm_maps where
  "lsm_maps_init = \<lparr>policy = bpf_empty 128, cells = bpf_empty 256, cellpol = bpf_empty 4096\<rparr>"

record evt =
  ev_cgid :: u64
  ev_tgid :: u32
  ev_type :: nat
  ev_nr :: u32
  ev_comm :: cstr
  ev_path :: cstr

text \<open>The configuration the loader writes into the object's read-only data.\<close>

record lsm_rodata =
  target_cgid :: u64
  enforce :: bool
  mode_flat :: bool
  block_until_ns :: u64
  block_cgid :: u64

text \<open>The kernel context a program runs in.\<close>

record bpf_ctx =
  cur_cgid :: u64
  cur_pid_tgid :: u64
  cur_comm :: cstr
  ktime_ns :: u64
  ringbuf_room :: bool

definition cur_tgid :: "bpf_ctx \<Rightarrow> u32" where
  "cur_tgid cx = ucast (drop_bit 32 (cur_pid_tgid cx))"

subsection \<open>The activity probes\<close>

text \<open>\<^verbatim>\<open>bpf_ringbuf_reserve\<close> does not clear the record: \<open>raw\<close> is what its path holds.\<close>

definition mon_reserve :: "lsm_maps \<Rightarrow> bpf_ctx \<Rightarrow> cstr \<Rightarrow> nat \<Rightarrow> u32 \<Rightarrow> evt option" where
  "mon_reserve ms cx raw ty nr =
     (if bpf_lookup (cells ms) (cur_cgid cx) = None then None
      else if \<not> ringbuf_room cx then None
      else Some \<lparr>ev_cgid = cur_cgid cx, ev_tgid = cur_tgid cx, ev_type = ty, ev_nr = nr,
                 ev_comm = cur_comm cx, ev_path = raw\<rparr>)"

definition tp_execve :: "lsm_maps \<Rightarrow> bpf_ctx \<Rightarrow> cstr \<Rightarrow> cstr option \<Rightarrow> evt option" where
  "tp_execve ms cx raw arg0 =
     map_option (\<lambda>e. case arg0 of None \<Rightarrow> e | Some s \<Rightarrow> e\<lparr>ev_path := take 191 s\<rparr>)
       (mon_reserve ms cx raw EV_EXEC 59)"

definition tp_openat :: "lsm_maps \<Rightarrow> bpf_ctx \<Rightarrow> cstr \<Rightarrow> cstr option \<Rightarrow> evt option" where
  "tp_openat ms cx raw arg1 =
     map_option (\<lambda>e. case arg1 of None \<Rightarrow> e | Some s \<Rightarrow> e\<lparr>ev_path := take 191 s\<rparr>)
       (mon_reserve ms cx raw EV_OPEN 257)"

definition tp_connect :: "lsm_maps \<Rightarrow> bpf_ctx \<Rightarrow> cstr \<Rightarrow> cstr option \<Rightarrow> evt option" where
  "tp_connect ms cx raw arg1 =
     map_option (\<lambda>e. case arg1 of None \<Rightarrow> e | Some s \<Rightarrow> e\<lparr>ev_path := take 16 s @ drop 16 raw\<rparr>)
       (mon_reserve ms cx raw EV_CONNECT 42)"

definition trip_nr :: "arch \<Rightarrow> int \<Rightarrow> bool" where
  "trip_nr A nr \<longleftrightarrow> nr \<in> set (AC_TRIP_X A)"

definition tp_sys_exit :: "arch \<Rightarrow> lsm_maps \<Rightarrow> bpf_ctx \<Rightarrow> cstr \<Rightarrow> int \<Rightarrow> int \<Rightarrow> evt option" where
  "tp_sys_exit A ms cx raw nr ret =
     (if \<not> trip_nr A nr then None
      else if ret \<noteq> - uint EPERM \<and> ret \<noteq> - uint ENOSYS then None
      else mon_reserve ms cx raw EV_TRIP (word_of_int nr))"

fun attempt_name :: "ac_sys list \<Rightarrow> u32 \<Rightarrow> cstr" where
  "attempt_name [] nr = ''?''"
| "attempt_name (s # ss) nr = (if word_of_int (sys_nr s) = nr then sys_name s else attempt_name ss nr)"

subsection \<open>The \<^verbatim>\<open>file_open\<close> hook\<close>

text \<open>The longest-match loop: the full path first, then one character less.\<close>

fun longest_match :: "(cstr \<Rightarrow> u32 option) \<Rightarrow> cstr \<Rightarrow> nat \<Rightarrow> u32 option" where
  "longest_match look path 0 = None"
| "longest_match look path (Suc n) =
     (case look (take (Suc n) path) of Some act \<Rightarrow> Some act | None \<Rightarrow> longest_match look path n)"

definition path_len :: "cstr \<Rightarrow> nat" where
  "path_len path = min (PLEN - 1) (length path)"

definition deny_event :: "bpf_ctx \<Rightarrow> cstr \<Rightarrow> evt list" where
  "deny_event cx path =
     (if ringbuf_room cx
      then [\<lparr>ev_cgid = cur_cgid cx, ev_tgid = cur_tgid cx, ev_type = EV_DENY, ev_nr = 0,
             ev_comm = cur_comm cx, ev_path = path\<rparr>]
      else [])"

text \<open>
  The hook returns \<open>0\<close> or \<open>-EPERM\<close> and the events it submitted. \<open>d_path\<close> is the result of
  \<^verbatim>\<open>bpf_d_path\<close> on a \<open>PLEN\<close>-byte buffer, \<open>None\<close> when it fails.
\<close>

definition cell_file_open :: "lsm_rodata \<Rightarrow> lsm_maps \<Rightarrow> bpf_ctx \<Rightarrow> cstr option \<Rightarrow> int \<times> evt list" where
  "cell_file_open ro ms cx d_path =
     (if block_until_ns ro \<noteq> 0 then
        (if ktime_ns cx < block_until_ns ro \<and> (block_cgid ro = 0 \<or> cur_cgid cx = block_cgid ro)
         then (- uint EPERM, []) else (0, []))
      else
        let cgid = cur_cgid cx in
        if bpf_lookup (cells ms) cgid \<noteq> None then
          (case d_path of None \<Rightarrow> (0, [])
           | Some path \<Rightarrow>
               (case longest_match (\<lambda>p. bpf_lookup (cellpol ms) (cgid, p)) path (path_len path) of
                  None \<Rightarrow> (0, [])
                | Some act \<Rightarrow> if act = ACT_DENY then (- uint EPERM, deny_event cx path) else (0, [])))
        else if \<not> mode_flat ro then (0, [])
        else if target_cgid ro \<noteq> 0 \<and> cgid \<noteq> target_cgid ro then (0, [])
        else
          (case d_path of None \<Rightarrow> (0, [])
           | Some path \<Rightarrow>
               (case longest_match (bpf_lookup (policy ms)) path (path_len path) of
                  None \<Rightarrow> (0, [])
                | Some best \<Rightarrow>
                    if best = ACT_DENY
                    then if enforce ro then (- uint EPERM, []) else (0, deny_event cx path)
                    else (0, []))))"

subsection \<open>The daemon's policy operations\<close>

text \<open>\<^verbatim>\<open>snprintf(k.prefix, PLEN, "%s", prefix)\<close>; \<open>i\<close> and \<open>j\<close> are the places the kernel picks for
  new entries.\<close>

definition cell_key :: "u64 \<Rightarrow> cstr \<Rightarrow> cellkey" where
  "cell_key cgid pfx = (cgid, take (PLEN - 1) pfx)"

definition cell_add :: "nat \<Rightarrow> nat \<Rightarrow> lsm_maps \<Rightarrow> u64 \<Rightarrow> cstr \<Rightarrow> int \<times> lsm_maps" where
  "cell_add i j ms cgid pfx =
     (case bpf_update i (cellpol ms) (cell_key cgid pfx) ACT_DENY of
        None \<Rightarrow> (-1, ms)
      | Some pol \<Rightarrow>
          let ms = ms\<lparr>cellpol := pol\<rparr> in
          (case bpf_update j (cells ms) cgid 1 of
             None \<Rightarrow> (-1, ms)
           | Some cs \<Rightarrow> (0, ms\<lparr>cells := cs\<rparr>)))"

definition cell_del :: "lsm_maps \<Rightarrow> u64 \<Rightarrow> cstr \<Rightarrow> int \<times> lsm_maps" where
  "cell_del ms cgid pfx =
     (case bpf_delete (cellpol ms) (cell_key cgid pfx) of
        None \<Rightarrow> (-1, ms) | Some pol \<Rightarrow> (0, ms\<lparr>cellpol := pol\<rparr>))"

text \<open>
  The walk of \<^verbatim>\<open>cell_clr\<close>. A deleted key is gone when the walk asks for its successor, so
  \<open>get_next_key\<close> starts over from the first key.
\<close>

function clr_walk :: "(cellkey, u32) bpf_map \<Rightarrow> u64 \<Rightarrow> cellkey \<Rightarrow> (cellkey, u32) bpf_map" where
  "clr_walk pol cgid cur =
     (case bpf_next_key pol cur of None \<Rightarrow> pol
      | Some nxt \<Rightarrow>
          if fst nxt = cgid then
            (case bpf_delete pol nxt of None \<Rightarrow> clr_walk pol cgid nxt | Some pol' \<Rightarrow> clr_walk pol' cgid nxt)
          else clr_walk pol cgid nxt)"
  by pat_completeness auto
termination
proof (relation "measures [\<lambda>(pol, cgid, cur). card (set (bpf_keys pol)), \<lambda>(pol, cgid, cur). length (keys_after pol cur)]")
qed (simp_all add: bpf_next_key_shrinks card_keys_delete)

declare clr_walk.simps [simp del]

definition cell_clr :: "lsm_maps \<Rightarrow> u64 \<Rightarrow> int \<times> lsm_maps" where
  "cell_clr ms cgid =
     (let ms = ms\<lparr>cellpol := clr_walk (cellpol ms) cgid (0, [])\<rparr> in
      case bpf_delete (cells ms) cgid of None \<Rightarrow> (-1, ms) | Some cs \<Rightarrow> (0, ms\<lparr>cells := cs\<rparr>))"

text \<open>The \<^verbatim>\<open>LIST\<close> walk: the keys in the order they are printed.\<close>

function list_walk :: "(cellkey, u32) bpf_map \<Rightarrow> cellkey \<Rightarrow> cellkey list" where
  "list_walk pol cur =
     (case bpf_next_key pol cur of None \<Rightarrow> [] | Some nxt \<Rightarrow> nxt # list_walk pol nxt)"
  by pat_completeness auto
termination
  by (relation "measure (\<lambda>(pol, cur). length (keys_after pol cur))")
     (simp_all add: bpf_next_key_shrinks)

declare list_walk.simps [simp del]

subsection \<open>The walks\<close>

lemma list_walk_after: "list_walk pol cur = keys_after pol cur"
proof (induction pol cur rule: list_walk.induct)
  case (1 pol cur)
  show ?case
  proof (cases "keys_after pol cur")
    case Nil
    then show ?thesis by (simp add: list_walk.simps bpf_next_key_after)
  next
    case (Cons x ys)
    then have "list_walk pol x = ys" using 1[of x] keys_after_step(1)[OF Cons] by (simp add: bpf_next_key_after)
    with Cons show ?thesis by (simp add: list_walk.simps[of pol cur] bpf_next_key_after)
  qed
qed

lemma keys_after_new: "bpf_wf m \<Longrightarrow> key \<notin> set (bpf_keys m) \<Longrightarrow> keys_after m key = bpf_keys m"
  by (simp add: keys_after_def bpf_wf_def distinct_remdups_id)

definition drop_cell :: "(cellkey, u32) bpf_map \<Rightarrow> u64 \<Rightarrow> (cellkey, u32) bpf_map" where
  "drop_cell pol cgid = pol\<lparr>entries := filter (\<lambda>(key, v). fst key \<noteq> cgid) (entries pol)\<rparr>"

lemma drop_cell_id:
  "\<forall>key \<in> set (bpf_keys pol). fst key \<noteq> cgid \<Longrightarrow> drop_cell pol cgid = pol"
proof -
  assume "\<forall>key \<in> set (bpf_keys pol). fst key \<noteq> cgid"
  then have "filter (\<lambda>(key, v). fst key \<noteq> cgid) (entries pol) = entries pol"
    by (intro filter_True) (force simp: bpf_keys_def)
  then show ?thesis by (simp add: drop_cell_def)
qed

lemma drop_cell_delete:
  assumes "bpf_delete pol (cgid, p) = Some pol'"
  shows "drop_cell pol' cgid = drop_cell pol cgid"
proof -
  have "pol' = pol\<lparr>entries := filter (\<lambda>(x, w). x \<noteq> (cgid, p)) (entries pol)\<rparr>"
    using assms by (simp add: bpf_delete_def split: if_splits)
  moreover have "filter (\<lambda>(key, v). fst key \<noteq> cgid) (filter (\<lambda>(x, w). x \<noteq> (cgid, p)) es) =
      filter (\<lambda>(key, v). fst key \<noteq> cgid) es" for es :: "(cellkey \<times> u32) list"
    by (induction es) auto
  ultimately show ?thesis by (simp add: drop_cell_def)
qed

lemma clr_walk_drops:
  assumes "bpf_wf pol" "\<forall>key \<in> set (bpf_keys pol). fst key = cgid \<longrightarrow> key \<in> set (keys_after pol cur)"
  shows "clr_walk pol cgid cur = drop_cell pol cgid"
  using assms
proof (induction pol cgid cur rule: clr_walk.induct)
  case (1 pol cgid cur)
  show ?case
  proof (cases "keys_after pol cur")
    case Nil
    with "1.prems"(2) have "\<forall>key \<in> set (bpf_keys pol). fst key \<noteq> cgid" by auto
    with Nil show ?thesis by (simp add: clr_walk.simps bpf_next_key_after drop_cell_id)
  next
    case (Cons x ys)
    then have nxt: "bpf_next_key pol cur = Some x" by (simp add: bpf_next_key_after)
    note step = keys_after_step[OF Cons]
    show ?thesis
    proof (cases "fst x = cgid")
      case True
      obtain pol' where del: "bpf_delete pol x = Some pol'" using step(2) by (simp add: bpf_delete_def)
      note d = bpf_delete_Some[OF "1.prems"(1) del]
      have "keys_after pol' x = bpf_keys pol'" using d by (intro keys_after_new) auto
      then have "clr_walk pol' cgid x = drop_cell pol' cgid"
        using "1.IH"(2)[OF nxt True del d(2)] by simp
      moreover have "drop_cell pol' cgid = drop_cell pol cgid"
        using drop_cell_delete[of pol cgid "snd x" pol'] del True by (cases x) simp
      ultimately show ?thesis by (simp add: clr_walk.simps[of pol cgid cur] nxt True del)
    next
      case False
      then have "clr_walk pol cgid x = drop_cell pol cgid"
        using "1.IH"(3)[OF nxt False "1.prems"(1)] "1.prems"(2) step(1) Cons by auto
      with False show ?thesis by (simp add: clr_walk.simps[of pol cgid cur] nxt)
    qed
  qed
qed

subsection \<open>What the hook decides\<close>

lemma longest_match_None:
  "longest_match look path n = None \<longleftrightarrow> (\<forall>i. 0 < i \<and> i \<le> n \<longrightarrow> look (take i path) = None)"
  by (induction n) (auto simp: le_Suc_eq split: option.splits)

lemma longest_match_Some:
  assumes "longest_match look path n = Some act"
  shows "\<exists>i. 0 < i \<and> i \<le> n \<and> look (take i path) = Some act \<and>
          (\<forall>j. i < j \<and> j \<le> n \<longrightarrow> look (take j path) = None)"
  using assms
proof (induction n)
  case (Suc n)
  show ?case
  proof (cases "look (take (Suc n) path)")
    case None
    with Suc obtain i where "0 < i" "i \<le> n" "look (take i path) = Some act"
        "\<forall>j. i < j \<and> j \<le> n \<longrightarrow> look (take j path) = None" by auto
    with None show ?thesis by (intro exI[of _ i]) (auto simp: le_Suc_eq)
  next
    case (Some b)
    with Suc.prems show ?thesis by (intro exI[of _ "Suc n"]) auto
  qed
qed simp

text \<open>The rules of a cell, and the policy the maps stand for.\<close>

definition rules_of :: "lsm_maps \<Rightarrow> u64 \<Rightarrow> cstr set" where
  "rules_of ms cgid = {p. bpf_lookup (cellpol ms) (cgid, p) \<noteq> None}"

definition registered :: "lsm_maps \<Rightarrow> u64 set" where
  "registered ms = dom (bpf_lookup (cells ms))"

definition lsm_inv :: "lsm_maps \<Rightarrow> bool" where
  "lsm_inv ms \<longleftrightarrow> bpf_wf (cells ms) \<and> bpf_wf (cellpol ms) \<and>
     (\<forall>c p act. bpf_lookup (cellpol ms) (c, p) = Some act \<longrightarrow> p \<noteq> [] \<and> act = ACT_DENY)"

lemma lsm_inv_init: "lsm_inv lsm_maps_init"
  by (simp add: lsm_inv_def lsm_maps_init_def)

lemma cell_match:
  assumes inv: "lsm_inv ms" and short: "length path < PLEN"
  shows "longest_match (\<lambda>p. bpf_lookup (cellpol ms) (c, p)) path (path_len path) =
     (if \<exists>p \<in> rules_of ms c. prefix p path then Some ACT_DENY else None)"
proof -
  let ?look = "\<lambda>p. bpf_lookup (cellpol ms) (c, p)"
  have len: "path_len path = length path" using short by (simp add: path_len_def)
  show ?thesis
  proof (cases "longest_match ?look path (length path)")
    case None
    have False if p: "p \<in> rules_of ms c" "prefix p path" for p
    proof -
      have "0 < length p" "length p \<le> length path" "take (length p) path = p"
        using that inv by (auto simp: rules_of_def lsm_inv_def prefix_def)
      with None[unfolded longest_match_None] p show False by (fastforce simp: rules_of_def)
    qed
    with None len show ?thesis by auto
  next
    case (Some act)
    then obtain i where i: "i \<le> length path" "?look (take i path) = Some act"
      using longest_match_Some by blast
    then have "act = ACT_DENY" "take i path \<in> rules_of ms c"
      using inv by (auto simp: lsm_inv_def rules_of_def)
    moreover have "prefix (take i path) path" by (rule take_is_prefix)
    ultimately show ?thesis using Some len by auto
  qed
qed

lemma cell_file_open_serve:
  assumes "lsm_inv ms" "length path < PLEN" "block_until_ns ro = 0" "\<not> mode_flat ro"
  shows "cell_file_open ro ms cx (Some path) =
     (if cur_cgid cx \<in> registered ms \<and> (\<exists>p \<in> rules_of ms (cur_cgid cx). prefix p path)
      then (- uint EPERM, deny_event cx path) else (0, []))"
  using assms by (auto simp: cell_file_open_def cell_match Let_def registered_def)

subsection \<open>The operations on the policy\<close>

lemma rules_of_cellpol [simp]: "rules_of (ms\<lparr>cells := cs\<rparr>) c = rules_of ms c"
  by (simp add: rules_of_def)

lemma registered_cells [simp]: "registered (ms\<lparr>cellpol := pol\<rparr>) = registered ms"
  by (simp add: registered_def)

lemma cell_add_pol:
  assumes "lsm_inv ms" "p \<noteq> []" "bpf_update i (cellpol ms) (cell_key c p) ACT_DENY = Some pol"
  shows "lsm_inv (ms\<lparr>cellpol := pol\<rparr>)"
    "rules_of (ms\<lparr>cellpol := pol\<rparr>) = (rules_of ms)(c := insert (take (PLEN - 1) p) (rules_of ms c))"
proof -
  have wf: "bpf_wf (cellpol ms)" using assms(1) by (simp add: lsm_inv_def)
  note u = bpf_update_Some[OF wf assms(3)]
  show "lsm_inv (ms\<lparr>cellpol := pol\<rparr>)"
    using assms(1,2) u(1,2) by (auto simp: lsm_inv_def cell_key_def PLEN_def)
  show "rules_of (ms\<lparr>cellpol := pol\<rparr>) = (rules_of ms)(c := insert (take (PLEN - 1) p) (rules_of ms c))"
    using u(1) by (auto simp: rules_of_def cell_key_def fun_eq_iff)
qed

lemma cells_upd:
  assumes "lsm_inv ms" "bpf_update j (cells ms) c 1 = Some cs"
  shows "lsm_inv (ms\<lparr>cells := cs\<rparr>)" "registered (ms\<lparr>cells := cs\<rparr>) = insert c (registered ms)"
proof -
  have wf: "bpf_wf (cells ms)" using assms(1) by (simp add: lsm_inv_def)
  note u = bpf_update_Some[OF wf assms(2)]
  show "lsm_inv (ms\<lparr>cells := cs\<rparr>)" "registered (ms\<lparr>cells := cs\<rparr>) = insert c (registered ms)"
    using assms(1) u(1,2) by (auto simp: lsm_inv_def registered_def)
qed

lemma cell_add_ok:
  assumes "lsm_inv ms" "p \<noteq> []" "cell_add i j ms c p = (0, ms')"
  shows "lsm_inv ms'" "registered ms' = insert c (registered ms)"
    "rules_of ms' = (rules_of ms)(c := insert (take (PLEN - 1) p) (rules_of ms c))"
proof -
  obtain pol cs where pol: "bpf_update i (cellpol ms) (cell_key c p) ACT_DENY = Some pol"
      and cs: "bpf_update j (cells (ms\<lparr>cellpol := pol\<rparr>)) c 1 = Some cs"
      and ms': "ms' = ms\<lparr>cellpol := pol\<rparr>\<lparr>cells := cs\<rparr>"
    using assms(3) by (auto simp: cell_add_def Let_def split: option.splits)
  note a = cell_add_pol[OF assms(1,2) pol]
  note b = cells_upd[OF a(1) cs]
  show "lsm_inv ms'" "registered ms' = insert c (registered ms)"
    "rules_of ms' = (rules_of ms)(c := insert (take (PLEN - 1) p) (rules_of ms c))"
    using a b unfolding ms' by (auto simp: fun_eq_iff rules_of_def registered_def)
qed

lemma cell_del_ok:
  assumes "lsm_inv ms" "cell_del ms c p = (rc, ms')"
  shows "lsm_inv ms'" "registered ms' = registered ms"
    "rules_of ms' = (rules_of ms)(c := rules_of ms c - {take (PLEN - 1) p})"
    "rc = 0 \<longleftrightarrow> take (PLEN - 1) p \<in> rules_of ms c"
proof -
  have wf: "bpf_wf (cellpol ms)" using assms(1) by (simp add: lsm_inv_def)
  have "lsm_inv ms' \<and> registered ms' = registered ms \<and>
    rules_of ms' = (rules_of ms)(c := rules_of ms c - {take (PLEN - 1) p}) \<and>
    (rc = 0 \<longleftrightarrow> take (PLEN - 1) p \<in> rules_of ms c)"
  proof (cases "bpf_delete (cellpol ms) (cell_key c p)")
    case None
    then have "take (PLEN - 1) p \<notin> rules_of ms c"
      using hash.del_None[OF wf] by (simp add: rules_of_def cell_key_def)
    with None assms show ?thesis by (auto simp: cell_del_def fun_eq_iff)
  next
    case (Some pol)
    note d = bpf_delete_Some[OF wf Some]
    have "take (PLEN - 1) p \<in> rules_of ms c"
      using d(4) by (simp add: rules_of_def cell_key_def bpf_keys_lookup)
    moreover have "ms' = ms\<lparr>cellpol := pol\<rparr>" "rc = 0" using assms(2) Some by (simp_all add: cell_del_def)
    ultimately show ?thesis using assms(1) d(1,2)
      by (auto simp: lsm_inv_def rules_of_def cell_key_def fun_eq_iff registered_def)
  qed
  then show "lsm_inv ms'" "registered ms' = registered ms"
    "rules_of ms' = (rules_of ms)(c := rules_of ms c - {take (PLEN - 1) p})"
    "rc = 0 \<longleftrightarrow> take (PLEN - 1) p \<in> rules_of ms c" by blast+
qed

lemma bpf_lookup_drop_cell:
  "bpf_lookup (drop_cell pol cgid) (c, p) = (if c = cgid then None else bpf_lookup pol (c, p))"
proof -
  have "map_of (filter (\<lambda>(key, v). fst key \<noteq> cgid) es) (c, p) =
      (if c = cgid then None else map_of es (c, p))" for es :: "(cellkey \<times> u32) list"
    by (induction es) auto
  then show ?thesis by (simp add: bpf_lookup_def drop_cell_def)
qed

lemma bpf_wf_drop_cell: "bpf_wf pol \<Longrightarrow> bpf_wf (drop_cell pol cgid)"
  by (auto simp: bpf_wf_def drop_cell_def bpf_keys_def distinct_map_filter
      intro: le_trans[OF length_filter_le])

lemma cell_clr_ok:
  assumes "lsm_inv ms" "cell_clr ms c = (rc, ms')"
  shows "lsm_inv ms'" "registered ms' = registered ms - {c}" "rules_of ms' = (rules_of ms)(c := {})"
    "rc = 0 \<longleftrightarrow> c \<in> registered ms"
proof -
  let ?ms = "ms\<lparr>cellpol := drop_cell (cellpol ms) c\<rparr>"
  have wf: "bpf_wf (cellpol ms)" and cwf: "bpf_wf (cells ms)" using assms(1) by (simp_all add: lsm_inv_def)
  have "(0, []) \<notin> set (bpf_keys (cellpol ms))"
    using assms(1) by (cases "bpf_lookup (cellpol ms) (0, [])") (auto simp: bpf_keys_lookup lsm_inv_def)
  then have walk: "clr_walk (cellpol ms) c (0, []) = drop_cell (cellpol ms) c"
    using clr_walk_drops[OF wf] keys_after_new[OF wf] by simp
  have inv: "lsm_inv ?ms"
    using assms(1) bpf_wf_drop_cell[OF wf, of c] by (auto simp: lsm_inv_def bpf_lookup_drop_cell split: if_splits)
  have rules: "rules_of ?ms = (rules_of ms)(c := {})"
    by (auto simp: rules_of_def bpf_lookup_drop_cell fun_eq_iff)
  have "lsm_inv ms' \<and> registered ms' = registered ms - {c} \<and> rules_of ms' = (rules_of ms)(c := {}) \<and>
    (rc = 0 \<longleftrightarrow> c \<in> registered ms)"
  proof (cases "bpf_delete (cells ms) c")
    case None
    then have "c \<notin> registered ms" using hash.del_None[OF cwf] by (auto simp: registered_def)
    moreover have "ms' = ?ms" "rc = -1" using assms(2) None by (simp_all add: cell_clr_def walk)
    ultimately show ?thesis using inv rules by simp
  next
    case (Some cs)
    note d = bpf_delete_Some[OF cwf Some]
    have ms': "ms' = ?ms\<lparr>cells := cs\<rparr>" "rc = 0" using assms(2) Some by (simp_all add: cell_clr_def walk)
    have "c \<in> registered ms" using d(4) by (auto simp: registered_def bpf_keys_lookup)
    moreover have "rules_of ms' = (rules_of ms)(c := {})" using rules by (simp add: ms' fun_eq_iff)
    moreover have "registered ms' = registered ms - {c}" using d(1) by (auto simp: registered_def ms' split: if_splits)
    moreover have "lsm_inv ms'" using inv d(2) by (simp add: lsm_inv_def ms')
    ultimately show ?thesis using ms' by blast
  qed
  then show "lsm_inv ms'" "registered ms' = registered ms - {c}" "rules_of ms' = (rules_of ms)(c := {})"
    "rc = 0 \<longleftrightarrow> c \<in> registered ms" by blast+
qed

subsection \<open>Sessions of the daemon against the abstract policy\<close>

datatype lsm_op = LsmAdd nat nat u64 cstr | LsmDel u64 cstr | LsmClr u64

fun lsm_step :: "lsm_maps \<Rightarrow> lsm_op \<Rightarrow> int \<times> lsm_maps" where
  "lsm_step ms (LsmAdd i j c p) = cell_add i j ms c p"
| "lsm_step ms (LsmDel c p) = cell_del ms c p"
| "lsm_step ms (LsmClr c) = cell_clr ms c"

text \<open>A session: \<open>None\<close> as soon as an \<^verbatim>\<open>ADD\<close> is answered with an error.\<close>

fun lsm_run :: "lsm_maps \<Rightarrow> lsm_op list \<Rightarrow> lsm_maps option" where
  "lsm_run ms [] = Some ms"
| "lsm_run ms (oper # ops) =
     (let (rc, ms') = lsm_step ms oper in
      case oper of
        LsmAdd i j c p \<Rightarrow> if rc = 0 then lsm_run ms' ops else None
      | _ \<Rightarrow> lsm_run ms' ops)"

text \<open>The abstract policy: the enforced cells and, for each cell, its denied prefixes.\<close>

type_synonym cell_policy = "u64 set \<times> (u64 \<Rightarrow> cstr set)"

fun policy_step :: "cell_policy \<Rightarrow> lsm_op \<Rightarrow> cell_policy" where
  "policy_step (reg, pol) (LsmAdd i j c p) = (insert c reg, pol(c := insert (take (PLEN - 1) p) (pol c)))"
| "policy_step (reg, pol) (LsmDel c p) = (reg, pol(c := pol c - {take (PLEN - 1) p}))"
| "policy_step (reg, pol) (LsmClr c) = (reg - {c}, pol(c := {}))"

definition policy_denies :: "cell_policy \<Rightarrow> u64 \<Rightarrow> cstr \<Rightarrow> bool" where
  "policy_denies P c path \<longleftrightarrow> c \<in> fst P \<and> (\<exists>p \<in> snd P c. prefix p path)"

definition lsm_abs :: "lsm_maps \<Rightarrow> cell_policy" where
  "lsm_abs ms = (registered ms, rules_of ms)"

fun op_prefix_ok :: "lsm_op \<Rightarrow> bool" where
  "op_prefix_ok (LsmAdd i j c p) = (p \<noteq> [])"
| "op_prefix_ok _ = True"

lemma lsm_step_refines:
  assumes "lsm_inv ms" "op_prefix_ok oper" "lsm_step ms oper = (rc, ms')"
    "\<And>i j c p. oper = LsmAdd i j c p \<Longrightarrow> rc = 0"
  shows "lsm_inv ms' \<and> lsm_abs ms' = policy_step (lsm_abs ms) oper"
proof (cases oper)
  case (LsmAdd i j c p)
  with assms have "p \<noteq> []" "cell_add i j ms c p = (0, ms')" by auto
  from cell_add_ok[OF assms(1) this] show ?thesis by (simp add: LsmAdd lsm_abs_def)
next
  case (LsmDel c p)
  with assms have "cell_del ms c p = (rc, ms')" by auto
  from cell_del_ok[OF assms(1) this] show ?thesis by (simp add: LsmDel lsm_abs_def)
next
  case (LsmClr c)
  with assms have "cell_clr ms c = (rc, ms')" by auto
  from cell_clr_ok[OF assms(1) this] show ?thesis by (simp add: LsmClr lsm_abs_def)
qed

lemma lsm_run_refines:
  assumes "lsm_inv ms" "list_all op_prefix_ok ops" "lsm_run ms ops = Some ms'"
  shows "lsm_inv ms' \<and> lsm_abs ms' = foldl policy_step (lsm_abs ms) ops"
  using assms
proof (induction ops arbitrary: ms)
  case (Cons oper ops)
  obtain rc ms1 where st: "lsm_step ms oper = (rc, ms1)" by (cases "lsm_step ms oper")
  have run: "lsm_run ms1 ops = Some ms'" and "\<And>i j c p. oper = LsmAdd i j c p \<Longrightarrow> rc = 0"
    using Cons.prems(3) st by (auto split: lsm_op.splits if_splits)
  with lsm_step_refines[OF Cons.prems(1) _ st] Cons.prems(2)
  have "lsm_inv ms1 \<and> lsm_abs ms1 = policy_step (lsm_abs ms) oper" by simp
  with Cons.IH[of ms1] run Cons.prems(2) show ?case by simp
qed simp

text \<open>C6: the per-cell file policy is enforced. After any session of \<^verbatim>\<open>ADD\<close>, \<^verbatim>\<open>DEL\<close> and \<^verbatim>\<open>CLR\<close> requests in which every \<^verbatim>\<open>ADD\<close>
  succeeded and none has an empty prefix (\<open>op_prefix_ok\<close>), wherever the kernel places the entries, an open by a process of
  cell \<open>c\<close> of a path of fewer than 64 characters is refused with \<open>-EPERM\<close>, and reported if the ring buffer has room, exactly
  when the abstract policy denies it; every other such open goes through, and no other cell is affected. The hook is the one of the daemon's
  serving mode (not the flat mode, no timed block).\<close>

theorem policy_session_enforced:
  assumes "lsm_run lsm_maps_init ops = Some ms" "list_all op_prefix_ok ops"
    "length path < PLEN" "block_until_ns ro = 0" "\<not> mode_flat ro"
  shows "cell_file_open ro ms cx (Some path) =
     (if policy_denies (foldl policy_step ({}, \<lambda>_. {}) ops) (cur_cgid cx) path
      then (- uint EPERM, deny_event cx path) else (0, []))"
proof -
  have init: "lsm_abs lsm_maps_init = ({}, \<lambda>_. {})"
    by (simp add: lsm_abs_def registered_def rules_of_def lsm_maps_init_def dom_def fun_eq_iff)
  have inv: "lsm_inv ms" and abs: "foldl policy_step ({}, \<lambda>_. {}) ops = lsm_abs ms"
    using lsm_run_refines[OF lsm_inv_init assms(2,1)] init by simp_all
  show ?thesis
    unfolding abs using cell_file_open_serve[OF inv assms(3-5)] by (simp add: policy_denies_def lsm_abs_def)
qed

definition demo_ctx :: "u64 \<Rightarrow> bpf_ctx" where
  "demo_ctx c = \<lparr>cur_cgid = c, cur_pid_tgid = 42 * 2 ^ 32, cur_comm = ''cat'', ktime_ns = 0, ringbuf_room = True\<rparr>"

definition serve_rodata :: lsm_rodata where
  "serve_rodata = \<lparr>target_cgid = 0, enforce = False, mode_flat = False, block_until_ns = 0, block_cgid = 0\<rparr>"

lemmas lsm_eval = lsm_maps_init_def cell_add_def cell_key_def PLEN_def bpf_update_def bpf_empty_def
  bpf_keys_def Let_def cell_del_def bpf_delete_def

theorem policy_session_enforced_witness:
  "\<exists>ms. lsm_run lsm_maps_init [LsmAdd 0 0 7 ''/etc'', LsmAdd 0 5 7 ''/home'', LsmDel 7 ''/etc''] = Some ms
     \<and> fst (cell_file_open serve_rodata ms (demo_ctx 7) (Some ''/home/x'')) = - 1
     \<and> fst (cell_file_open serve_rodata ms (demo_ctx 7) (Some ''/etc/x'')) = 0
     \<and> fst (cell_file_open serve_rodata ms (demo_ctx 8) (Some ''/home/x'')) = 0"
proof -
  let ?ops = "[LsmAdd 0 0 7 ''/etc'', LsmAdd 0 5 7 ''/home'', LsmDel 7 ''/etc'']"
  obtain ms where ms: "lsm_run lsm_maps_init ?ops = Some ms" by (simp add: lsm_eval)
  have ok: "list_all op_prefix_ok ?ops" by simp
  have rules: "{''/home'', ''/etc''} - {''/etc''} = {''/home''}" by auto
  show ?thesis
    using policy_session_enforced[OF ms ok, of "''/home/x''" serve_rodata "demo_ctx 7"]
      policy_session_enforced[OF ms ok, of "''/etc/x''" serve_rodata "demo_ctx 7"]
      policy_session_enforced[OF ms ok, of "''/home/x''" serve_rodata "demo_ctx 8"] ms
    by (simp add: PLEN_def serve_rodata_def demo_ctx_def policy_denies_def EPERM_def rules)
qed

text \<open>
  \<^verbatim>\<open>bpf_d_path\<close>, as its documentation has it: the path with its terminator when the buffer
  holds it, an error otherwise.
\<close>

definition d_path_documented :: "(nat \<Rightarrow> cstr \<Rightarrow> cstr option) \<Rightarrow> bool" where
  "d_path_documented d_path \<longleftrightarrow> (\<forall>size path. d_path size path = (if length path < size then Some path else None))"

text \<open>C40: a deny rule does not reach long paths. The hook gives \<^verbatim>\<open>bpf_d_path\<close> a buffer of
  \<^verbatim>\<open>PLEN\<close> bytes and allows the open when that fails, so every path of 64 or more characters
  opens, below a denied prefix too.\<close>

theorem long_path_not_denied:
  assumes "d_path_documented d_path" "PLEN \<le> length path" "block_until_ns ro = 0"
  shows "cell_file_open ro ms cx (d_path PLEN path) = (0, [])"
  using assms by (auto simp: d_path_documented_def cell_file_open_def Let_def)

theorem long_path_not_denied_witness:
  "\<exists>ms. cell_add 0 0 lsm_maps_init 7 ''/etc'' = (0, ms) \<and>
     cell_file_open serve_rodata ms (demo_ctx 7) ((\<lambda>n p. if length p < n then Some p else None) PLEN (''/etc/'' @ replicate 60 CHR ''a'')) = (0, [])"
proof -
  obtain ms where ms: "cell_add 0 0 lsm_maps_init 7 ''/etc'' = (0, ms)" by (simp add: lsm_eval)
  moreover have "cell_file_open serve_rodata ms (demo_ctx 7) ((\<lambda>n p. if length p < n then Some p else None) PLEN (''/etc/'' @ replicate 60 CHR ''a'')) = (0, [])"
    by (rule long_path_not_denied) (simp_all add: d_path_documented_def PLEN_def serve_rodata_def)
  ultimately show ?thesis by blast
qed

text \<open>When \<^verbatim>\<open>cells\<close> is full, \<^verbatim>\<open>ADD\<close> for a new cell answers an error but its rule stays in
  \<^verbatim>\<open>cellpol\<close>, where it takes room and is listed, although the hook does not enforce it.\<close>

theorem failed_add_leaves_rule:
  assumes "lsm_inv ms" "p \<noteq> []" "c \<notin> registered ms"
    "length (entries (cells ms)) = max_entries (cells ms)"
    "length (entries (cellpol ms)) < max_entries (cellpol ms)"
  shows "\<exists>ms'. cell_add i j ms c p = (-1, ms') \<and> take (PLEN - 1) p \<in> rules_of ms' c \<and> c \<notin> registered ms'"
proof -
  have "bpf_update i (cellpol ms) (cell_key c p) ACT_DENY \<noteq> None"
    using assms(5) by (simp add: bpf_update_def)
  then obtain pol where pol: "bpf_update i (cellpol ms) (cell_key c p) ACT_DENY = Some pol" by blast
  have "c \<notin> set (bpf_keys (cells ms))" using assms(3) by (auto simp: registered_def bpf_keys_lookup)
  then have "bpf_update j (cells ms) c 1 = None" using assms(4) by (simp add: bpf_update_def)
  then have "cell_add i j ms c p = (-1, ms\<lparr>cellpol := pol\<rparr>)" by (simp add: cell_add_def pol)
  with cell_add_pol(2)[OF assms(1,2) pol] assms(3) show ?thesis by simp
qed

theorem failed_add_leaves_rule_witness:
  "\<exists>ms'. cell_add 0 0 (lsm_maps_init\<lparr>cells := bpf_empty 0\<rparr>) 7 ''/etc'' = (-1, ms') \<and>
     take (PLEN - 1) ''/etc'' \<in> rules_of ms' 7 \<and> 7 \<notin> registered ms'"
  by (rule failed_add_leaves_rule)
     (auto simp: lsm_inv_def lsm_maps_init_def registered_def bpf_empty_def bpf_wf_def bpf_keys_def bpf_lookup_def)

subsection \<open>Escape attempts\<close>

lemma trip_in_table:
  "set (AC_TRIP_X x86_64) \<subseteq> insert (AC_SYS_clone3 x86_64) (set (map sys_nr (AC_SYSCALL_TAB x86_64)))"
  "set (AC_TRIP_X aarch64) \<subseteq> insert (AC_SYS_clone3 aarch64) (set (map sys_nr (AC_SYSCALL_TAB aarch64)))"
  by (simp_all add: arch_tables_defs)

lemma trip_spec:
  assumes "A = x86_64 \<or> A = aarch64" "sd_arch d = AC_AUDIT_ARCH A" "uint (sd_nr d) \<in> set (AC_TRIP_X A)"
  shows "seccomp_spec A False d = (if uint (sd_nr d) = AC_SYS_clone3 A then DENY_ENOSYS else DENY_EPERM)"
proof -
  have "wf_arch A" using assms(1) wf_x86_64 wf_aarch64 by blast
  moreover have "uint (sd_nr d) = AC_SYS_clone3 A \<or> uint (sd_nr d) \<in> set (map sys_nr (AC_SYSCALL_TAB A))"
    using assms(1,3) trip_in_table by blast
  ultimately show ?thesis using assms(2) by (auto simp: seccomp_spec_def Let_def wf_arch_def)
qed

text \<open>C32: the filter and the probe agree on escape attempts. On both architectures every probed call, made with the architecture's
  own numbering, is refused by the filter that is installed without \<^verbatim>\<open>--ask\<close>, with an \<open>errno\<close> (\<^verbatim>\<open>EPERM\<close> or \<^verbatim>\<open>ENOSYS\<close>) that the exit
  probe recognises, so that the attempt produces a \<^verbatim>\<open>TRIP\<close> event carrying its cell and number, provided the cell is
  registered with the daemon and the ring buffer has room. With \<^verbatim>\<open>--ask\<close> the filter parks the call instead.\<close>

theorem trip_reported:
  assumes "A = x86_64 \<or> A = aarch64" "sd_arch d = AC_AUDIT_ARCH A" "length (sd_args d) = 6"
    "uint (sd_nr d) \<in> set (AC_TRIP_X A)" "cur_cgid cx \<in> registered ms" "ringbuf_room cx"
  shows "\<exists>e. bpf_run (seccomp_program A False) 0 d = Some (SECCOMP_RET_ERRNO OR e) \<and> (e = EPERM \<or> e = ENOSYS) \<and>
     tp_sys_exit A ms cx raw (uint (sd_nr d)) (- uint e) =
       Some \<lparr>ev_cgid = cur_cgid cx, ev_tgid = cur_tgid cx, ev_type = EV_TRIP, ev_nr = sd_nr d,
             ev_comm = cur_comm cx, ev_path = raw\<rparr>"
proof -
  have "wf_arch A" using assms(1) wf_x86_64 wf_aarch64 by blast
  note dec = seccomp_program_decides[OF this assms(3), of False]
  define e where "e = (if uint (sd_nr d) = AC_SYS_clone3 A then ENOSYS else EPERM)"
  have "seccomp_spec A False d = SECCOMP_RET_ERRNO OR e"
    unfolding trip_spec[OF assms(1,2,4)]
    by (simp add: e_def DENY_ENOSYS_def DENY_EPERM_def ENOSYS_def EPERM_def SECCOMP_RET_DATA_def)
  moreover have "e = EPERM \<or> e = ENOSYS" by (simp add: e_def)
  moreover have "bpf_lookup (cells ms) (cur_cgid cx) \<noteq> None" using assms(5) by (auto simp: registered_def)
  ultimately show ?thesis using dec assms(4,6)
    by (intro exI[of _ e]) (auto simp: tp_sys_exit_def trip_nr_def mon_reserve_def)
qed

theorem trip_reported_witness:
  "bpf_run (seccomp_program x86_64 False) 0
       \<lparr>sd_nr = 165, sd_arch = AUDIT_ARCH_X86_64, sd_ip = 0, sd_args = [0, 0, 0, 0, 0, 0]\<rparr>
       = Some (SECCOMP_RET_ERRNO OR EPERM) \<and>
   tp_sys_exit x86_64 (lsm_maps_init\<lparr>cells := \<lparr>entries = [(7, 1)], max_entries = 256\<rparr>\<rparr>) (demo_ctx 7) [] 165 (- uint EPERM) =
     Some \<lparr>ev_cgid = 7, ev_tgid = 42, ev_type = EV_TRIP, ev_nr = 165, ev_comm = ''cat'', ev_path = []\<rparr>"
proof -
  let ?d = "\<lparr>sd_nr = 165, sd_arch = AUDIT_ARCH_X86_64, sd_ip = 0, sd_args = [0, 0, 0, 0, 0, 0]\<rparr>"
  let ?ms = "lsm_maps_init\<lparr>cells := \<lparr>entries = [(7, 1)], max_entries = 256\<rparr>\<rparr>"
  have "7 \<in> registered ?ms" by (simp add: registered_def bpf_lookup_def)
  then obtain e where e: "bpf_run (seccomp_program x86_64 False) 0 ?d = Some (SECCOMP_RET_ERRNO OR e)" "e = EPERM \<or> e = ENOSYS"
      "tp_sys_exit x86_64 ?ms (demo_ctx 7) [] 165 (- uint e) =
        Some \<lparr>ev_cgid = 7, ev_tgid = cur_tgid (demo_ctx 7), ev_type = EV_TRIP, ev_nr = 165, ev_comm = ''cat'', ev_path = []\<rparr>"
    using trip_reported[of x86_64 ?d "demo_ctx 7" ?ms "[]"] by (auto simp: arch_tables_defs demo_ctx_def)
  have "bpf_run (seccomp_program x86_64 False) 0 ?d = Some DENY_EPERM"
    using seccomp_program_decides[OF wf_x86_64, of ?d False] by (simp add: seccomp_spec_def arch_tables_defs)
  then have "e = EPERM" using e(1,2) by (auto simp: DENY_EPERM_def EPERM_def ENOSYS_def SECCOMP_RET_ERRNO_def SECCOMP_RET_DATA_def)
  moreover have "cur_tgid (demo_ctx 7) = 42" by (simp add: cur_tgid_def demo_ctx_def)
  ultimately show ?thesis using e by simp
qed

text \<open>\<^verbatim>\<open>attempt_name\<close> names every probed call except \<^verbatim>\<open>clone3\<close>, which the filter handles outside
  the table: its \<^verbatim>\<open>TRIP\<close> events are printed with the name \<open>?\<close>.\<close>

theorem attempt_name_unknown:
  "filter (\<lambda>nr. attempt_name (AC_SYSCALL_TAB x86_64) (word_of_int nr) = ''?'') (AC_TRIP_X x86_64) = [AC_SYS_clone3 x86_64] \<and>
   filter (\<lambda>nr. attempt_name (AC_SYSCALL_TAB aarch64) (word_of_int nr) = ''?'') (AC_TRIP_X aarch64) = [AC_SYS_clone3 aarch64]"
  by (simp add: arch_tables_defs)

end
