(* ===== verification/C_Lib.thy ===== *)
theory C_Lib
  imports AC_Prelude
begin

text \<open>
  The parts of the C library the sources use on text: \<open>isspace\<close>, \<open>isdigit\<close>, decimal printing
  (\<^verbatim>\<open>%u\<close>, \<^verbatim>\<open>%d\<close>, \<^verbatim>\<open>%llu\<close>), \<open>snprintf\<close> into a fixed buffer, \<open>strtol\<close>, \<open>atoi\<close>, the
  \<open>sscanf\<close> conversions \<^verbatim>\<open>%llu\<close>, \<^verbatim>\<open>%ld\<close> and \<^verbatim>\<open>%63s\<close>, \<open>strtok\<close>, and \<open>inet_pton\<close>/\<open>inet_ntop\<close>
  for \<open>AF_INET\<close>. A C string is the list of its characters before the terminator.
\<close>

definition isdigit :: "char \<Rightarrow> bool" where
  "isdigit c \<longleftrightarrow> 48 \<le> (of_char c :: nat) \<and> (of_char c :: nat) \<le> 57"

definition isspace :: "char \<Rightarrow> bool" where
  "isspace c \<longleftrightarrow> c = CHR '' '' \<or> (9 \<le> (of_char c :: nat) \<and> (of_char c :: nat) \<le> 13)"

text \<open>\<open>snprintf(buf, n, "%s", s)\<close>: at most \<open>n - 1\<close> characters survive.\<close>

definition snprintf_s :: "nat \<Rightarrow> cstr \<Rightarrow> cstr" where
  "snprintf_s n s = take (n - 1) s"

definition digit :: "nat \<Rightarrow> char" where
  "digit n = char_of (48 + n)"

definition digit_val :: "char \<Rightarrow> nat" where
  "digit_val c = of_char c - 48"

fun dec :: "nat \<Rightarrow> cstr" where
  "dec n = (if n < 10 then [digit n] else dec (n div 10) @ [digit (n mod 10)])"

declare dec.simps [simp del]

definition dec_int :: "int \<Rightarrow> cstr" where
  "dec_int i = (if i < 0 then CHR ''-'' # dec (nat (- i)) else dec (nat i))"

definition val :: "cstr \<Rightarrow> nat" where
  "val s = foldl (\<lambda>a c. a * 10 + digit_val c) 0 s"

text \<open>The optional sign and the digits a conversion consumes: sign, digits, rest.\<close>

definition scan_num :: "cstr \<Rightarrow> (bool \<times> cstr \<times> cstr) option" where
  "scan_num s =
     (let s1 = dropWhile isspace s;
          (neg, s2) = (case s1 of [] \<Rightarrow> (False, s1)
             | c # r \<Rightarrow> if c = CHR ''-'' then (True, r) else if c = CHR ''+'' then (False, r) else (False, s1));
          ds = takeWhile isdigit s2
      in if ds = [] then None else Some (neg, ds, dropWhile isdigit s2))"

text \<open>\<open>strtol(s, &end, 10)\<close>: the clamped value and the rest; \<open>None\<close> when \<open>end == s\<close>.\<close>

definition strtol :: "cstr \<Rightarrow> (int \<times> cstr) option" where
  "strtol s = map_option (\<lambda>(neg, ds, r).
     (if neg then max (- (2 ^ 63)) (- int (val ds)) else min (2 ^ 63 - 1) (int (val ds)), r)) (scan_num s)"

definition atoi :: "cstr \<Rightarrow> 32 word" where
  "atoi s = (case strtol s of None \<Rightarrow> 0 | Some (v, _) \<Rightarrow> word_of_int v)"

definition scan_llu :: "cstr \<Rightarrow> (u64 \<times> cstr) option" where
  "scan_llu s = map_option (\<lambda>(neg, ds, r).
     (if val ds \<ge> 2 ^ 64 then - 1 else if neg then - of_nat (val ds) else of_nat (val ds), r)) (scan_num s)"

definition scan_ld :: "cstr \<Rightarrow> (int \<times> cstr) option" where
  "scan_ld = strtol"

text \<open>\<^verbatim>\<open>%<n>s\<close>: the next word, cut at \<open>n\<close> characters.\<close>

definition scan_s :: "nat \<Rightarrow> cstr \<Rightarrow> (cstr \<times> cstr) option" where
  "scan_s n s =
     (let s1 = dropWhile isspace s; w = take n (takeWhile (\<lambda>c. \<not> isspace c) s1)
      in if w = [] then None else Some (w, drop (length w) s1))"

text \<open>\<open>strtok\<close> with a one-character separator, run to the end.\<close>

function strtok_all :: "char \<Rightarrow> cstr \<Rightarrow> cstr list" where
  "strtok_all sep s =
     (let s1 = dropWhile (\<lambda>c. c = sep) s
      in if s1 = [] then [] else takeWhile (\<lambda>c. c \<noteq> sep) s1 # strtok_all sep (dropWhile (\<lambda>c. c \<noteq> sep) s1))"
  by pat_completeness auto
termination
proof (relation "measure (\<lambda>(sep, s). length s)")
  fix sep and s x :: cstr
  assume x: "x = dropWhile (\<lambda>c. c = sep) s" and ne: "x \<noteq> []"
  then have "hd x \<noteq> sep" using hd_dropWhile[of "\<lambda>c. c = sep" s] by simp
  then have "dropWhile (\<lambda>c. c \<noteq> sep) x = dropWhile (\<lambda>c. c \<noteq> sep) (tl x)" using ne by (cases x) auto
  then have "length (dropWhile (\<lambda>c. c \<noteq> sep) x) < length x"
    using ne length_dropWhile_le[of "\<lambda>c. c \<noteq> sep" "tl x"] by (cases x) auto
  also have "\<dots> \<le> length s" using length_dropWhile_le x by simp
  finally show "((sep, dropWhile (\<lambda>c. c \<noteq> sep) x), sep, s) \<in> measure (\<lambda>(sep, s). length s)" by simp
qed simp

declare strtok_all.simps [simp del]

text \<open>\<open>inet_pton(AF_INET)\<close>: four dotted decimal octets without leading zeros.\<close>

fun split_on :: "char \<Rightarrow> cstr \<Rightarrow> cstr list" where
  "split_on sep [] = [[]]"
| "split_on sep (c # s) =
     (if c = sep then [] # split_on sep s
      else case split_on sep s of [] \<Rightarrow> [[c]] | w # ws \<Rightarrow> (c # w) # ws)"

definition canonical :: "cstr \<Rightarrow> bool" where
  "canonical s \<longleftrightarrow> s \<noteq> [] \<and> list_all isdigit s \<and> (hd s = CHR ''0'' \<longrightarrow> tl s = [])"

definition inet_pton4 :: "cstr \<Rightarrow> nat list option" where
  "inet_pton4 s =
     (let os = split_on (CHR ''.'') s
      in if length os = 4 \<and> list_all (\<lambda>w. canonical w \<and> val w \<le> 255) os then Some (map val os) else None)"

fun dotted :: "cstr list \<Rightarrow> cstr" where
  "dotted [] = []"
| "dotted [w] = w"
| "dotted (w # ws) = w @ CHR ''.'' # dotted ws"

definition inet_ntop4 :: "nat list \<Rightarrow> cstr" where
  "inet_ntop4 os = dotted (map dec os)"

subsection \<open>Digits\<close>

lemma of_char_digit: "n < 10 \<Longrightarrow> (of_char (digit n) :: nat) = 48 + n"
  by (simp add: digit_def)

lemma isdigit_digit [simp]: "n < 10 \<Longrightarrow> isdigit (digit n)"
  by (simp add: isdigit_def of_char_digit)

lemma digit_val_digit [simp]: "n < 10 \<Longrightarrow> digit_val (digit n) = n"
  by (simp add: digit_val_def of_char_digit)

lemma digit_digit_val: "isdigit c \<Longrightarrow> digit (digit_val c) = c"
  by (simp add: digit_def digit_val_def isdigit_def)

lemma digit_val_less: "isdigit c \<Longrightarrow> digit_val c < 10"
  unfolding digit_val_def isdigit_def by arith

lemma digit_val_pos:
  assumes "isdigit c" "c \<noteq> CHR ''0''"
  shows "0 < digit_val c"
proof (rule ccontr)
  assume "\<not> 0 < digit_val c"
  then have "(of_char c :: nat) = of_char (CHR ''0'')"
    using assms(1) unfolding digit_val_def isdigit_def by simp
  then show False using assms(2) by (simp only: of_char_eq_iff)
qed

lemma val_simps [simp]: "val [] = 0" "val (s @ [c]) = val s * 10 + digit_val c"
  by (simp_all add: val_def)

lemma val_single [simp]: "val [c] = digit_val c"
  by (simp add: val_def)

lemma dec_nonempty [simp]: "dec n \<noteq> []"
  by (subst dec.simps) auto

lemma dec_digits: "list_all isdigit (dec n)"
proof (induction n rule: dec.induct)
  case (1 n)
  then show ?case by (subst dec.simps) auto
qed

lemma val_dec [simp]: "val (dec n) = n"
proof (induction n rule: dec.induct)
  case (1 n)
  then show ?case by (subst dec.simps) auto
qed

lemma dec_inj: "dec m = dec n \<longleftrightarrow> m = n"
  by (metis val_dec)

lemma val_pos: "canonical s \<Longrightarrow> tl s \<noteq> [] \<Longrightarrow> 0 < val s"
proof -
  have "0 < foldl (\<lambda>a c. a * 10 + digit_val c) a s" if "0 < a" for a s
    using that by (induction s arbitrary: a) auto
  moreover assume "canonical s" "tl s \<noteq> []"
  then obtain c r where "s = c # r" "isdigit c" "c \<noteq> CHR ''0''" by (cases s) (auto simp: canonical_def)
  ultimately show ?thesis using digit_val_pos by (simp add: val_def)
qed

lemma dec_val: "canonical s \<Longrightarrow> dec (val s) = s"
proof (induction s rule: rev_induct)
  case (snoc c s)
  have dc: "isdigit c" using snoc.prems by (simp add: canonical_def)
  show ?case
  proof (cases "s = []")
    case True
    then show ?thesis using dc by (subst dec.simps) (simp add: digit_val_less digit_digit_val)
  next
    case False
    then have can: "canonical s" using snoc.prems by (auto simp: canonical_def)
    have "0 < val s"
    proof (cases "tl s = []")
      case True
      then obtain d where s: "s = [d]" using False by (cases s) auto
      then have "d \<noteq> CHR ''0''" "isdigit d" using snoc.prems by (auto simp: canonical_def)
      with s show ?thesis by (simp add: digit_val_pos)
    qed (rule val_pos[OF can])
    then show ?thesis
      using snoc.IH[OF can] digit_val_less[OF dc] dc by (subst dec.simps) (simp add: digit_digit_val)
  qed
qed (simp add: canonical_def)

lemma dotted_split_on: "dotted (split_on (CHR ''.'') s) = s"
proof (induction s)
  case (Cons c s)
  have "split_on (CHR ''.'') s \<noteq> []" by (cases s) (auto split: list.splits)
  then obtain w ws where "split_on (CHR ''.'') s = w # ws" by (cases "split_on (CHR ''.'') s") auto
  with Cons show ?case by (cases ws) auto
qed simp

text \<open>\<open>inet_ntop\<close> gives a literal address back as it was written.\<close>

lemma inet_ntop_pton: "inet_pton4 s = Some os \<Longrightarrow> inet_ntop4 os = s"
proof -
  assume "inet_pton4 s = Some os"
  then have ok: "list_all (\<lambda>w. canonical w \<and> val w \<le> 255) (split_on (CHR ''.'') s)"
    and os: "os = map val (split_on (CHR ''.'') s)"
    by (auto simp: inet_pton4_def Let_def split: if_splits)
  have "map dec (map val (split_on (CHR ''.'') s)) = split_on (CHR ''.'') s"
    using ok unfolding map_map by (intro map_idI) (simp add: list_all_iff dec_val)
  then show ?thesis by (simp add: inet_ntop4_def os dotted_split_on)
qed

subsection \<open>Printing and reading addresses\<close>

lemma isdigit_dot [simp]: "\<not> isdigit (CHR ''.'')"
  by (simp add: isdigit_def)

lemma not_digit_notin: "list_all isdigit s \<Longrightarrow> \<not> isdigit c \<Longrightarrow> c \<notin> set s"
  by (auto simp: list_all_iff)

lemma hd_dec: "hd (dec n) = CHR ''0'' \<Longrightarrow> n = 0"
proof (induction n rule: dec.induct)
  case (1 n)
  show ?case
  proof (cases "n < 10")
    case True
    then have "digit n = CHR ''0''" using "1.prems" by (simp add: dec.simps[of n])
    then have "digit_val (digit n) = digit_val (CHR ''0'')" by simp
    with True show ?thesis by (simp add: digit_val_def of_char_digit)
  next
    case False
    then have "hd (dec (n div 10)) = CHR ''0''" using "1.prems" by (simp add: dec.simps[of n])
    with "1.IH" False have "n div 10 = 0" by simp
    with False show ?thesis by simp
  qed
qed

lemma canonical_dec: "canonical (dec n)"
proof -
  have "dec 0 = [digit 0]" by (simp add: dec.simps)
  then have "hd (dec n) = CHR ''0'' \<Longrightarrow> tl (dec n) = []" using hd_dec[of n] by auto
  then show ?thesis by (simp add: canonical_def dec_digits)
qed

lemma length_dec_octet: "n \<le> 255 \<Longrightarrow> length (dec n) \<le> 3"
  by (subst dec.simps, subst dec.simps, subst dec.simps) auto

lemma split_on_word: "sep \<notin> set w \<Longrightarrow> split_on sep w = [w]"
  by (induction w) auto

lemma split_on_sep: "sep \<notin> set w \<Longrightarrow> split_on sep (w @ sep # s) = w # split_on sep s"
  by (induction w) auto

lemma split_on_dotted:
  "ws \<noteq> [] \<Longrightarrow> list_all (\<lambda>w. CHR ''.'' \<notin> set w) ws \<Longrightarrow> split_on (CHR ''.'') (dotted ws) = ws"
  by (induction ws rule: dotted.induct) (auto simp: split_on_word split_on_sep)

definition octets :: "nat list \<Rightarrow> bool" where
  "octets os \<longleftrightarrow> length os = 4 \<and> list_all (\<lambda>n. n \<le> 255) os"

lemma inet_pton_ntop: "octets os \<Longrightarrow> inet_pton4 (inet_ntop4 os) = Some os"
proof -
  assume os: "octets os"
  have "split_on (CHR ''.'') (dotted (map dec os)) = map dec os"
    using os not_digit_notin[OF dec_digits isdigit_dot]
    by (intro split_on_dotted) (auto simp: octets_def list_all_iff)
  with os show ?thesis
    by (simp add: inet_pton4_def inet_ntop4_def octets_def list_all_iff canonical_dec comp_def)
qed

lemma inet_pton_octets: "inet_pton4 s = Some os \<Longrightarrow> octets os"
  by (auto simp: inet_pton4_def octets_def Let_def list_all_iff split: if_splits)

lemma length_dotted: "list_all (\<lambda>w. length w \<le> n) ws \<Longrightarrow> length (dotted ws) \<le> length ws * Suc n"
  by (induction ws rule: dotted.induct) auto

lemma length_inet_ntop4: "octets os \<Longrightarrow> length (inet_ntop4 os) \<le> 16"
  using length_dotted[of 3 "map dec os"]
  by (simp add: inet_ntop4_def octets_def list_all_iff length_dec_octet)

end
