(* ===== verification/Firewall.thy ===== *)
theory Firewall
  imports C_Lib
begin

text \<open>
  What the daemon does to the host (\<^verbatim>\<open>src/src/agentlsm.c\<close>): the commands it hands to \<open>sh\<close>, with
  their text, the files it writes, and the \<open>FORWARD\<close> chain those commands edit. The host is a
  parameter: \<open>run\<close> carries out one effect and returns its status, \<open>chain\<close> reads the chain,
  and \<open>iptables_documented\<close> says what \<open>iptables(8)\<close> promises about the two.
\<close>

subsection \<open>Rules and commands\<close>

text \<open>\<open>VethTcp\<close> is the per-address \<^verbatim>\<open>ACCEPT\<close> of \<^verbatim>\<open>egress_accept\<close>, the other \<open>Veth\<close> rules are those of
  \<^verbatim>\<open>egress_base\<close>, the next three those of \<^verbatim>\<open>nat_ensure\<close>; \<open>Foreign\<close> is any rule of someone else,
  which names no interface \<^verbatim>\<open>vethh\<close> of a cell.\<close>

datatype rule =
    VethDrop nat
  | VethEstab nat
  | VethDns nat
  | VethTcp nat cstr cstr
  | SrcAccept
  | DstAccept
  | LinkLocalDrop
  | Foreign cstr

fun rule_text :: "rule \<Rightarrow> cstr" where
  "rule_text (VethDrop i) = ''-i vethh'' @ dec i @ '' -j DROP''"
| "rule_text (VethEstab i) = ''-i vethh'' @ dec i @ '' -m conntrack --ctstate ESTABLISHED,RELATED -j ACCEPT''"
| "rule_text (VethDns i) = ''-i vethh'' @ dec i @ '' -p udp --dport 53 -j ACCEPT''"
| "rule_text (VethTcp i ip port) =
     ''-i vethh'' @ dec i @ '' -p tcp -d '' @ ip @ '' --dport '' @ port @ '' -j ACCEPT''"
| "rule_text SrcAccept = ''-s 10.200.0.0/16 -j ACCEPT''"
| "rule_text DstAccept = ''-d 10.200.0.0/16 -j ACCEPT''"
| "rule_text LinkLocalDrop = ''-s 10.200.0.0/16 -d 169.254.0.0/16 -j DROP''"
| "rule_text (Foreign s) = s"

text \<open>\<open>LinkAdd q i\<close> with \<open>q\<close> hides the error output. \<open>Scrub i\<close> is the pipe that deletes every rule of
  one interface, \<open>ScrubLinks\<close> and \<open>ScrubRules\<close> those of \<^verbatim>\<open>net_recover_startup\<close>.\<close>

datatype sh_cmd =
    LinkAdd bool nat
  | LinkDel nat
  | LinkNetns nat int
  | AddrAdd nat nat nat
  | LinkUp nat
  | Insert rule
  | Delete rule
  | Ensure rule
  | NatEnsure
  | NatDelete
  | Scrub nat
  | ScrubLinks
  | ScrubRules

definition quiet :: cstr where "quiet = '' 2>/dev/null''"
definition masquerade :: cstr where "masquerade = ''POSTROUTING -s 10.200.0.0/16 -j MASQUERADE''"

definition scrub_tail :: cstr where
  "scrub_tail = CHR 0x27 # '' | sed 's/^-A/-D/' | while read -r r; do iptables $r 2>/dev/null; done''"

fun cmd_text :: "sh_cmd \<Rightarrow> cstr" where
  "cmd_text (LinkAdd q i) = ''ip link add vethh'' @ dec i @ '' type veth peer name vethc'' @ dec i @ (if q then quiet else [])"
| "cmd_text (LinkDel i) = ''ip link del vethh'' @ dec i @ quiet"
| "cmd_text (LinkNetns i pid) = ''ip link set vethc'' @ dec i @ '' netns '' @ dec_int pid"
| "cmd_text (AddrAdd a b i) = ''ip addr add 10.200.'' @ dec a @ ''.'' @ dec b @ ''/30 dev vethh'' @ dec i"
| "cmd_text (LinkUp i) = ''ip link set vethh'' @ dec i @ '' up''"
| "cmd_text (Insert r) = ''iptables -I FORWARD 1 '' @ rule_text r @ quiet"
| "cmd_text (Delete r) = ''iptables -D FORWARD '' @ rule_text r @ quiet"
| "cmd_text (Ensure r) = ''iptables -C FORWARD '' @ rule_text r @ quiet @ '' || iptables -I FORWARD '' @ rule_text r"
| "cmd_text NatEnsure = ''iptables -t nat -C '' @ masquerade @ quiet @ '' || iptables -t nat -A '' @ masquerade"
| "cmd_text NatDelete = ''iptables -t nat -D '' @ masquerade @ quiet"
| "cmd_text (Scrub i) = ''iptables-save 2>/dev/null | grep -E -- '-[io] vethh'' @ dec i @ ''( |$)'' @ scrub_tail"
| "cmd_text ScrubLinks =
     ''ip -o link show 2>/dev/null | sed -n 's/^[0-9]*: '' @ [CHR 0x5C] @ ''(vethh[0-9]*'' @ [CHR 0x5C] @ '')@.*/'' @
     [CHR 0x5C] @ ''1/p' | while read -r v; do'' @
     ''   ip link del \"$v\" 2>/dev/null   && echo \"agentlsm: removed stale $v from a previous run\"; done >&2''"
| "cmd_text ScrubRules = ''iptables-save 2>/dev/null | grep -E -- '-[io] vethh[0-9]+( |$)'' @ scrub_tail"

text \<open>The effects on the host: a shell command, or a write to \<^verbatim>\<open>ip_forward\<close> and to the file that
  saves its value.\<close>

datatype host_effect =
    Sh sh_cmd
  | WriteFwd int
  | SaveFwd int
  | UnlinkSave

type_synonym 'h runner = "host_effect \<Rightarrow> 'h \<Rightarrow> int \<times> 'h"

fun exec :: "'h runner \<Rightarrow> host_effect list \<Rightarrow> 'h \<Rightarrow> 'h" where
  "exec run [] h = h"
| "exec run (e # es) h = exec run es (snd (run e h))"

lemma exec_append [simp]: "exec run (xs @ ys) h = exec run ys (exec run xs h)"
  by (induction xs arbitrary: h) auto

subsection \<open>What a chain decides\<close>

datatype action = ACCEPT | DROP
datatype proto = TCP | UDP | OtherProto

record packet =
  pk_in :: "nat option"
  pk_src :: "nat list"
  pk_dst :: "nat list"
  pk_proto :: proto
  pk_dport :: nat
  pk_estab :: bool

fun rule_iface :: "rule \<Rightarrow> nat option" where
  "rule_iface (VethDrop i) = Some i"
| "rule_iface (VethEstab i) = Some i"
| "rule_iface (VethDns i) = Some i"
| "rule_iface (VethTcp i ip port) = Some i"
| "rule_iface _ = None"

definition in_net :: "nat list \<Rightarrow> nat list \<Rightarrow> bool" where
  "in_net net addr \<longleftrightarrow> take (length net) addr = net"

text \<open>\<open>fr\<close> gives the meaning of foreign rules.\<close>

fun rule_hit :: "(cstr \<Rightarrow> packet \<Rightarrow> action option) \<Rightarrow> rule \<Rightarrow> packet \<Rightarrow> action option" where
  "rule_hit fr (VethDrop i) p = (if pk_in p = Some i then Some DROP else None)"
| "rule_hit fr (VethEstab i) p = (if pk_in p = Some i \<and> pk_estab p then Some ACCEPT else None)"
| "rule_hit fr (VethDns i) p = (if pk_in p = Some i \<and> pk_proto p = UDP \<and> pk_dport p = 53 then Some ACCEPT else None)"
| "rule_hit fr (VethTcp i ip port) p =
     (if pk_in p = Some i \<and> pk_proto p = TCP \<and> inet_pton4 ip = Some (pk_dst p) \<and> val port = pk_dport p
      then Some ACCEPT else None)"
| "rule_hit fr SrcAccept p = (if in_net [10, 200] (pk_src p) then Some ACCEPT else None)"
| "rule_hit fr DstAccept p = (if in_net [10, 200] (pk_dst p) then Some ACCEPT else None)"
| "rule_hit fr LinkLocalDrop p = (if in_net [10, 200] (pk_src p) \<and> in_net [169, 254] (pk_dst p) then Some DROP else None)"
| "rule_hit fr (Foreign s) p = fr s p"

fun chain_hit :: "(cstr \<Rightarrow> packet \<Rightarrow> action option) \<Rightarrow> rule list \<Rightarrow> packet \<Rightarrow> action option" where
  "chain_hit fr [] p = None"
| "chain_hit fr (r # rs) p = (case rule_hit fr r p of Some a \<Rightarrow> Some a | None \<Rightarrow> chain_hit fr rs p)"

text \<open>The rules of one interface, in order; the layout the daemon keeps: all interface rules above
  all others.\<close>

definition iface_rules :: "nat \<Rightarrow> rule list \<Rightarrow> rule list" where
  "iface_rules i = filter (\<lambda>r. rule_iface r = Some i)"

definition other_rules :: "rule list \<Rightarrow> rule list" where
  "other_rules = filter (\<lambda>r. rule_iface r = None)"

fun veth_on_top :: "rule list \<Rightarrow> bool" where
  "veth_on_top [] = True"
| "veth_on_top (r # rs) = (if rule_iface r = None then list_all (\<lambda>r. rule_iface r = None) rs else veth_on_top rs)"

subsection \<open>The contract of the host\<close>

definition port_ok :: "cstr \<Rightarrow> bool" where
  "port_ok port \<longleftrightarrow> port \<noteq> [] \<and> list_all isdigit port \<and> val port \<le> 65535"

fun rule_ok :: "rule \<Rightarrow> bool" where
  "rule_ok (VethTcp i ip port) = (inet_pton4 ip \<noteq> None \<and> port_ok port)"
| "rule_ok _ = True"

text \<open>
  \<open>iptables\<close>: an insert that succeeds puts the rule on top, one that fails changes nothing; a
  delete removes the first copy of the rule and fails when there is none; check-or-insert
  inserts only when the rule is missing; the scrub pipes delete the rules of their interfaces;
  the link commands, the \<open>nat\<close> table and the files do not touch the chain. The promise is
  made for rules whose address and port are well formed.
\<close>

definition iptables_documented :: "'h runner \<Rightarrow> ('h \<Rightarrow> rule list) \<Rightarrow> bool" where
  "iptables_documented run chain \<longleftrightarrow>
     (\<forall>h r. rule_ok r \<longrightarrow> chain (snd (run (Sh (Insert r)) h)) =
        (if fst (run (Sh (Insert r)) h) = 0 then r # chain h else chain h)) \<and>
     (\<forall>h r. rule_ok r \<longrightarrow> chain (snd (run (Sh (Delete r)) h)) = remove1 r (chain h)) \<and>
     (\<forall>h r. rule_ok r \<longrightarrow> chain (snd (run (Sh (Ensure r)) h)) =
        (if r \<in> set (chain h) \<or> fst (run (Sh (Ensure r)) h) \<noteq> 0 then chain h else r # chain h)) \<and>
     (\<forall>h i. chain (snd (run (Sh (Scrub i)) h)) = filter (\<lambda>r. rule_iface r \<noteq> Some i) (chain h)) \<and>
     (\<forall>h. chain (snd (run (Sh ScrubRules) h)) = other_rules (chain h)) \<and>
     (\<forall>h e. (\<forall>r. e \<noteq> Sh (Insert r) \<and> e \<noteq> Sh (Delete r) \<and> e \<noteq> Sh (Ensure r)) \<and>
            (\<forall>i. e \<noteq> Sh (Scrub i)) \<and> e \<noteq> Sh ScrubRules \<longrightarrow> chain (snd (run e h)) = chain h)"

lemma chain_Insert:
  "iptables_documented run chain \<Longrightarrow> rule_ok r \<Longrightarrow>
     chain (snd (run (Sh (Insert r)) h)) = (if fst (run (Sh (Insert r)) h) = 0 then r # chain h else chain h)"
  unfolding iptables_documented_def by blast

lemma chain_Delete:
  "iptables_documented run chain \<Longrightarrow> rule_ok r \<Longrightarrow> chain (snd (run (Sh (Delete r)) h)) = remove1 r (chain h)"
  unfolding iptables_documented_def by blast

lemma chain_Ensure:
  "iptables_documented run chain \<Longrightarrow> rule_ok r \<Longrightarrow> chain (snd (run (Sh (Ensure r)) h)) =
     (if r \<in> set (chain h) \<or> fst (run (Sh (Ensure r)) h) \<noteq> 0 then chain h else r # chain h)"
  unfolding iptables_documented_def by blast

lemma chain_Scrub:
  "iptables_documented run chain \<Longrightarrow>
     chain (snd (run (Sh (Scrub i)) h)) = filter (\<lambda>r. rule_iface r \<noteq> Some i) (chain h)"
  unfolding iptables_documented_def by blast

lemma chain_ScrubRules:
  "iptables_documented run chain \<Longrightarrow> chain (snd (run (Sh ScrubRules) h)) = other_rules (chain h)"
  unfolding iptables_documented_def by blast

lemma chain_same:
  assumes "iptables_documented run chain"
  shows "chain (snd (run (Sh (LinkAdd q i)) h)) = chain h" "chain (snd (run (Sh (LinkDel i)) h)) = chain h"
    "chain (snd (run (Sh (LinkNetns i pid)) h)) = chain h" "chain (snd (run (Sh (AddrAdd a b i)) h)) = chain h"
    "chain (snd (run (Sh (LinkUp i)) h)) = chain h" "chain (snd (run (Sh NatEnsure) h)) = chain h"
    "chain (snd (run (Sh NatDelete) h)) = chain h" "chain (snd (run (Sh ScrubLinks) h)) = chain h"
    "chain (snd (run (WriteFwd v) h)) = chain h" "chain (snd (run (SaveFwd v) h)) = chain h"
    "chain (snd (run UnlinkSave h)) = chain h"
  using assms unfolding iptables_documented_def by (meson host_effect.distinct host_effect.inject sh_cmd.distinct)+

lemmas chain_effect = chain_Insert chain_Delete chain_Ensure chain_Scrub chain_ScrubRules chain_same

subsection \<open>Chains\<close>

lemma chain_hit_append:
  "chain_hit fr (xs @ ys) p = (case chain_hit fr xs p of Some a \<Rightarrow> Some a | None \<Rightarrow> chain_hit fr ys p)"
  by (induction xs) (auto split: option.splits)

lemma rule_hit_iface: "rule_iface r = Some i \<Longrightarrow> pk_in p \<noteq> Some i \<Longrightarrow> rule_hit fr r p = None"
  by (cases r) auto

text \<open>With the interface rules on top, a packet from interface \<open>i\<close> meets the rules of \<open>i\<close> and then
  the others.\<close>

lemma chain_hit_layout:
  assumes "veth_on_top ch" "pk_in p = Some i"
  shows "chain_hit fr ch p = chain_hit fr (iface_rules i ch @ other_rules ch) p"
  using assms(1)
proof (induction ch)
  case (Cons r rs)
  show ?case
  proof (cases "rule_iface r")
    case None
    then have "list_all (\<lambda>r. rule_iface r = None) rs" using Cons.prems by simp
    then have "iface_rules i rs = []" "other_rules rs = rs"
      by (auto simp: iface_rules_def other_rules_def list_all_iff filter_empty_conv filter_id_conv)
    with None show ?thesis by (simp add: iface_rules_def other_rules_def)
  next
    case (Some j)
    with Cons have IH: "chain_hit fr rs p = chain_hit fr (iface_rules i rs @ other_rules rs) p" by simp
    show ?thesis
      using Some IH rule_hit_iface[OF Some] assms(2)
      by (cases "j = i") (auto simp: iface_rules_def other_rules_def split: option.splits)
  qed
qed (simp add: iface_rules_def other_rules_def)

lemma iface_rules_simps [simp]:
  "iface_rules i [] = []"
  "iface_rules i (r # ch) = (if rule_iface r = Some i then r # iface_rules i ch else iface_rules i ch)"
  by (simp_all add: iface_rules_def)

lemma other_rules_simps [simp]:
  "other_rules [] = []"
  "other_rules (r # ch) = (if rule_iface r = None then r # other_rules ch else other_rules ch)"
  by (simp_all add: other_rules_def)

lemma iface_rules_remove1 [simp]: "iface_rules i (remove1 r ch) = remove1 r (iface_rules i ch)"
  unfolding iface_rules_def by (simp add: filter_remove1)

lemma other_rules_remove1 [simp]: "other_rules (remove1 r ch) = remove1 r (other_rules ch)"
  unfolding other_rules_def by (simp add: filter_remove1)

lemma veth_on_top_others: "list_all (\<lambda>r. rule_iface r = None) ch \<Longrightarrow> veth_on_top ch"
  by (cases ch) auto

lemma veth_on_top_remove1: "veth_on_top ch \<Longrightarrow> veth_on_top (remove1 r ch)"
proof (induction ch)
  case (Cons a ch)
  have "list_all P ch \<Longrightarrow> list_all P (remove1 r ch)" for P
    using set_remove1_subset[of r ch] by (auto simp: list_all_iff)
  with Cons show ?case by (auto intro: veth_on_top_others split: if_splits)
qed simp

lemma veth_on_top_filter: "veth_on_top ch \<Longrightarrow> veth_on_top (filter P ch)"
proof (induction ch)
  case (Cons a ch)
  have "list_all Q ch \<Longrightarrow> list_all Q (filter P ch)" for Q by (auto simp: list_all_iff)
  with Cons show ?case by (auto intro: veth_on_top_others split: if_splits)
qed simp

end
