(* ===== verification/Egress.thy ===== *)
theory Egress
  imports Firewall "HOL-Library.Multiset"
begin

text \<open>
  The egress allowlist of a cell (\<^verbatim>\<open>src/src/agentlsm.c\<close>): resolving the allowed hosts against the
  cell's own resolvers (\<^verbatim>\<open>ns_addr\<close>, \<^verbatim>\<open>resolve_egress\<close>, \<^verbatim>\<open>egress_want\<close>), installing the difference
  (\<^verbatim>\<open>egress_base\<close>, \<^verbatim>\<open>egress_accept\<close>, \<^verbatim>\<open>egress_apply\<close>) and the periodic \<^verbatim>\<open>egress_refresh\<close>. The
  resolver is a parameter: \<open>dns ns host\<close> lists the address records (data and TTL) of the answer
  of name server \<open>ns\<close>, empty when there is none.
\<close>

definition MAX_EGRESS :: nat where "MAX_EGRESS = 16"
definition MAX_EG_IPS :: nat where "MAX_EG_IPS = 128"
definition MAX_NS :: nat where "MAX_NS = 4"
definition EG_TTL_CAP :: int where "EG_TTL_CAP = 60"

record egpair =
  ep_ip :: cstr
  ep_port :: cstr

record eghost =
  eh_host :: cstr
  eh_port :: cstr

text \<open>One element of \<^verbatim>\<open>g_nets\<close>; the lists hold the first \<open>n_eg\<close>, \<open>n_hosts\<close>, \<open>n_ns\<close> elements.\<close>

record cell_net =
  cn_pid :: int
  cn_idx :: nat
  cn_eg :: "egpair list"
  cn_hosts :: "eghost list"
  cn_ns :: "cstr list"
  cn_next_refresh :: int

type_synonym sockaddr_in = "nat list \<times> u16"
type_synonym dns = "sockaddr_in \<Rightarrow> cstr \<Rightarrow> (nat list \<times> u32) list"

subsection \<open>Resolving\<close>

text \<open>\<open>strrchr(a, ':')\<close>: the text before and after the last colon.\<close>

definition split_last_colon :: "cstr \<Rightarrow> (cstr \<times> cstr) option" where
  "split_last_colon a =
     (if CHR '':'' \<in> set a
      then Some (rev (tl (dropWhile (\<lambda>c. c \<noteq> CHR '':'') (rev a))), rev (takeWhile (\<lambda>c. c \<noteq> CHR '':'') (rev a)))
      else None)"

definition ns_addr :: "cstr \<Rightarrow> sockaddr_in option" where
  "ns_addr spec =
     (let a = snprintf_s 64 spec;
          (a, port) = (case split_last_colon a of
              Some (pre, post) \<Rightarrow> if post \<noteq> [] \<and> list_all isdigit post then (pre, atoi post) else (a, 53)
            | None \<Rightarrow> (a, 53))
      in map_option (\<lambda>os. (os, ucast port)) (inet_pton4 a))"

definition mk_pair :: "cstr \<Rightarrow> cstr \<Rightarrow> egpair" where
  "mk_pair ip port = \<lparr>ep_ip = snprintf_s 64 ip, ep_port = snprintf_s 8 port\<rparr>"

definition has_pair :: "egpair list \<Rightarrow> cstr \<Rightarrow> cstr \<Rightarrow> bool" where
  "has_pair want ip port \<longleftrightarrow> list_ex (\<lambda>w. ep_ip w = ip \<and> ep_port w = port) want"

text \<open>The loop over the records of one answer; \<open>None\<close> is the overflow return.\<close>

fun add_records :: "cstr \<Rightarrow> nat \<Rightarrow> (nat list \<times> u32) list \<Rightarrow> egpair list \<times> int \<Rightarrow> (egpair list \<times> int) option" where
  "add_records port mx [] st = Some st"
| "add_records port mx ((rdata, t) # rrs) (want, ttl_min) =
     (let ip = inet_ntop4 rdata;
          ttl_min = (if t \<noteq> 0 \<and> (ttl_min = 0 \<or> sint t < ttl_min) then sint t else ttl_min)
      in if has_pair want ip port then add_records port mx rrs (want, ttl_min)
         else if length want \<ge> mx then None
         else add_records port mx rrs (want @ [mk_pair ip port], ttl_min))"

fun ask_servers :: "dns \<Rightarrow> cstr \<Rightarrow> cstr \<Rightarrow> nat \<Rightarrow> sockaddr_in list \<Rightarrow> egpair list \<times> int \<Rightarrow> bool \<Rightarrow>
    ((egpair list \<times> int) \<times> bool) option" where
  "ask_servers dns host port mx [] st got_any = Some (st, got_any)"
| "ask_servers dns host port mx (n # ns) st got_any =
     (case add_records port mx (dns n host) st of None \<Rightarrow> None
      | Some st' \<Rightarrow> ask_servers dns host port mx ns st' (got_any \<or> dns n host \<noteq> []))"

datatype resolve_error = Unresolved cstr | TooManyIps

definition resolve_egress :: "dns \<Rightarrow> cstr \<Rightarrow> cstr \<Rightarrow> sockaddr_in list \<Rightarrow> nat \<Rightarrow> egpair list \<times> int \<Rightarrow>
    resolve_error + egpair list \<times> int" where
  "resolve_egress dns host port ns mx st =
     (case inet_pton4 host of
        Some lit \<Rightarrow>
          let ip = inet_ntop4 lit; (want, ttl_min) = st
          in if has_pair want ip port then Inr st
             else if length want \<ge> mx then Inl TooManyIps
             else Inr (want @ [mk_pair ip port], ttl_min)
      | None \<Rightarrow>
          (case ask_servers dns host port mx ns st False of
             None \<Rightarrow> Inl TooManyIps
           | Some (st', got_any) \<Rightarrow> if got_any then Inr st' else Inl (Unresolved (snprintf_s 128 host))))"

fun want_hosts :: "dns \<Rightarrow> sockaddr_in list \<Rightarrow> eghost list \<Rightarrow> egpair list \<times> int \<Rightarrow> resolve_error + egpair list \<times> int" where
  "want_hosts dns ns [] st = Inr st"
| "want_hosts dns ns (h # hs) st =
     (case resolve_egress dns (eh_host h) (eh_port h) ns MAX_EG_IPS st of
        Inl e \<Rightarrow> Inl e | Inr st' \<Rightarrow> want_hosts dns ns hs st')"

definition servers :: "cstr list \<Rightarrow> sockaddr_in list" where
  "servers ns = List.map_filter ns_addr ns"

definition egress_want :: "dns \<Rightarrow> cell_net \<Rightarrow> resolve_error + egpair list \<times> int" where
  "egress_want dns c = want_hosts dns (servers (cn_ns c)) (cn_hosts c) ([], 0)"

subsection \<open>Installing\<close>

definition base_rules :: "nat \<Rightarrow> rule list" where
  "base_rules idx = [VethDrop idx, VethEstab idx, VethDns idx]"

definition egress_base :: "'h runner \<Rightarrow> nat \<Rightarrow> bool \<Rightarrow> 'h \<Rightarrow> 'h" where
  "egress_base run idx add = exec run (map (\<lambda>r. Sh (if add then Insert r else Delete r)) (base_rules idx))"

definition accept_rule :: "nat \<Rightarrow> egpair \<Rightarrow> rule" where
  "accept_rule idx e = VethTcp idx (ep_ip e) (ep_port e)"

definition egress_accept :: "'h runner \<Rightarrow> nat \<Rightarrow> egpair \<Rightarrow> bool \<Rightarrow> 'h \<Rightarrow> int \<times> 'h" where
  "egress_accept run idx e add = run (Sh (if add then Insert (accept_rule idx e) else Delete (accept_rule idx e)))"

text \<open>The two loops of \<^verbatim>\<open>egress_apply\<close>: a rule that is not wanted is deleted and its place taken by
  the last one; a wanted rule that is missing is installed and recorded only on success.\<close>

function drop_stale :: "'h runner \<Rightarrow> nat \<Rightarrow> egpair list \<Rightarrow> egpair list \<Rightarrow> nat \<Rightarrow> 'h \<Rightarrow> egpair list \<times> 'h" where
  "drop_stale run idx want eg i h =
     (if length eg \<le> i then (eg, h)
      else if eg ! i \<in> set want then drop_stale run idx want eg (Suc i) h
      else drop_stale run idx want (butlast (eg[i := last eg])) i (snd (egress_accept run idx (eg ! i) False h)))"
  by pat_completeness auto
termination
  by (relation "measure (\<lambda>(run, idx, want, eg, i, h). length eg - i)") auto

declare drop_stale.simps [simp del]

fun add_missing :: "'h runner \<Rightarrow> nat \<Rightarrow> egpair list \<Rightarrow> egpair list \<Rightarrow> nat \<Rightarrow> 'h \<Rightarrow> nat \<times> egpair list \<times> 'h" where
  "add_missing run idx [] eg failed h = (failed, eg, h)"
| "add_missing run idx (w # ws) eg failed h =
     (if length eg \<ge> MAX_EG_IPS then (failed, eg, h)
      else if w \<in> set eg then add_missing run idx ws eg failed h
      else let (rc, h') = egress_accept run idx w True h
           in if rc \<noteq> 0 then add_missing run idx ws eg (failed + 1) h'
              else add_missing run idx ws (eg @ [w]) failed h')"

definition egress_apply :: "'h runner \<Rightarrow> cell_net \<Rightarrow> egpair list \<Rightarrow> 'h \<Rightarrow> nat \<times> cell_net \<times> 'h" where
  "egress_apply run c want h =
     (let (eg, h1) = drop_stale run (cn_idx c) want (cn_eg c) 0 h;
          (failed, eg', h2) = add_missing run (cn_idx c) want eg 0 h1
      in (failed, c\<lparr>cn_eg := eg'\<rparr>, h2))"

definition refresh_at :: "int \<Rightarrow> int \<Rightarrow> int" where
  "refresh_at now ttl = now + (if ttl > 0 \<and> ttl < EG_TTL_CAP then ttl else EG_TTL_CAP)"

text \<open>One iteration of \<^verbatim>\<open>egress_refresh\<close>, and the loop over the slots.\<close>

definition refresh_cell :: "'h runner \<Rightarrow> dns \<Rightarrow> int \<Rightarrow> cell_net \<Rightarrow> 'h \<Rightarrow> cell_net \<times> 'h" where
  "refresh_cell run dns now c h =
     (if cn_pid c = 0 \<or> cn_hosts c = [] then (c, h)
      else if now < cn_next_refresh c then (c, h)
      else case egress_want dns c of
        Inl e \<Rightarrow> (c\<lparr>cn_next_refresh := now + 10\<rparr>, h)
      | Inr (want, ttl) \<Rightarrow>
          if want = [] then (c\<lparr>cn_next_refresh := now + 10\<rparr>, h)
          else let (failed, c', h') = egress_apply run c want h
               in (c'\<lparr>cn_next_refresh := refresh_at now ttl\<rparr>, h'))"

fun egress_refresh :: "'h runner \<Rightarrow> dns \<Rightarrow> int \<Rightarrow> cell_net list \<Rightarrow> 'h \<Rightarrow> cell_net list \<times> 'h" where
  "egress_refresh run dns now [] h = ([], h)"
| "egress_refresh run dns now (c # cs) h =
     (let (c', h1) = refresh_cell run dns now c h; (cs', h2) = egress_refresh run dns now cs h1
      in (c' # cs', h2))"

subsection \<open>What is wanted\<close>

text \<open>The addresses a host stands for: itself when it is a literal, else every address record of every
  resolver of the cell. The resolver hands out four-byte addresses.\<close>

definition host_ips :: "dns \<Rightarrow> sockaddr_in list \<Rightarrow> cstr \<Rightarrow> cstr set" where
  "host_ips dns ns host =
     (if inet_pton4 host \<noteq> None then {host}
      else {inet_ntop4 rdata |n rdata t. n \<in> set ns \<and> (rdata, t) \<in> set (dns n host)})"

definition allowed_pairs :: "dns \<Rightarrow> sockaddr_in list \<Rightarrow> eghost list \<Rightarrow> egpair set" where
  "allowed_pairs dns ns hosts =
     {\<lparr>ep_ip = ip, ep_port = eh_port h\<rparr> |h ip. h \<in> set hosts \<and> ip \<in> host_ips dns ns (eh_host h)}"

definition dns_ok :: "dns \<Rightarrow> bool" where
  "dns_ok dns \<longleftrightarrow> (\<forall>n host rdata t. (rdata, t) \<in> set (dns n host) \<longrightarrow> octets rdata)"

lemma mk_pair_octets:
  "octets os \<Longrightarrow> length port \<le> 7 \<Longrightarrow> mk_pair (inet_ntop4 os) port = \<lparr>ep_ip = inet_ntop4 os, ep_port = port\<rparr>"
  using length_inet_ntop4[of os] by (simp add: mk_pair_def snprintf_s_def)

lemma has_pair_iff: "has_pair want ip port \<longleftrightarrow> \<lparr>ep_ip = ip, ep_port = port\<rparr> \<in> set want"
proof -
  have "ep_ip w = ip \<and> ep_port w = port \<longleftrightarrow> w = \<lparr>ep_ip = ip, ep_port = port\<rparr>" for w :: egpair by (cases w) auto
  then show ?thesis by (auto simp: has_pair_def list_ex_iff)
qed

definition grows :: "nat \<Rightarrow> egpair list \<Rightarrow> egpair set \<Rightarrow> egpair list \<Rightarrow> bool" where
  "grows mx want new want' \<longleftrightarrow>
     set want' = set want \<union> new \<and> (distinct want \<longrightarrow> distinct want') \<and> (length want \<le> mx \<longrightarrow> length want' \<le> mx)"

lemma grows_trans: "grows mx a M b \<Longrightarrow> grows mx b N c \<Longrightarrow> grows mx a (M \<union> N) c"
  by (auto simp: grows_def)

lemma grows_refl: "M \<subseteq> set a \<Longrightarrow> grows mx a M a"
  by (auto simp: grows_def)

lemma grows_one: "e \<notin> set a \<Longrightarrow> length a < mx \<Longrightarrow> grows mx a {e} (a @ [e])"
  by (auto simp: grows_def)

lemma add_records_grows:
  assumes "add_records port mx rrs st = Some st'" "\<And>rd t. (rd, t) \<in> set rrs \<Longrightarrow> octets rd" "length port \<le> 7"
  shows "grows mx (fst st) ((\<lambda>(rd, t). \<lparr>ep_ip = inet_ntop4 rd, ep_port = port\<rparr>) ` set rrs) (fst st')"
  using assms
proof (induction port mx rrs st rule: add_records.induct)
  case (1 port mx st)
  then show ?case by (simp add: grows_refl)
next
  case (2 port mx rdata t rrs want ttl)
  let ?e = "\<lparr>ep_ip = inet_ntop4 rdata, ep_port = port\<rparr>"
  let ?N = "(\<lambda>(rd, t). \<lparr>ep_ip = inet_ntop4 rd, ep_port = port\<rparr>) ` set rrs"
  have oc: "octets rdata" using "2.prems"(2) by auto
  have rest: "\<And>rd t. (rd, t) \<in> set rrs \<Longrightarrow> octets rd" using "2.prems"(2) by auto
  show ?case
  proof (cases "?e \<in> set want")
    case True
    with "2.prems" have "grows mx want ?N (fst st')"
      using "2.IH"(1)[OF refl refl] rest by (simp add: Let_def has_pair_iff)
    with grows_trans[OF grows_refl[of "{?e}" want mx] this] True show ?thesis by simp
  next
    case False
    with "2.prems"(1) have len: "length want < mx" by (auto simp: Let_def has_pair_iff split: if_splits)
    with False "2.prems" have "grows mx (want @ [?e]) ?N (fst st')"
      using "2.IH"(2)[OF refl refl] rest oc by (simp add: Let_def has_pair_iff mk_pair_octets)
    from grows_trans[OF grows_one[OF False len] this] show ?thesis by simp
  qed
qed

lemma image_records: "(\<lambda>(rd, t). f rd) ` S = {f rd |rd t. (rd, t) \<in> S}"
  by (auto simp: image_iff)

lemma ask_servers_grows:
  assumes "ask_servers dns host port mx ns st g = Some (st', g')" "dns_ok dns" "length port \<le> 7"
  shows "grows mx (fst st) {\<lparr>ep_ip = inet_ntop4 rd, ep_port = port\<rparr> |n rd t. n \<in> set ns \<and> (rd, t) \<in> set (dns n host)} (fst st')"
  using assms
proof (induction ns arbitrary: st g)
  case Nil
  then show ?case by (simp add: grows_refl)
next
  case (Cons n ns)
  obtain s1 where s1: "add_records port mx (dns n host) st = Some s1"
      and r: "ask_servers dns host port mx ns s1 (g \<or> dns n host \<noteq> []) = Some (st', g')"
    using Cons.prems(1) by (auto split: option.splits)
  have "\<And>rd t. (rd, t) \<in> set (dns n host) \<Longrightarrow> octets rd" using assms(2) unfolding dns_ok_def by blast
  from add_records_grows[OF s1 this assms(3)] Cons.IH[OF r assms(2,3)]
  have "grows mx (fst st) ((\<lambda>(rd, t). \<lparr>ep_ip = inet_ntop4 rd, ep_port = port\<rparr>) ` set (dns n host) \<union>
     {\<lparr>ep_ip = inet_ntop4 rd, ep_port = port\<rparr> |n rd t. n \<in> set ns \<and> (rd, t) \<in> set (dns n host)}) (fst st')"
    by (rule grows_trans)
  moreover have "(\<lambda>(rd, t). \<lparr>ep_ip = inet_ntop4 rd, ep_port = port\<rparr>) ` set (dns n host) \<union>
     {\<lparr>ep_ip = inet_ntop4 rd, ep_port = port\<rparr> |n rd t. n \<in> set ns \<and> (rd, t) \<in> set (dns n host)} =
     {\<lparr>ep_ip = inet_ntop4 rd, ep_port = port\<rparr> |m rd t. m \<in> set (n # ns) \<and> (rd, t) \<in> set (dns m host)}"
    unfolding image_records list.set by blast
  ultimately show ?case by (simp only:)
qed

lemma resolve_egress_grows:
  assumes "resolve_egress dns host port ns mx st = Inr st'" "dns_ok dns" "length port \<le> 7"
  shows "grows mx (fst st) {\<lparr>ep_ip = ip, ep_port = port\<rparr> |ip. ip \<in> host_ips dns ns host} (fst st')"
proof (cases "inet_pton4 host")
  case None
  then obtain s1 where s1: "ask_servers dns host port mx ns st False = Some (st', s1)"
    using assms(1) by (auto simp: resolve_egress_def split: option.splits if_splits)
  have "host_ips dns ns host = {inet_ntop4 rd |n rd t. n \<in> set ns \<and> (rd, t) \<in> set (dns n host)}"
    by (simp only: host_ips_def None simp_thms if_False)
  then have new: "{\<lparr>ep_ip = ip, ep_port = port\<rparr> |ip. ip \<in> host_ips dns ns host} =
      {\<lparr>ep_ip = inet_ntop4 rd, ep_port = port\<rparr> |n rd t. n \<in> set ns \<and> (rd, t) \<in> set (dns n host)}"
    by blast
  show ?thesis unfolding new by (rule ask_servers_grows[OF s1 assms(2,3)])
next
  case (Some lit)
  have e: "mk_pair host port = \<lparr>ep_ip = host, ep_port = port\<rparr>" and n: "inet_ntop4 lit = host"
    using mk_pair_octets[OF inet_pton_octets[OF Some] assms(3)] inet_ntop_pton[OF Some] by simp_all
  have new: "{\<lparr>ep_ip = ip, ep_port = port\<rparr> |ip. ip \<in> host_ips dns ns host} = {\<lparr>ep_ip = host, ep_port = port\<rparr>}"
    by (simp add: host_ips_def Some)
  obtain want ttl where st: "st = (want, ttl)" by (cases st)
  show ?thesis
    using assms(1) unfolding new
    by (auto simp: resolve_egress_def Some st n e has_pair_iff Let_def grows_refl grows_one split: if_splits)
qed

lemma want_hosts_grows:
  assumes "want_hosts dns ns hosts st = Inr st'" "dns_ok dns" "\<And>h. h \<in> set hosts \<Longrightarrow> length (eh_port h) \<le> 7"
  shows "grows MAX_EG_IPS (fst st) (allowed_pairs dns ns hosts) (fst st')"
  using assms
proof (induction hosts arbitrary: st)
  case Nil
  then show ?case by (simp add: grows_refl allowed_pairs_def)
next
  case (Cons h hs)
  obtain s1 where s1: "resolve_egress dns (eh_host h) (eh_port h) ns MAX_EG_IPS st = Inr s1"
      and r: "want_hosts dns ns hs s1 = Inr st'"
    using Cons.prems(1) by (auto split: sum.splits)
  have "length (eh_port h) \<le> 7" using Cons.prems(3) by simp
  from grows_trans[OF resolve_egress_grows[OF s1 assms(2) this] Cons.IH[OF r assms(2)]] Cons.prems(3)
  have "grows MAX_EG_IPS (fst st) ({\<lparr>ep_ip = ip, ep_port = eh_port h\<rparr> |ip. ip \<in> host_ips dns ns (eh_host h)} \<union>
      allowed_pairs dns ns hs) (fst st')" by simp
  moreover have "{\<lparr>ep_ip = ip, ep_port = eh_port h\<rparr> |ip. ip \<in> host_ips dns ns (eh_host h)} \<union>
      allowed_pairs dns ns hs = allowed_pairs dns ns (h # hs)"
    by (auto simp: allowed_pairs_def)
  ultimately show ?case by (simp only:)
qed

text \<open>A successful resolution gives exactly the allowed pairs, each once, at most 128 of them.\<close>

lemma egress_want_pairs:
  assumes "egress_want dns c = Inr (want, ttl)" "dns_ok dns" "\<And>h. h \<in> set (cn_hosts c) \<Longrightarrow> length (eh_port h) \<le> 7"
  shows "set want = allowed_pairs dns (servers (cn_ns c)) (cn_hosts c)" "distinct want" "length want \<le> MAX_EG_IPS"
  using want_hosts_grows[OF assms(1)[unfolded egress_want_def] assms(2,3)] by (simp_all add: grows_def)

subsection \<open>What is installed\<close>

text \<open>The rules of interface \<open>idx\<close> are its accepts, in any order, above the three base rules.\<close>

definition allowlist :: "nat \<Rightarrow> egpair list \<Rightarrow> rule list \<Rightarrow> bool" where
  "allowlist idx eg ch \<longleftrightarrow>
     (\<exists>as. iface_rules idx ch = as @ rev (base_rules idx) \<and> mset as = mset (map (accept_rule idx) eg))"

definition pair_ok :: "egpair \<Rightarrow> bool" where
  "pair_ok e \<longleftrightarrow> inet_pton4 (ep_ip e) \<noteq> None \<and> port_ok (ep_port e)"

text \<open>A change that concerns interface \<open>idx\<close> only.\<close>

definition only_iface :: "nat \<Rightarrow> rule list \<Rightarrow> rule list \<Rightarrow> bool" where
  "only_iface idx ch ch' \<longleftrightarrow>
     (\<forall>j. j \<noteq> idx \<longrightarrow> iface_rules j ch' = iface_rules j ch) \<and> other_rules ch' = other_rules ch \<and>
     (veth_on_top ch \<longrightarrow> veth_on_top ch')"

lemma only_iface_refl [simp]: "only_iface idx ch ch"
  by (simp add: only_iface_def)

lemma only_iface_trans: "only_iface idx a b \<Longrightarrow> only_iface idx b c \<Longrightarrow> only_iface idx a c"
  by (simp add: only_iface_def)

lemma only_iface_insert: "rule_iface r = Some idx \<Longrightarrow> only_iface idx ch (r # ch)"
  by (auto simp: only_iface_def)

lemma only_iface_remove1: "rule_iface r = Some idx \<Longrightarrow> only_iface idx ch (remove1 r ch)"
proof -
  assume r: "rule_iface r = Some idx"
  have "r \<notin> set (iface_rules j ch)" if "j \<noteq> idx" for j using r that by (auto simp: iface_rules_def)
  moreover have "r \<notin> set (other_rules ch)" using r by (auto simp: other_rules_def)
  ultimately show ?thesis by (auto simp: only_iface_def veth_on_top_remove1 remove1_idem)
qed

lemma accept_rule_simps [simp]:
  "rule_iface (accept_rule idx e) = Some idx" "rule_ok (accept_rule idx e) \<longleftrightarrow> pair_ok e"
  "accept_rule idx e \<notin> set (base_rules idx)" "(accept_rule idx e = accept_rule idx f) = (e = f)"
  by (auto simp: accept_rule_def pair_ok_def base_rules_def)

lemma mset_swap_out: "i < length xs \<Longrightarrow> mset (butlast (xs[i := last xs])) = mset xs - {#xs ! i#}"
proof -
  assume i: "i < length xs"
  then obtain ys y where xs: "xs = ys @ [y]" by (cases xs rule: rev_cases) auto
  show ?thesis
  proof (cases "i < length ys")
    case True
    then have "mset (ys[i := y]) = add_mset y (mset ys - {#ys ! i#})" by (rule mset_update)
    moreover have "ys ! i \<in># mset ys" using True by simp
    ultimately show ?thesis using True
      by (simp add: xs list_update_append nth_append butlast_append)
  next
    case False
    then have "i = length ys" using i by (simp add: xs)
    then show ?thesis by (simp add: xs list_update_append nth_append)
  qed
qed

lemma swap_out_distinct:
  assumes "distinct xs" "i < length xs"
  shows "distinct (butlast (xs[i := last xs]))" "set (butlast (xs[i := last xs])) = set xs - {xs ! i}"
proof -
  have "mset (butlast (xs[i := last xs])) = mset (remove1 (xs ! i) xs)"
    using mset_swap_out[OF assms(2)] by simp
  then show "distinct (butlast (xs[i := last xs]))" "set (butlast (xs[i := last xs])) = set xs - {xs ! i}"
    using assms(1) mset_eq_imp_distinct_iff[of _ "remove1 (xs ! i) xs"] mset_eq_setD[of _ "remove1 (xs ! i) xs"]
    by auto
qed

lemma allowlist_delete:
  assumes "allowlist idx eg ch" "e \<in> set eg" "mset eg' = mset eg - {#e#}"
  shows "allowlist idx eg' (remove1 (accept_rule idx e) ch)"
proof -
  obtain as where as: "iface_rules idx ch = as @ rev (base_rules idx)" "mset as = mset (map (accept_rule idx) eg)"
    using assms(1) by (auto simp: allowlist_def)
  have mem: "accept_rule idx e \<in> set as" using arg_cong[OF as(2), of set_mset] assms(2) by simp
  have "mset (remove1 (accept_rule idx e) as) = mset (map (accept_rule idx) eg')"
    using assms(2) by (simp add: as(2) assms(3) image_mset_Diff)
  with as mem show ?thesis by (auto simp: allowlist_def remove1_append)
qed

lemma allowlist_insert:
  "allowlist idx eg ch \<Longrightarrow> allowlist idx (eg @ [e]) (accept_rule idx e # ch)"
proof -
  assume "allowlist idx eg ch"
  then obtain as where "iface_rules idx ch = as @ rev (base_rules idx)" "mset as = mset (map (accept_rule idx) eg)"
    by (auto simp: allowlist_def)
  then have "iface_rules idx (accept_rule idx e # ch) = (accept_rule idx e # as) @ rev (base_rules idx)"
    "mset (accept_rule idx e # as) = mset (map (accept_rule idx) (eg @ [e]))" by simp_all
  then show ?thesis unfolding allowlist_def by blast
qed

lemma drop_stale_correct:
  assumes "iptables_documented run chain" "drop_stale run idx want eg i h = (eg', h')"
    "\<And>e. e \<in> set eg \<Longrightarrow> pair_ok e" "distinct eg" "allowlist idx eg (chain h)" "set (take i eg) \<subseteq> set want"
  shows "set eg' = set eg \<inter> set want \<and> distinct eg' \<and> allowlist idx eg' (chain h') \<and> only_iface idx (chain h) (chain h')"
  using assms
proof (induction run idx want eg i h rule: drop_stale.induct)
  case (1 run idx want eg i h)
  note fw = "1.prems"(1) and eq = "1.prems"(2) and ok = "1.prems"(3) and dist = "1.prems"(4)
    and alw = "1.prems"(5) and pre = "1.prems"(6)
  consider "length eg \<le> i" | "i < length eg" "eg ! i \<in> set want" | "i < length eg" "eg ! i \<notin> set want" by linarith
  then show ?case
  proof cases
    case 1
    then have "eg' = eg" "h' = h" using eq by (simp_all add: drop_stale.simps)
    moreover have "set eg \<subseteq> set want" using pre 1 by simp
    ultimately show ?thesis using dist alw by auto
  next
    case 2
    then have "drop_stale run idx want eg (Suc i) h = (eg', h')" using eq by (simp add: drop_stale.simps[of run idx want eg i])
    moreover have "set (take (Suc i) eg) \<subseteq> set want" using pre 2 by (simp add: take_Suc_conv_app_nth)
    ultimately show ?thesis using "1.IH"(1) 2 fw ok dist alw by simp
  next
    case 3
    let ?eg = "butlast (eg[i := last eg])" and ?h = "snd (egress_accept run idx (eg ! i) False h)"
    have eq': "drop_stale run idx want ?eg i ?h = (eg', h')" using eq 3 by (simp add: drop_stale.simps[of run idx want eg i])
    have di: "distinct ?eg" and se: "set ?eg = set eg - {eg ! i}" using swap_out_distinct[OF dist 3(1)] by simp_all
    have "set (take i ?eg) \<subseteq> set want" using pre 3(1) by (simp add: butlast_conv_take take_take)
    moreover have ch: "chain ?h = remove1 (accept_rule idx (eg ! i)) (chain h)"
      using chain_Delete[OF fw, of "accept_rule idx (eg ! i)" h] ok 3(1) by (simp add: egress_accept_def)
    moreover have "allowlist idx ?eg (chain ?h)"
      unfolding ch using alw 3(1) mset_swap_out[OF 3(1)] by (intro allowlist_delete) simp_all
    ultimately have "set eg' = set ?eg \<inter> set want \<and> distinct eg' \<and> allowlist idx eg' (chain h') \<and>
        only_iface idx (chain ?h) (chain h')"
      using "1.IH"(2)[OF _ 3(2) fw eq'] 3(1) ok di se by simp
    moreover have "only_iface idx (chain h) (chain ?h)" unfolding ch by (simp add: only_iface_remove1)
    ultimately show ?thesis using 3(2) se by (auto intro: only_iface_trans)
  qed
qed

lemma add_missing_correct:
  assumes "iptables_documented run chain" "add_missing run idx ws eg f h = (f', eg', h')"
    "\<And>e. e \<in> set ws \<Longrightarrow> pair_ok e" "distinct eg" "allowlist idx eg (chain h)"
  shows "set eg \<subseteq> set eg' \<and> set eg' \<subseteq> set eg \<union> set ws \<and> distinct eg' \<and> allowlist idx eg' (chain h') \<and>
    only_iface idx (chain h) (chain h') \<and> f \<le> f' \<and>
    (f' = f \<longrightarrow> length eg' < MAX_EG_IPS \<longrightarrow> set ws \<subseteq> set eg')"
  using assms
proof (induction run idx ws eg f h rule: add_missing.induct)
  case (1 run idx eg f h)
  then show ?case by auto
next
  case (2 run idx w ws eg f h)
  note fw = "2.prems"(1) and eq = "2.prems"(2) and ok = "2.prems"(3) and dist = "2.prems"(4) and alw = "2.prems"(5)
  consider "MAX_EG_IPS \<le> length eg" | "length eg < MAX_EG_IPS" "w \<in> set eg" | "length eg < MAX_EG_IPS" "w \<notin> set eg" by linarith
  then show ?case
  proof cases
    case 1
    with eq dist alw show ?thesis by auto
  next
    case 2
    with eq "2.IH"(1) fw ok dist alw show ?thesis by auto
  next
    case 3
    obtain rc h1 where rc: "egress_accept run idx w True h = (rc, h1)" by (cases "egress_accept run idx w True h")
    have ch: "chain h1 = (if rc = 0 then accept_rule idx w # chain h else chain h)"
      using chain_Insert[OF fw, of "accept_rule idx w" h] ok rc by (simp add: egress_accept_def)
    show ?thesis
    proof (cases "rc = 0")
      case True
      have al: "allowlist idx (eg @ [w]) (chain h1)" by (simp add: ch True allowlist_insert alw)
      have "add_missing run idx ws (eg @ [w]) f h1 = (f', eg', h')" using eq 3 rc True by simp
      then have r: "set (eg @ [w]) \<subseteq> set eg' \<and> set eg' \<subseteq> set (eg @ [w]) \<union> set ws \<and> distinct eg' \<and>
          allowlist idx eg' (chain h') \<and> only_iface idx (chain h1) (chain h') \<and> f \<le> f' \<and>
          (f' = f \<longrightarrow> length eg' < MAX_EG_IPS \<longrightarrow> set ws \<subseteq> set eg')"
        using "2.IH"(3)[OF _ _ refl rc[symmetric]] 3 True fw ok dist al by simp
      moreover have "only_iface idx (chain h) (chain h1)" by (simp add: ch True only_iface_insert)
      ultimately show ?thesis by (auto intro: only_iface_trans)
    next
      case False
      have al: "allowlist idx eg (chain h1)" by (simp add: ch False alw)
      have "add_missing run idx ws eg (f + 1) h1 = (f', eg', h')" using eq 3 rc False by simp
      then have "set eg \<subseteq> set eg' \<and> set eg' \<subseteq> set eg \<union> set ws \<and> distinct eg' \<and>
          allowlist idx eg' (chain h') \<and> only_iface idx (chain h1) (chain h') \<and> f + 1 \<le> f'"
        using "2.IH"(2)[OF _ _ refl rc[symmetric]] 3 False fw ok dist al by simp
      with ch False show ?thesis by auto
    qed
  qed
qed

lemma subset_distinct_length:
  "set xs \<subseteq> set ys \<Longrightarrow> distinct xs \<Longrightarrow> length xs \<le> length ys"
  by (metis card_length card_mono distinct_card le_trans List.finite_set)

lemma egress_apply_correct:
  assumes fw: "iptables_documented run chain" and eq: "egress_apply run c want h = (failed, c', h')"
    and ok: "\<And>e. e \<in> set (cn_eg c) \<union> set want \<Longrightarrow> pair_ok e" and dist: "distinct (cn_eg c)"
    and alw: "allowlist (cn_idx c) (cn_eg c) (chain h)" and w: "distinct want" "length want \<le> MAX_EG_IPS"
  shows "set (cn_eg c') \<subseteq> set want" "distinct (cn_eg c')" "allowlist (cn_idx c) (cn_eg c') (chain h')"
    "only_iface (cn_idx c) (chain h) (chain h')" "failed = 0 \<Longrightarrow> set (cn_eg c') = set want"
    "set (cn_eg c) \<inter> set want \<subseteq> set (cn_eg c')" "c' = c\<lparr>cn_eg := cn_eg c'\<rparr>"
proof -
  obtain eg1 h1 where d: "drop_stale run (cn_idx c) want (cn_eg c) 0 h = (eg1, h1)"
    by (cases "drop_stale run (cn_idx c) want (cn_eg c) 0 h")
  obtain eg2 where a: "add_missing run (cn_idx c) want eg1 0 h1 = (failed, eg2, h')" and c': "c' = c\<lparr>cn_eg := eg2\<rparr>"
    using eq d by (auto simp: egress_apply_def split: prod.splits)
  have d': "set eg1 = set (cn_eg c) \<inter> set want" "distinct eg1" "allowlist (cn_idx c) eg1 (chain h1)"
      "only_iface (cn_idx c) (chain h) (chain h1)"
    using drop_stale_correct[OF fw d] ok dist alw by auto
  have a': "set eg1 \<subseteq> set eg2" "set eg2 \<subseteq> set eg1 \<union> set want" "distinct eg2" "allowlist (cn_idx c) eg2 (chain h')"
      "only_iface (cn_idx c) (chain h1) (chain h')" "failed = 0 \<longrightarrow> length eg2 < MAX_EG_IPS \<longrightarrow> set want \<subseteq> set eg2"
    using add_missing_correct[OF fw a] ok d' by auto
  show sub: "set (cn_eg c') \<subseteq> set want" using a' d' c' by auto
  show "distinct (cn_eg c')" "allowlist (cn_idx c) (cn_eg c') (chain h')" "c' = c\<lparr>cn_eg := cn_eg c'\<rparr>"
      "set (cn_eg c) \<inter> set want \<subseteq> set (cn_eg c')"
    using a' d' c' by simp_all
  show "only_iface (cn_idx c) (chain h) (chain h')" using d'(4) a'(5) by (rule only_iface_trans)
  show "set (cn_eg c') = set want" if "failed = 0"
  proof (cases "length eg2 < MAX_EG_IPS")
    case True
    with that a' sub c' show ?thesis by auto
  next
    case False
    then have "card (set want) \<le> card (set eg2)" using w a'(3) by (simp add: distinct_card)
    then show ?thesis using sub c' card_seteq[of "set want" "set eg2"] by simp
  qed
qed

subsection \<open>What an allowlist lets through\<close>

definition pair_matches :: "egpair \<Rightarrow> packet \<Rightarrow> bool" where
  "pair_matches e p \<longleftrightarrow> pk_proto p = TCP \<and> inet_pton4 (ep_ip e) = Some (pk_dst p) \<and> val (ep_port e) = pk_dport p"

lemma chain_hit_accepts:
  assumes "set as \<subseteq> range (accept_rule idx)" "pk_in p = Some idx"
  shows "chain_hit fr as p = (if \<exists>e. accept_rule idx e \<in> set as \<and> pair_matches e p then Some ACCEPT else None)"
  using assms
proof (induction as)
  case (Cons r as)
  then obtain e where r: "r = accept_rule idx e" by auto
  have "rule_hit fr r p = (if pair_matches e p then Some ACCEPT else None)"
    using assms(2) by (simp add: r accept_rule_def pair_matches_def)
  with Cons r show ?case by auto
qed simp

text \<open>A packet entering on an interface with an allowlist is accepted when it matches an installed
  pair, is a DNS query, or belongs to an established connection, and is dropped otherwise.\<close>

definition egress_verdict :: "egpair set \<Rightarrow> packet \<Rightarrow> action" where
  "egress_verdict E p =
     (if (\<exists>e \<in> E. pair_matches e p) \<or> (pk_proto p = UDP \<and> pk_dport p = 53) \<or> pk_estab p then ACCEPT else DROP)"

lemma allowlist_verdict:
  assumes "allowlist idx eg ch" "veth_on_top ch" "pk_in p = Some idx"
  shows "chain_hit fr ch p = Some (egress_verdict (set eg) p)"
proof -
  obtain as where as: "iface_rules idx ch = as @ rev (base_rules idx)" "mset as = mset (map (accept_rule idx) eg)"
    using assms(1) by (auto simp: allowlist_def)
  have set: "set as = accept_rule idx ` set eg" using arg_cong[OF as(2), of set_mset] by simp
  then have "set as \<subseteq> range (accept_rule idx)" by blast
  with set have "chain_hit fr as p = (if \<exists>e \<in> set eg. pair_matches e p then Some ACCEPT else None)"
    using chain_hit_accepts[of as idx p fr] assms(3) by (simp add: image_iff Bex_def)
  then show ?thesis
    using assms(3) unfolding chain_hit_layout[OF assms(2,3)] as(1)
    by (simp add: chain_hit_append base_rules_def egress_verdict_def)
qed

end
