(* ===== verification/Netd.thy ===== *)
theory Netd
  imports Egress Bitmap64
begin

text \<open>
  Provisioning of cell networks (\<^verbatim>\<open>src/src/agentlsm.c\<close>): the state \<^verbatim>\<open>g_netmap\<close>, \<^verbatim>\<open>g_nets\<close>,
  \<^verbatim>\<open>g_nat_on\<close>, \<^verbatim>\<open>g_fwd_save\<close>, and \<^verbatim>\<open>nat_ensure\<close>, \<^verbatim>\<open>nat_teardown\<close>, \<^verbatim>\<open>ipfwd_recover\<close>,
  \<^verbatim>\<open>net_recover_startup\<close>, \<^verbatim>\<open>net_up\<close>, \<^verbatim>\<open>net_down\<close> and \<^verbatim>\<open>net_cleanup_all\<close>, with the reply policy
  of \<^verbatim>\<open>src/src/netup_reply.h\<close>. The host is the parameter of theory \<open>Firewall\<close>, extended with what
  the daemon reads: \<^verbatim>\<open>ip_forward\<close> and its saved copy (\<open>None\<close> when the file cannot be opened,
  \<open>Some None\<close> when it holds no number) and the clock. The resolver's answers are an argument of each
  operation that asks it.
\<close>

record 'h env =
  run :: "'h runner"
  read_fwd :: "'h \<Rightarrow> int option option"
  read_saved :: "'h \<Rightarrow> int option option"
  now_of :: "'h \<Rightarrow> int"

record netd =
  g_netmap :: "u64 list"
  g_nets :: "cell_net list"
  g_nat_on :: bool
  g_fwd_save :: int

definition free_net :: cell_net where
  "free_net = \<lparr>cn_pid = 0, cn_idx = 0, cn_eg = [], cn_hosts = [], cn_ns = [], cn_next_refresh = 0\<rparr>"

definition netd_init :: netd where
  "netd_init = \<lparr>g_netmap = replicate 256 0, g_nets = replicate 64 free_net, g_nat_on = False, g_fwd_save = -1\<rparr>"

definition nl :: cstr where "nl = [CHR 0x0A]"

subsection \<open>NAT and \<^verbatim>\<open>ip_forward\<close>\<close>

definition nat_rules :: "rule list" where
  "nat_rules = [SrcAccept, DstAccept, LinkLocalDrop]"

definition nat_ensure :: "'h env \<Rightarrow> netd \<Rightarrow> 'h \<Rightarrow> netd \<times> 'h" where
  "nat_ensure E d h =
     (if g_nat_on d then (d, h)
      else
        let save = (case read_fwd E h of None \<Rightarrow> g_fwd_save d | Some None \<Rightarrow> -1 | Some (Some v) \<Rightarrow> v);
            h1 = (if save \<ge> 0 then exec (run E) [SaveFwd save] h else h);
            h2 = exec (run E) ([WriteFwd 1, Sh NatEnsure] @ map (\<lambda>r. Sh (Ensure r)) nat_rules) h1
        in (d\<lparr>g_fwd_save := save, g_nat_on := True\<rparr>, h2))"

definition nat_teardown :: "'h env \<Rightarrow> netd \<Rightarrow> 'h \<Rightarrow> netd \<times> 'h" where
  "nat_teardown E d h =
     (if \<not> g_nat_on d then (d, h)
      else
        let h1 = exec (run E) (Sh NatDelete # map (\<lambda>r. Sh (Delete r)) nat_rules) h;
            h2 = (if g_fwd_save d \<ge> 0 then exec (run E) [WriteFwd (g_fwd_save d)] h1 else h1)
        in (d\<lparr>g_nat_on := False\<rparr>, exec (run E) [UnlinkSave] h2))"

definition ipfwd_recover :: "'h env \<Rightarrow> 'h \<Rightarrow> 'h" where
  "ipfwd_recover E h =
     (case read_saved E h of None \<Rightarrow> h
      | Some v \<Rightarrow>
          let h1 = (case v of Some n \<Rightarrow> if n \<ge> 0 then exec (run E) [WriteFwd n] h else h | None \<Rightarrow> h)
          in exec (run E) [UnlinkSave] h1)"

definition net_recover_startup :: "'h env \<Rightarrow> 'h \<Rightarrow> 'h" where
  "net_recover_startup E h =
     ipfwd_recover E (exec (run E)
       ([Sh ScrubLinks, Sh ScrubRules, Sh NatDelete] @ map (\<lambda>r. Sh (Delete r)) nat_rules) h)"

subsection \<open>Replies\<close>

definition egress_no_resolv :: "bool \<Rightarrow> nat \<Rightarrow> bool" where
  "egress_no_resolv needs_dns n_ns \<longleftrightarrow> needs_dns \<and> n_ns = 0"

text \<open>A named \<^verbatim>\<open>ERR egress_*\<close> of \<^verbatim>\<open>net_up\<close> is kept; only an unnamed failure becomes \<^verbatim>\<open>ERR netup\<close>.\<close>

definition netup_reply :: "bool \<Rightarrow> bool \<Rightarrow> int \<Rightarrow> cstr \<Rightarrow> cstr" where
  "netup_reply parsed too_many rc rep =
     (if \<not> parsed then ''ERR netup'' @ nl
      else if too_many then ''ERR egress_too_many_hosts'' @ nl
      else if rc \<noteq> 0 \<and> rep = [] then ''ERR netup'' @ nl
      else rep)"

subsection \<open>Bringing a cell up\<close>

definition net_link :: "'h env \<Rightarrow> nat \<Rightarrow> int \<Rightarrow> 'h \<Rightarrow> bool \<times> 'h" where
  "net_link E idx pid h =
     (let b = idx * 4;
          (rc, h1) = run E (Sh (LinkAdd True idx)) h;
          (rc, h2) = (if rc \<noteq> 0
                      then run E (Sh (LinkAdd False idx)) (exec (run E) [Sh (LinkDel idx), Sh (Scrub idx)] h1)
                      else (0, h1))
      in if rc \<noteq> 0 then (False, h2)
         else let (rc, h3) = run E (Sh (LinkNetns idx pid)) h2 in
         if rc \<noteq> 0 then (False, h3)
         else let (rc, h4) = run E (Sh (AddrAdd ((b + 1) div 256) ((b + 1) mod 256) idx)) h3 in
         if rc \<noteq> 0 then (False, h4)
         else let (rc, h5) = run E (Sh (LinkUp idx)) h4 in (rc = 0, h5))"

definition needs_dns :: "eghost list \<Rightarrow> bool" where
  "needs_dns hosts \<longleftrightarrow> list_ex (\<lambda>h. inet_pton4 (eh_host h) = None) hosts"

text \<open>The allowlist of a new cell: the reply of the failure if any, the slot and the host.\<close>

definition net_egress :: "'h env \<Rightarrow> dns \<Rightarrow> cell_net \<Rightarrow> bool \<Rightarrow> 'h \<Rightarrow> cstr option \<times> cell_net \<times> 'h" where
  "net_egress E dns c wanted h =
     (if \<not> wanted then (None, c, h)
      else
        let h1 = egress_base (run E) (cn_idx c) True h in
        case egress_want dns c of
          Inl TooManyIps \<Rightarrow> (Some (''ERR egress_too_many_ips'' @ nl), c, h1)
        | Inl (Unresolved bad) \<Rightarrow> (Some (snprintf_s 128 (''ERR egress_unresolved '' @ bad @ nl)), c, h1)
        | Inr (want, ttl) \<Rightarrow>
            if want = [] then (Some (''ERR egress_unresolved '' @ nl), c, h1)
            else let (failed, c', h2) = egress_apply (run E) c want h1 in
                 if failed > 0 then (Some (''ERR egress_install_failed'' @ nl), c', h2)
                 else (None, c'\<lparr>cn_next_refresh := refresh_at (now_of E h2) ttl\<rparr>, h2))"

definition clear_net :: "cell_net \<Rightarrow> cell_net" where
  "clear_net c = c\<lparr>cn_pid := 0, cn_eg := [], cn_hosts := [], cn_ns := [], cn_next_refresh := 0\<rparr>"

definition scrub_effects :: "nat \<Rightarrow> egpair list \<Rightarrow> bool \<Rightarrow> host_effect list" where
  "scrub_effects idx eg base =
     map (\<lambda>r. Sh (Delete r)) (map (accept_rule idx) eg @ (if base then base_rules idx else [])) @ [Sh (LinkDel idx)]"

definition net_up_fail :: "'h env \<Rightarrow> nat \<Rightarrow> nat \<Rightarrow> netd \<Rightarrow> 'h \<Rightarrow> netd \<times> 'h" where
  "net_up_fail E slot idx d h =
     (let c = g_nets d ! slot
      in (d\<lparr>g_netmap := bm_clear (g_netmap d) idx, g_nets := (g_nets d)[slot := clear_net c]\<rparr>,
          exec (run E) (scrub_effects idx (cn_eg c) True) h))"

definition ok_reply :: "cell_net \<Rightarrow> cstr" where
  "ok_reply c =
     (let idx = cn_idx c; b = idx * 4
      in ''OK vethc'' @ dec idx @ '' 10.200.'' @ dec ((b + 2) div 256) @ ''.'' @ dec ((b + 2) mod 256) @
         '' 10.200.'' @ dec ((b + 1) div 256) @ ''.'' @ dec ((b + 1) mod 256) @
         '' '' @ dec (length (cn_hosts c)) @ '' '' @ dec (length (cn_eg c)) @ nl)"

definition cut_host :: "eghost \<Rightarrow> eghost" where
  "cut_host h = \<lparr>eh_host = snprintf_s 128 (eh_host h), eh_port = snprintf_s 8 (eh_port h)\<rparr>"

definition net_up :: "'h env \<Rightarrow> dns \<Rightarrow> netd \<Rightarrow> 'h \<Rightarrow> int \<Rightarrow> eghost list \<Rightarrow> cstr list \<Rightarrow> int \<times> cstr \<times> netd \<times> 'h" where
  "net_up E dns d h pid hosts nss =
     (case find (\<lambda>i. cn_pid (g_nets d ! i) = 0) [0..<64] of None \<Rightarrow> (-1, [], d, h)
      | Some slot \<Rightarrow>
     (case find (\<lambda>i. \<not> bm_test (g_netmap d) i) [0..<16384] of None \<Rightarrow> (-1, [], d, h)
      | Some idx \<Rightarrow>
        let c0 = (g_nets d ! slot)\<lparr>cn_idx := idx, cn_eg := [], cn_hosts := [], cn_ns := [], cn_next_refresh := 0\<rparr>;
            d1 = d\<lparr>g_netmap := bm_set (g_netmap d) idx, g_nets := (g_nets d)[slot := c0]\<rparr>;
            (linked, h1) = net_link E idx pid h
        in if \<not> linked then let (d', h') = net_up_fail E slot idx d1 h1 in (-1, [], d', h')
           else
             let (d2, h2) = nat_ensure E d1 h1;
                 c = c0\<lparr>cn_pid := pid, cn_hosts := map cut_host (take MAX_EGRESS hosts),
                        cn_ns := map (snprintf_s 64) (take MAX_NS nss)\<rparr>;
                 d3 = d2\<lparr>g_nets := (g_nets d2)[slot := c]\<rparr>
             in if egress_no_resolv (needs_dns (cn_hosts c)) (length (cn_ns c)) then
                  let (d', h') = net_up_fail E slot idx d3 h2 in (-1, ''ERR egress_no_resolv'' @ nl, d', h')
                else
                  let (err, c', h3) = net_egress E dns c (hosts \<noteq> []) h2;
                      d4 = d3\<lparr>g_nets := (g_nets d3)[slot := c']\<rparr>
                  in case err of
                       Some rep \<Rightarrow> let (d', h') = net_up_fail E slot idx d4 h3 in (-1, rep, d', h')
                     | None \<Rightarrow> (0, snprintf_s 128 (ok_reply c'), d4, h3)))"

subsection \<open>Taking cells down\<close>

definition release :: "'h env \<Rightarrow> nat \<Rightarrow> netd \<times> 'h \<Rightarrow> netd \<times> 'h" where
  "release E i = (\<lambda>(d, h).
     let c = g_nets d ! i
     in (d\<lparr>g_netmap := bm_clear (g_netmap d) (cn_idx c), g_nets := (g_nets d)[i := clear_net c]\<rparr>,
         exec (run E) (scrub_effects (cn_idx c) (cn_eg c) (cn_eg c \<noteq> [])) h))"

definition net_down :: "'h env \<Rightarrow> int \<Rightarrow> netd \<times> 'h \<Rightarrow> netd \<times> 'h" where
  "net_down E pid s = foldl (\<lambda>(d, h) i. if cn_pid (g_nets d ! i) = pid then release E i (d, h) else (d, h)) s [0..<64]"

text \<open>\<^verbatim>\<open>net_cleanup_all\<close> leaves \<open>next_refresh\<close> alone, which nothing reads in a free slot.\<close>

definition cleanup_slot :: "'h env \<Rightarrow> netd \<times> 'h \<Rightarrow> nat \<Rightarrow> netd \<times> 'h" where
  "cleanup_slot E = (\<lambda>(d, h) i.
     let c = g_nets d ! i in
     if cn_pid c = 0 then (d, h)
     else let (d', h') = release E i (d, h)
          in (d'\<lparr>g_nets := (g_nets d')[i := (clear_net c)\<lparr>cn_next_refresh := cn_next_refresh c\<rparr>]\<rparr>, h'))"

definition net_cleanup_all :: "'h env \<Rightarrow> netd \<times> 'h \<Rightarrow> netd \<times> 'h" where
  "net_cleanup_all E s = (let (d, h) = foldl (cleanup_slot E) s [0..<64] in nat_teardown E d h)"

end
