(* ===== verification/Netd_Safety.thy ===== *)
theory Netd_Safety
  imports Netd
begin

text \<open>
  The invariant of the daemon's network state and of the \<open>FORWARD\<close> chain, that every operation
  keeps it, and what follows for the packets of a cell.
\<close>

subsection \<open>The invariant\<close>

definition host_ok :: "eghost \<Rightarrow> bool" where
  "host_ok h \<longleftrightarrow> port_ok (eh_port h) \<and> length (eh_port h) \<le> 7"

text \<open>A live cell without an allowlist has no rule; one with an allowlist has at least one accept and
  exactly its rules.\<close>

definition cell_ok :: "rule list \<Rightarrow> cell_net \<Rightarrow> bool" where
  "cell_ok ch c \<longleftrightarrow> cn_idx c < 16384 \<and>
     (if cn_hosts c = [] then cn_eg c = [] \<and> iface_rules (cn_idx c) ch = []
      else cn_eg c \<noteq> [] \<and> distinct (cn_eg c) \<and> list_all pair_ok (cn_eg c) \<and>
        list_all host_ok (cn_hosts c) \<and> allowlist (cn_idx c) (cn_eg c) ch)"

definition live :: "netd \<Rightarrow> nat set" where
  "live d = {i. i < 64 \<and> cn_pid (g_nets d ! i) \<noteq> 0}"

definition idx_of :: "netd \<Rightarrow> nat \<Rightarrow> nat" where
  "idx_of d i = cn_idx (g_nets d ! i)"

text \<open>Live cells have different networks, the bitmap holds exactly theirs, interface rules are on top
  and belong to live cells, and NAT is on when a cell lives.\<close>

definition net_inv :: "netd \<Rightarrow> rule list \<Rightarrow> bool" where
  "net_inv d ch \<longleftrightarrow> length (g_netmap d) = 256 \<and> length (g_nets d) = 64 \<and>
     (\<forall>i \<in> live d. cell_ok ch (g_nets d ! i)) \<and> inj_on (idx_of d) (live d) \<and>
     bm_members (g_netmap d) = idx_of d ` live d \<and> veth_on_top ch \<and>
     (\<forall>j. j \<notin> idx_of d ` live d \<longrightarrow> iface_rules j ch = []) \<and> (\<not> g_nat_on d \<longrightarrow> live d = {})"

lemma cell_ok_cong: "iface_rules (cn_idx c) ch' = iface_rules (cn_idx c) ch \<Longrightarrow> cell_ok ch' c = cell_ok ch c"
  by (simp add: cell_ok_def allowlist_def)

lemma net_inv_init: "list_all (\<lambda>r. rule_iface r = None) ch \<Longrightarrow> net_inv netd_init ch"
proof -
  assume ch: "list_all (\<lambda>r. rule_iface r = None) ch"
  have "live netd_init = {}" by (simp add: live_def netd_init_def free_net_def)
  moreover have "iface_rules j ch = []" for j using ch by (auto simp: iface_rules_def list_all_iff filter_empty_conv)
  ultimately show ?thesis using veth_on_top_others[OF ch] by (simp add: net_inv_def) (simp add: netd_init_def)
qed

lemma net_inv_cong:
  assumes "net_inv d ch" "length (g_netmap d') = 256" "length (g_nets d') = 64"
    "bm_members (g_netmap d') = bm_members (g_netmap d)"
    "live d' = live d" "\<And>i. i \<in> live d \<Longrightarrow> g_nets d' ! i = g_nets d ! i"
    "\<And>j. iface_rules j ch' = iface_rules j ch" "veth_on_top ch'" "g_nat_on d \<Longrightarrow> g_nat_on d'"
  shows "net_inv d' ch'"
proof -
  have idx: "\<And>i. i \<in> live d \<Longrightarrow> idx_of d' i = idx_of d i" using assms(6) by (simp add: idx_of_def)
  then have im: "idx_of d' ` live d = idx_of d ` live d" by (simp cong: image_cong)
  have inj: "inj_on (idx_of d') (live d) = inj_on (idx_of d) (live d)" using idx by (rule inj_on_cong)
  have "\<forall>i \<in> live d. cell_ok ch' (g_nets d' ! i)"
    using assms(1,6,7) cell_ok_cong[of _ ch' ch] by (simp add: net_inv_def)
  then show ?thesis using assms inj im by (auto simp: net_inv_def)
qed

text \<open>Adding and removing one live cell.\<close>

lemma net_inv_add:
  assumes inv: "net_inv d ch" and slot: "slot < 64" "slot \<notin> live d"
    and idx: "idx < 16384" "idx \<notin> bm_members (g_netmap d)"
    and c: "cn_idx c = idx" "cn_pid c \<noteq> 0" "cell_ok ch' c"
    and ch: "\<And>j. j \<noteq> idx \<Longrightarrow> iface_rules j ch' = iface_rules j ch" "veth_on_top ch'"
    and d': "g_netmap d' = bm_set (g_netmap d) idx" "g_nets d' = (g_nets d)[slot := c]" "g_nat_on d'"
  shows "net_inv d' ch'"
proof -
  have len: "length (g_nets d) = 64" "length (g_netmap d) = 256" using inv by (simp_all add: net_inv_def)
  have lv: "live d' = insert slot (live d)" using slot c(2) len by (auto simp: live_def d'(2) nth_list_update)
  have same: "g_nets d' ! i = g_nets d ! i" if "i \<in> live d" for i
    using that slot(2) by (cases "i = slot") (simp_all add: d'(2))
  have io: "idx_of d' slot = idx" "\<And>i. i \<in> live d \<Longrightarrow> idx_of d' i = idx_of d i"
    using slot(1) len c(1) same by (auto simp: idx_of_def d'(2))
  have im: "idx_of d' ` live d' = insert idx (idx_of d ` live d)" using io by (simp add: lv cong: image_cong)
  have fresh: "idx \<notin> idx_of d ` live d" using inv idx(2) by (simp add: net_inv_def)
  have "inj_on (idx_of d') (live d') = inj_on (idx_of d') (insert slot (live d))" by (simp add: lv)
  also have "\<dots>" using inv fresh io slot(2) inj_on_cong[of "live d" "idx_of d'" "idx_of d"]
    by (auto simp: net_inv_def inj_on_insert cong: image_cong)
  finally have inj: "inj_on (idx_of d') (live d')" .
  have "cell_ok ch' (g_nets d' ! i)" if "i \<in> live d'" for i
  proof (cases "i = slot")
    case True
    then show ?thesis using c(3) slot(1) len by (simp add: d'(2))
  next
    case False
    with that have i: "i \<in> live d" by (simp add: lv)
    then have "cn_idx (g_nets d ! i) \<noteq> idx" using fresh by (auto simp: idx_of_def)
    then show ?thesis using inv i ch(1) cell_ok_cong[of "g_nets d ! i" ch' ch] same[OF i] by (simp add: net_inv_def)
  qed
  moreover have "bm_members (g_netmap d') = idx_of d' ` live d'"
    using inv words.members_st[of idx "g_netmap d"] idx(1) len by (simp add: im d'(1) net_inv_def)
  ultimately show ?thesis using inv inj ch d' len im by (simp add: net_inv_def)
qed

lemma net_inv_remove:
  assumes inv: "net_inv d ch" and i: "i \<in> live d"
    and ch: "\<And>j. j \<noteq> idx_of d i \<Longrightarrow> iface_rules j ch' = iface_rules j ch" "iface_rules (idx_of d i) ch' = []" "veth_on_top ch'"
    and d': "g_netmap d' = bm_clear (g_netmap d) (idx_of d i)" "g_nets d' = (g_nets d)[i := c]" "cn_pid c = 0" "g_nat_on d' = g_nat_on d"
  shows "net_inv d' ch'" "live d' = live d - {i}" "\<And>k. k \<noteq> i \<Longrightarrow> g_nets d' ! k = g_nets d ! k"
proof -
  have len: "length (g_nets d) = 64" "length (g_netmap d) = 256" using inv by (simp_all add: net_inv_def)
  show same: "g_nets d' ! k = g_nets d ! k" if "k \<noteq> i" for k using that by (simp add: d'(2))
  have "i < 64" using i by (simp add: live_def)
  then show lv: "live d' = live d - {i}" using d'(3) len
    by (auto simp: live_def d'(2) nth_list_update)
  have inj: "inj_on (idx_of d) (live d)" using inv by (simp add: net_inv_def)
  have io: "\<And>k. k \<in> live d' \<Longrightarrow> idx_of d' k = idx_of d k" using same by (simp add: idx_of_def lv)
  have im: "idx_of d' ` live d' = idx_of d ` live d - {idx_of d i}"
  proof -
    have "idx_of d' ` live d' = idx_of d ` (live d - {i})" using io lv by (intro image_cong) auto
    also have "\<dots> = idx_of d ` live d - idx_of d ` {i}"
      using i by (intro inj_on_image_set_diff[OF inj]) auto
    finally show ?thesis by simp
  qed
  have inj': "inj_on (idx_of d') (live d')"
    using inj_on_cong[of "live d'" "idx_of d'" "idx_of d"] io inj_on_subset[OF inj] by (auto simp: lv)
  have lt: "idx_of d i < 16384" using inv i by (auto simp: net_inv_def cell_ok_def idx_of_def)
  have "cell_ok ch' (g_nets d' ! k)" if "k \<in> live d'" for k
  proof -
    have k: "k \<in> live d" "k \<noteq> i" using that by (auto simp: lv)
    then have "cn_idx (g_nets d ! k) \<noteq> idx_of d i" using inj_onD[OF inj, of k i] i by (auto simp: idx_of_def)
    then show ?thesis using inv k ch(1) cell_ok_cong[of "g_nets d ! k" ch' ch] same by (simp add: net_inv_def)
  qed
  moreover have "bm_members (g_netmap d') = idx_of d' ` live d'"
    using inv words.members_cl[of "idx_of d i" "g_netmap d"] lt len by (simp add: im d'(1) net_inv_def)
  moreover have "iface_rules j ch' = []" if "j \<notin> idx_of d' ` live d'" for j
    using that inv ch(1,2) by (cases "j = idx_of d i") (auto simp: im net_inv_def)
  moreover have "live d' = {}" if "\<not> g_nat_on d'" using that inv d'(4) by (simp add: net_inv_def lv)
  ultimately show "net_inv d' ch'" using inj' ch(3) d'(1,2) len by (simp add: net_inv_def)
qed

subsection \<open>Effects on the chain\<close>

lemma exec_deletes:
  assumes "iptables_documented rn chain" "\<forall>r \<in> set rs. rule_ok r"
  shows "chain (exec rn (map (\<lambda>r. Sh (Delete r)) rs) h) = fold remove1 rs (chain h)"
  using assms(2) by (induction rs arbitrary: h) (simp_all add: chain_Delete[OF assms(1)])

lemma exec_ensures:
  assumes "iptables_documented rn chain" "\<forall>r \<in> set rs. rule_ok r"
  shows "\<exists>gs. chain (exec rn (map (\<lambda>r. Sh (Ensure r)) rs) h) = gs @ chain h \<and> set gs \<subseteq> set rs"
  using assms(2)
proof (induction rs arbitrary: h)
  case (Cons r rs)
  let ?h = "snd (rn (Sh (Ensure r)) h)"
  obtain gs where gs: "chain (exec rn (map (\<lambda>r. Sh (Ensure r)) rs) ?h) = gs @ chain ?h" "set gs \<subseteq> set rs"
    using Cons.IH[of ?h] Cons.prems by auto
  have "chain ?h = chain h \<or> chain ?h = r # chain h"
    using chain_Ensure[OF assms(1), of r h] Cons.prems by simp
  then show ?case
  proof
    assume "chain ?h = chain h"
    with gs show ?thesis by auto
  next
    assume "chain ?h = r # chain h"
    with gs show ?thesis by (intro exI[of _ "gs @ [r]"]) auto
  qed
qed simp

lemma mset_fold_remove1: "mset (fold remove1 rs xs) = mset xs - mset rs"
  by (induction rs arbitrary: xs) simp_all

lemma iface_rules_fold_remove1: "iface_rules j (fold remove1 rs ch) = fold remove1 rs (iface_rules j ch)"
  by (induction rs arbitrary: ch) simp_all

lemma only_iface_fold_remove1:
  "\<forall>r \<in> set rs. rule_iface r = Some idx \<Longrightarrow> only_iface idx ch (fold remove1 rs ch)"
proof (induction rs arbitrary: ch)
  case (Cons r rs)
  then have "only_iface idx ch (remove1 r ch)" "only_iface idx (remove1 r ch) (fold remove1 rs (remove1 r ch))"
    by (simp_all add: only_iface_remove1)
  then show ?case by (simp add: only_iface_trans)
qed simp

lemma base_rules_simps:
  "\<forall>r \<in> set (base_rules idx). rule_iface r = Some idx" "\<forall>r \<in> set (base_rules idx). rule_ok r"
  by (simp_all add: base_rules_def)

text \<open>Scrubbing removes the listed accepts and, if asked, the base rules; nothing of another interface.\<close>

lemma scrub_effects_chain:
  assumes fw: "iptables_documented rn chain" and ok: "list_all pair_ok eg"
  shows "only_iface idx (chain h) (chain (exec rn (scrub_effects idx eg base) h))"
    "mset (iface_rules idx (chain (exec rn (scrub_effects idx eg base) h))) =
       mset (iface_rules idx (chain h)) - mset (map (accept_rule idx) eg @ (if base then base_rules idx else []))"
proof -
  let ?rs = "map (accept_rule idx) eg @ (if base then base_rules idx else [])"
  have "\<forall>r \<in> set ?rs. rule_ok r" using ok base_rules_simps(2) by (auto simp: list_all_iff)
  then have ch: "chain (exec rn (scrub_effects idx eg base) h) = fold remove1 ?rs (chain h)"
    unfolding scrub_effects_def using exec_deletes[OF fw, of ?rs h] by (simp add: chain_same[OF fw])
  show "only_iface idx (chain h) (chain (exec rn (scrub_effects idx eg base) h))"
    unfolding ch using base_rules_simps(1) by (intro only_iface_fold_remove1) auto
  show "mset (iface_rules idx (chain (exec rn (scrub_effects idx eg base) h))) = mset (iface_rules idx (chain h)) - mset ?rs"
    unfolding ch iface_rules_fold_remove1 by (rule mset_fold_remove1)
qed

lemma scrub_all_chain:
  assumes "iptables_documented rn chain" "list_all pair_ok eg"
    "iface_rules idx (chain h) = [] \<or> allowlist idx eg (chain h)"
  shows "iface_rules idx (chain (exec rn (scrub_effects idx eg True) h)) = []"
proof -
  have "mset (iface_rules idx (chain h)) \<subseteq># mset (map (accept_rule idx) eg @ base_rules idx)"
    using assms(3) by (auto simp: allowlist_def)
  then have "mset (iface_rules idx (chain (exec rn (scrub_effects idx eg True) h))) = {#}"
    unfolding scrub_effects_chain(2)[OF assms(1,2)] by (simp add: Diff_eq_empty_iff_mset)
  then show ?thesis by simp
qed

lemma net_link_chain:
  assumes fw: "iptables_documented (run E) chain" and none: "iface_rules idx (chain h) = []"
    and eq: "net_link E idx pid h = (linked, h')"
  shows "chain h' = chain h"
proof -
  have "filter (\<lambda>r. rule_iface r \<noteq> Some idx) (chain h) = chain h"
    using none by (auto simp: iface_rules_def filter_empty_conv filter_id_conv)
  then have "chain (snd (net_link E idx pid h)) = chain h"
    unfolding net_link_def Let_def case_prod_beta
    by (simp add: chain_same[OF fw] chain_Scrub[OF fw])
  with eq show ?thesis by simp
qed

lemma nat_ensure_chain:
  assumes fw: "iptables_documented (run E) chain" and eq: "nat_ensure E d h = (d', h')"
    and top: "veth_on_top (chain h)" and off: "\<not> g_nat_on d \<Longrightarrow> list_all (\<lambda>r. rule_iface r = None) (chain h)"
  shows "\<And>j. iface_rules j (chain h') = iface_rules j (chain h)" "veth_on_top (chain h')"
    "g_nets d' = g_nets d" "g_netmap d' = g_netmap d" "g_nat_on d'"
proof -
  have "(\<forall>j. iface_rules j (chain h') = iface_rules j (chain h)) \<and> veth_on_top (chain h') \<and> g_nets d' = g_nets d \<and>
    g_netmap d' = g_netmap d \<and> g_nat_on d'"
  proof (cases "g_nat_on d")
    case True
    with eq top show ?thesis by (auto simp: nat_ensure_def)
  next
    case False
    have ok: "\<forall>r \<in> set nat_rules. rule_ok r" "\<forall>r \<in> set nat_rules. rule_iface r = None" by (simp_all add: nat_rules_def)
    define h0 where "h0 = (let save = (case read_fwd E h of None \<Rightarrow> g_fwd_save d | Some None \<Rightarrow> -1 | Some (Some v) \<Rightarrow> v)
      in if save \<ge> 0 then exec (run E) [SaveFwd save] h else h)"
    define h1 where "h1 = exec (run E) [WriteFwd 1, Sh NatEnsure] h0"
    have h1: "chain h1 = chain h" "h' = exec (run E) (map (\<lambda>r. Sh (Ensure r)) nat_rules) h1"
      using eq False by (simp_all add: nat_ensure_def Let_def chain_same[OF fw] h0_def h1_def)
    obtain gs where gs: "chain h' = gs @ chain h" "set gs \<subseteq> set nat_rules"
      using exec_ensures[OF fw ok(1), of h1] h1 by auto
    then have none: "list_all (\<lambda>r. rule_iface r = None) gs" using ok(2) by (auto simp: list_all_iff)
    then have "iface_rules j gs = []" for j by (auto simp: iface_rules_def list_all_iff filter_empty_conv)
    then have "iface_rules j (chain h') = iface_rules j (chain h)" for j by (simp add: gs iface_rules_def)
    moreover have "veth_on_top (chain h')" using none off[OF False] gs by (intro veth_on_top_others) simp
    ultimately show ?thesis using eq False by (auto simp: nat_ensure_def Let_def)
  qed
  then show "\<And>j. iface_rules j (chain h') = iface_rules j (chain h)" "veth_on_top (chain h')"
    "g_nets d' = g_nets d" "g_netmap d' = g_netmap d" "g_nat_on d'" by blast+
qed

subsection \<open>Bringing a cell up\<close>

text \<open>The base rules of an interface can be inserted.\<close>

definition base_installs :: "'h runner \<Rightarrow> bool" where
  "base_installs rn \<longleftrightarrow> (\<forall>idx h. \<forall>r \<in> set (base_rules idx). fst (rn (Sh (Insert r)) h) = 0)"

lemma egress_base_chain:
  assumes "iptables_documented rn chain" "base_installs rn"
  shows "chain (egress_base rn idx True h) = rev (base_rules idx) @ chain h"
  using assms(2) by (simp add: egress_base_def base_rules_def base_installs_def chain_Insert[OF assms(1)])

lemma allowed_pairs_ok:
  assumes "dns_ok dns" "list_all host_ok hosts" "e \<in> allowed_pairs dns ns hosts"
  shows "pair_ok e"
proof -
  obtain h ip where e: "e = \<lparr>ep_ip = ip, ep_port = eh_port h\<rparr>" "h \<in> set hosts" "ip \<in> host_ips dns ns (eh_host h)"
    using assms(3) by (auto simp: allowed_pairs_def)
  have "inet_pton4 ip \<noteq> None"
  proof (cases "inet_pton4 (eh_host h) = None")
    case True
    then obtain n rd t where "ip = inet_ntop4 rd" "(rd, t) \<in> set (dns n (eh_host h))"
      using e(3) unfolding host_ips_def by auto
    moreover have "octets rd" using assms(1) calculation(2) unfolding dns_ok_def by blast
    ultimately show ?thesis by (simp add: inet_pton_ntop)
  next
    case False
    with e(3) show ?thesis by (simp add: host_ips_def)
  qed
  with e assms(2) show ?thesis by (auto simp: pair_ok_def host_ok_def list_all_iff)
qed

lemma net_egress_chain:
  assumes fw: "iptables_documented (run E) chain" and base: "base_installs (run E)" and dok: "dns_ok dns"
    and c: "cn_eg c = []" "list_all host_ok (cn_hosts c)" and none: "iface_rules (cn_idx c) (chain h) = []"
    and eq: "net_egress E dns c True h = (err, c', h')"
  shows "only_iface (cn_idx c) (chain h) (chain h') \<and> list_all pair_ok (cn_eg c') \<and> distinct (cn_eg c') \<and>
    allowlist (cn_idx c) (cn_eg c') (chain h') \<and> (\<exists>eg t. c' = c\<lparr>cn_eg := eg, cn_next_refresh := t\<rparr>) \<and>
    (err = None \<longrightarrow> cn_eg c' \<noteq> [] \<and> set (cn_eg c') = allowed_pairs dns (servers (cn_ns c)) (cn_hosts c))"
proof -
  let ?h1 = "egress_base (run E) (cn_idx c) True h"
  have ch1: "chain ?h1 = rev (base_rules (cn_idx c)) @ chain h" by (rule egress_base_chain[OF fw base])
  have only1: "only_iface (cn_idx c) (chain h) (chain ?h1)"
    unfolding ch1 base_rules_def by (auto simp: only_iface_def)
  have alw1: "allowlist (cn_idx c) [] (chain ?h1)"
    using none by (simp add: ch1 allowlist_def base_rules_def)
  have same: "\<exists>eg t. c = c\<lparr>cn_eg := eg, cn_next_refresh := t\<rparr>"
    by (intro exI[of _ "cn_eg c"] exI[of _ "cn_next_refresh c"]) simp
  show ?thesis
  proof (cases "\<exists>want ttl. egress_want dns c = Inr (want, ttl) \<and> want \<noteq> []")
    case False
    then have "err \<noteq> None \<and> c' = c \<and> h' = ?h1"
      using eq by (auto simp: net_egress_def Let_def split: sum.splits resolve_error.splits if_splits)
    then show ?thesis using only1 alw1 c(1) same by auto
  next
    case True
    then obtain want ttl where w: "egress_want dns c = Inr (want, ttl)" "want \<noteq> []" by blast
    have ports: "\<And>x. x \<in> set (cn_hosts c) \<Longrightarrow> length (eh_port x) \<le> 7" using c(2) by (auto simp: list_all_iff host_ok_def)
    have want: "set want = allowed_pairs dns (servers (cn_ns c)) (cn_hosts c)" "distinct want" "length want \<le> MAX_EG_IPS"
      using egress_want_pairs[OF w(1) dok] ports by blast+
    obtain failed c2 h2 where ap: "egress_apply (run E) c want ?h1 = (failed, c2, h2)"
      by (cases "egress_apply (run E) c want ?h1")
    have oks: "\<And>e. e \<in> set want \<Longrightarrow> pair_ok e" using allowed_pairs_ok[OF dok c(2)] want(1) by blast
    then have pre: "\<And>e. e \<in> set (cn_eg c) \<union> set want \<Longrightarrow> pair_ok e" "distinct (cn_eg c)"
      "allowlist (cn_idx c) (cn_eg c) (chain ?h1)" using c(1) alw1 by simp_all
    note ac = egress_apply_correct[OF fw ap pre want(2,3)]
    have h': "h' = h2" "cn_eg c' = cn_eg c2" "err = None \<longrightarrow> failed = 0" "\<exists>t. c' = c2\<lparr>cn_next_refresh := t\<rparr>"
      using eq w ap by (auto simp: net_egress_def Let_def split: if_splits intro: exI[of _ "cn_next_refresh c2"])
    have "only_iface (cn_idx c) (chain h) (chain h')" using only1 ac(4) h'(1) by (simp add: only_iface_trans)
    moreover have "\<exists>eg t. c' = c\<lparr>cn_eg := eg, cn_next_refresh := t\<rparr>" using ac(7) h'(4) by metis
    ultimately show ?thesis using ac h' oks w(2) want(1) by (auto simp: list_all_iff)
  qed
qed

lemma net_up_fail_inv:
  assumes fw: "iptables_documented (run E) chain" and inv: "net_inv d ch"
    and slot: "slot < 64" "slot \<notin> live d" and idx: "idx < 16384" "idx \<notin> bm_members (g_netmap d)"
    and d1: "g_netmap d1 = bm_set (g_netmap d) idx" "g_nets d1 = (g_nets d)[slot := c]" "g_nat_on d \<Longrightarrow> g_nat_on d1"
    and c: "list_all pair_ok (cn_eg c)" "iface_rules idx (chain h) = [] \<or> allowlist idx (cn_eg c) (chain h)"
    and ch: "\<And>j. j \<noteq> idx \<Longrightarrow> iface_rules j (chain h) = iface_rules j ch" "veth_on_top (chain h)"
    and eq: "net_up_fail E slot idx d1 h = (d', h')"
  shows "net_inv d' (chain h') \<and> live d' = live d \<and> (\<forall>i \<in> live d. g_nets d' ! i = g_nets d ! i) \<and>
    (\<forall>j. iface_rules j (chain h') = iface_rules j ch)"
proof -
  have len: "length (g_nets d) = 64" "length (g_netmap d) = 256" using inv by (simp_all add: net_inv_def)
  have c1: "g_nets d1 ! slot = c" using slot(1) len by (simp add: d1)
  have h': "h' = exec (run E) (scrub_effects idx (cn_eg c) True) h" and
      n': "g_nets d' = (g_nets d)[slot := clear_net c]" "g_netmap d' = bm_clear (bm_set (g_netmap d) idx) idx"
      "g_nat_on d' = g_nat_on d1"
    using eq c1 by (auto simp: net_up_fail_def Let_def d1)
  have gone: "iface_rules idx (chain h') = []" unfolding h' by (rule scrub_all_chain[OF fw c])
  have only: "only_iface idx (chain h) (chain h')" unfolding h' by (rule scrub_effects_chain(1)[OF fw c(1)])
  have "iface_rules idx ch = []" using inv idx(2) by (simp add: net_inv_def)
  then have rules: "iface_rules j (chain h') = iface_rules j ch" for j
    using gone only ch(1) by (cases "j = idx") (simp_all add: only_iface_def)
  have lv: "live d' = live d" using slot len by (auto simp: live_def n' nth_list_update clear_net_def)
  have nets: "g_nets d' ! i = g_nets d ! i" if "i \<in> live d" for i
    using that slot(2) by (cases "i = slot") (simp_all add: n')
  have "bm_members (g_netmap d') = bm_members (g_netmap d)"
    unfolding n' using idx len by (intro words.members_cl_st) simp_all
  then have "net_inv d' (chain h')"
    using net_inv_cong[OF inv, of d' "chain h'"] lv nets rules only ch(2) len d1(3) by (simp add: n' only_iface_def)
  with lv nets rules show ?thesis by simp
qed

text \<open>What \<^verbatim>\<open>net_up\<close> has done when it returns: either nothing is left of the attempt, or one more
  cell lives, in a free slot and a free network, with the requested destinations.\<close>

definition up_failed :: "netd \<Rightarrow> rule list \<Rightarrow> netd \<Rightarrow> rule list \<Rightarrow> bool" where
  "up_failed d ch d' ch' \<longleftrightarrow> live d' = live d \<and> (\<forall>i \<in> live d. g_nets d' ! i = g_nets d ! i) \<and>
     (\<forall>j. iface_rules j ch' = iface_rules j ch)"

definition up_added :: "dns \<Rightarrow> int \<Rightarrow> eghost list \<Rightarrow> cstr list \<Rightarrow> netd \<Rightarrow> rule list \<Rightarrow> netd \<Rightarrow> rule list \<Rightarrow> nat \<Rightarrow> bool" where
  "up_added dns pid hosts nss d ch d' ch' slot \<longleftrightarrow>
     (let c = g_nets d' ! slot; kept = map cut_host (take MAX_EGRESS hosts) in
      slot < 64 \<and> slot \<notin> live d \<and> live d' = insert slot (live d) \<and> (\<forall>i \<in> live d. g_nets d' ! i = g_nets d ! i) \<and>
      cn_pid c = pid \<and> cn_idx c \<notin> idx_of d ` live d \<and> cn_hosts c = kept \<and>
      cn_ns c = map (snprintf_s 64) (take MAX_NS nss) \<and> (\<forall>j. j \<noteq> cn_idx c \<longrightarrow> iface_rules j ch' = iface_rules j ch) \<and>
      (hosts \<noteq> [] \<longrightarrow> set (cn_eg c) = allowed_pairs dns (servers (cn_ns c)) kept))"

lemma list_all_host_ok_cut: "list_all host_ok hosts \<Longrightarrow> list_all host_ok (map cut_host (take n hosts))"
  by (auto simp: list_all_iff host_ok_def cut_host_def snprintf_s_def dest: in_set_takeD)

lemma net_up_commit:
  assumes fw: "iptables_documented (run E) chain" and base: "base_installs (run E)" and dok: "dns_ok dns"
    and inv: "net_inv d (chain h)" and pid: "pid \<noteq> 0" and hosts: "list_all host_ok hosts"
    and slot: "slot < 64" "slot \<notin> live d" and idx: "idx < 16384" "idx \<notin> bm_members (g_netmap d)"
    and h2: "\<And>j. iface_rules j (chain h2) = iface_rules j (chain h)" "veth_on_top (chain h2)"
    and c: "c = c0\<lparr>cn_pid := pid, cn_hosts := map cut_host (take MAX_EGRESS hosts), cn_ns := map (snprintf_s 64) (take MAX_NS nss)\<rparr>"
      "cn_idx c0 = idx" "cn_eg c0 = []"
    and eq: "net_egress E dns c (hosts \<noteq> []) h2 = (err, c', h3)"
    and d3: "g_netmap d3 = bm_set (g_netmap d) idx" "g_nets d3 = (g_nets d)[slot := c]" "g_nat_on d3"
    and d4: "d4 = d3\<lparr>g_nets := (g_nets d3)[slot := c']\<rparr>"
  shows "err = None \<Longrightarrow> net_inv d4 (chain h3) \<and> up_added dns pid hosts nss d (chain h) d4 (chain h3) slot"
    "err = Some rep \<Longrightarrow> net_up_fail E slot idx d4 h3 = (d', h') \<Longrightarrow>
       net_inv d' (chain h') \<and> up_failed d (chain h) d' (chain h')"
proof -
  have none: "iface_rules idx (chain h2) = []" using inv idx(2) h2(1) by (simp add: net_inv_def)
  have n4: "g_nets d4 = (g_nets d)[slot := c']" "g_netmap d4 = bm_set (g_netmap d) idx" "g_nat_on d4"
    using d3 by (simp_all add: d4)
  have ck: "cn_eg c = []" "cn_idx c = idx" "list_all host_ok (cn_hosts c)" "cn_pid c = pid"
      "(cn_hosts c = []) = (hosts = [])"
    using c list_all_host_ok_cut[OF hosts] by (simp_all add: MAX_EGRESS_def)
  have egr: "only_iface idx (chain h2) (chain h3) \<and> list_all pair_ok (cn_eg c') \<and>
      (hosts \<noteq> [] \<longrightarrow> distinct (cn_eg c') \<and> allowlist idx (cn_eg c') (chain h3)) \<and>
      (\<exists>eg t. c' = c\<lparr>cn_eg := eg, cn_next_refresh := t\<rparr>) \<and>
      (hosts = [] \<longrightarrow> cn_eg c' = [] \<and> chain h3 = chain h2 \<and> err = None) \<and>
      (hosts \<noteq> [] \<and> err = None \<longrightarrow> cn_eg c' \<noteq> [] \<and> set (cn_eg c') = allowed_pairs dns (servers (cn_ns c)) (cn_hosts c))"
  proof (cases "hosts = []")
    case True
    then have "err = None" "c' = c" "h3 = h2" using eq by (simp_all add: net_egress_def)
    moreover have "\<exists>eg t. c = c\<lparr>cn_eg := eg, cn_next_refresh := t\<rparr>"
      by (intro exI[of _ "cn_eg c"] exI[of _ "cn_next_refresh c"]) simp
    ultimately show ?thesis using True ck by simp
  next
    case False
    with net_egress_chain[OF fw base dok ck(1,3), of h2 err c' h3] none eq ck(2) show ?thesis by simp
  qed
  then have c': "cn_idx c' = idx" "cn_pid c' = pid" "cn_hosts c' = cn_hosts c" "cn_ns c' = cn_ns c"
    using ck by auto
  have rules: "\<And>j. j \<noteq> idx \<Longrightarrow> iface_rules j (chain h3) = iface_rules j (chain h)" "veth_on_top (chain h3)"
    using egr h2 by (auto simp: only_iface_def)
  have len: "length (g_nets d) = 64" using inv by (simp add: net_inv_def)
  show "net_inv d4 (chain h3) \<and> up_added dns pid hosts nss d (chain h) d4 (chain h3) slot" if ok: "err = None"
  proof -
    have "cell_ok (chain h3) c'"
      using egr ok idx(1) ck(3,5) none c' by (auto simp: cell_ok_def)
    then have inv4: "net_inv d4 (chain h3)"
      using net_inv_add[OF inv slot idx c'(1) _ _ rules n4(2,1,3)] c'(2) pid by simp
    have "live d4 = insert slot (live d)"
      using slot(1) len c'(2) pid by (auto simp: live_def n4 nth_list_update)
    moreover have "g_nets d4 ! i = g_nets d ! i" if "i \<in> live d" for i
      using that slot(2) by (cases "i = slot") (simp_all add: n4)
    moreover have "idx \<notin> idx_of d ` live d" using inv idx(2) by (simp add: net_inv_def)
    moreover have "g_nets d4 ! slot = c'" using slot(1) len by (simp add: n4)
    ultimately show ?thesis
      using inv4 slot rules(1) egr ok c' c by (auto simp: up_added_def Let_def)
  qed
  show "net_inv d' (chain h') \<and> up_failed d (chain h) d' (chain h')"
    if "err = Some rep" "net_up_fail E slot idx d4 h3 = (d', h')"
    using net_up_fail_inv[OF fw inv slot idx n4(2,1) n4(3) _ _ rules that(2)] egr that(1)
    by (auto simp: up_failed_def)
qed

lemma no_veth_rules:
  "net_inv d ch \<Longrightarrow> \<not> g_nat_on d \<Longrightarrow> list_all (\<lambda>r. rule_iface r = None) ch"
proof -
  assume inv: "net_inv d ch" and off: "\<not> g_nat_on d"
  have "r \<notin> set ch" if "rule_iface r = Some j" for r j
  proof -
    have "iface_rules j ch = []" using inv off by (simp add: net_inv_def)
    then show ?thesis using that by (auto simp: iface_rules_def filter_empty_conv)
  qed
  then show ?thesis unfolding list_all_iff by (metis option.exhaust)
qed

lemma net_up_outcome:
  assumes fw: "iptables_documented (run E) chain" and base: "base_installs (run E)" and dok: "dns_ok dns"
    and inv: "net_inv d (chain h)" and pid: "pid \<noteq> 0" and hosts: "list_all host_ok hosts"
    and eq: "net_up E dns d h pid hosts nss = (rc, rep, d', h')"
  shows "net_inv d' (chain h') \<and> (rc = -1 \<and> up_failed d (chain h) d' (chain h') \<or>
     rc = 0 \<and> (\<exists>slot. up_added dns pid hosts nss d (chain h) d' (chain h') slot))"
proof (cases "find (\<lambda>i. cn_pid (g_nets d ! i) = 0) [0..<64]")
  case None
  with eq inv show ?thesis by (auto simp: net_up_def up_failed_def)
next
  case S: (Some slot)
  then have slot: "slot < 64" "slot \<notin> live d" by (auto simp: find_Some_iff live_def)
  have len: "length (g_netmap d) = 256" using inv by (simp add: net_inv_def)
  show ?thesis
  proof (cases "find (\<lambda>i. \<not> bm_test (g_netmap d) i) [0..<16384]")
    case None
    with S eq inv show ?thesis by (auto simp: net_up_def up_failed_def)
  next
    case I: (Some idx)
    then have idx: "idx < 16384" "idx \<notin> bm_members (g_netmap d)"
      using words.find_free_Some[OF I] len by simp_all
    define c0 where "c0 = (g_nets d ! slot)\<lparr>cn_idx := idx, cn_eg := [], cn_hosts := [], cn_ns := [], cn_next_refresh := 0\<rparr>"
    define d1 where "d1 = d\<lparr>g_netmap := bm_set (g_netmap d) idx, g_nets := (g_nets d)[slot := c0]\<rparr>"
    obtain linked h1 where l: "net_link E idx pid h = (linked, h1)" by (cases "net_link E idx pid h")
    have none: "iface_rules idx (chain h) = []" using inv idx(2) by (simp add: net_inv_def)
    have ch1: "chain h1 = chain h" by (rule net_link_chain[OF fw none l])
    have top: "veth_on_top (chain h)" using inv by (simp add: net_inv_def)
    obtain d2 h2 where n: "nat_ensure E d1 h1 = (d2, h2)" by (cases "nat_ensure E d1 h1")
    have top1: "veth_on_top (chain h1)" by (simp add: ch1 top)
    have off1: "\<not> g_nat_on d1 \<Longrightarrow> list_all (\<lambda>r. rule_iface r = None) (chain h1)"
      using no_veth_rules[OF inv] by (simp add: d1_def ch1)
    note ne = nat_ensure_chain[OF fw n top1 off1]
    define c where "c = c0\<lparr>cn_pid := pid, cn_hosts := map cut_host (take MAX_EGRESS hosts),
        cn_ns := map (snprintf_s 64) (take MAX_NS nss)\<rparr>"
    define d3 where "d3 = d2\<lparr>g_nets := (g_nets d2)[slot := c]\<rparr>"
    have d3: "g_netmap d3 = bm_set (g_netmap d) idx" "g_nets d3 = (g_nets d)[slot := c]" "g_nat_on d3"
      using ne by (simp_all add: d3_def d1_def)
    have h2: "\<And>j. iface_rules j (chain h2) = iface_rules j (chain h)" "veth_on_top (chain h2)"
      using ne by (simp_all add: ch1)
    note up = eq[unfolded net_up_def S I option.case Let_def l n case_prod_conv, folded c0_def, folded d1_def,
        unfolded n case_prod_conv, folded c_def, folded d3_def]
    consider "\<not> linked" | "linked" "egress_no_resolv (needs_dns (cn_hosts c)) (length (cn_ns c))"
      | "linked" "\<not> egress_no_resolv (needs_dns (cn_hosts c)) (length (cn_ns c))" by blast
    then show ?thesis
    proof cases
      case 1
      obtain d'' h'' where f: "net_up_fail E slot idx d1 h1 = (d'', h'')" by (cases "net_up_fail E slot idx d1 h1")
      with up 1 have r: "rc = -1" "d' = d''" "h' = h''" by auto
      have "net_inv d'' (chain h'') \<and> live d'' = live d \<and> (\<forall>i \<in> live d. g_nets d'' ! i = g_nets d ! i) \<and>
          (\<forall>j. iface_rules j (chain h'') = iface_rules j (chain h))"
        by (rule net_up_fail_inv[OF fw inv slot idx _ _ _ _ _ _ _ f, where c = c0])
           (use none top ch1 in \<open>simp_all add: d1_def c0_def\<close>)
      with r show ?thesis by (simp add: up_failed_def)
    next
      case 2
      obtain d'' h'' where f: "net_up_fail E slot idx d3 h2 = (d'', h'')" by (cases "net_up_fail E slot idx d3 h2")
      with up 2 have r: "rc = -1" "d' = d''" "h' = h''" by auto
      have "net_inv d'' (chain h'') \<and> live d'' = live d \<and> (\<forall>i \<in> live d. g_nets d'' ! i = g_nets d ! i) \<and>
          (\<forall>j. iface_rules j (chain h'') = iface_rules j (chain h))"
        by (rule net_up_fail_inv[OF fw inv slot idx d3(1,2,3) _ _ _ _ f])
           (use none h2 in \<open>simp_all add: c_def c0_def\<close>)
      with r show ?thesis by (simp add: up_failed_def)
    next
      case 3
      obtain err c' h3 where e: "net_egress E dns c (hosts \<noteq> []) h2 = (err, c', h3)"
        by (cases "net_egress E dns c (hosts \<noteq> []) h2")
      define d4 where "d4 = d3\<lparr>g_nets := (g_nets d3)[slot := c']\<rparr>"
      have cc: "cn_idx c0 = idx" "cn_eg c0 = []" by (simp_all add: c0_def)
      note com = net_up_commit[OF fw base dok inv pid hosts slot idx h2 c_def cc e d3 d4_def]
      show ?thesis
      proof (cases err)
        case None
        with up 3 e have "rc = 0" "d' = d4" "h' = h3" by (auto simp: d4_def)
        with com(1)[OF None] show ?thesis by blast
      next
        case (Some r)
        obtain d'' h'' where f: "net_up_fail E slot idx d4 h3 = (d'', h'')" by (cases "net_up_fail E slot idx d4 h3")
        with up 3 e Some have "rc = -1" "d' = d''" "h' = h''" by (auto simp: d4_def)
        with com(2)[OF Some f] show ?thesis by blast
      qed
    qed
  qed
qed

end
