(* ===== verification/Netd_Reach.thy ===== *)
theory Netd_Reach
  imports Netd_Safety
begin

text \<open>
  Taking cells down, refreshing their allowlists, and the states the daemon can reach. The
  properties of the network component are at the end.
\<close>

subsection \<open>Taking cells down\<close>

text \<open>\<open>kept d h d' h'\<close>: the cells that still live are as they were, and so are their rules.\<close>

definition kept :: "('h \<Rightarrow> rule list) \<Rightarrow> netd \<Rightarrow> 'h \<Rightarrow> netd \<Rightarrow> 'h \<Rightarrow> bool" where
  "kept chain d h d' h' \<longleftrightarrow>
     (\<forall>i \<in> live d'. g_nets d' ! i = g_nets d ! i \<and> iface_rules (idx_of d i) (chain h') = iface_rules (idx_of d i) (chain h))"

lemma release_inv:
  assumes fw: "iptables_documented (run E) chain" and inv: "net_inv d (chain h)" and i: "i \<in> live d"
    and eq: "release E i (d, h) = (d', h')"
  shows "net_inv d' (chain h') \<and> live d' = live d - {i} \<and> kept chain d h d' h' \<and> g_nat_on d' = g_nat_on d \<and>
    (\<forall>k. k \<noteq> i \<longrightarrow> g_nets d' ! k = g_nets d ! k) \<and> cn_pid (g_nets d' ! i) = 0"
proof -
  let ?c = "g_nets d ! i"
  have ok: "cell_ok (chain h) ?c" using inv i by (simp add: net_inv_def)
  then have pairs: "list_all pair_ok (cn_eg ?c)" by (cases "cn_hosts ?c = []") (simp_all add: cell_ok_def)
  have h': "h' = exec (run E) (scrub_effects (cn_idx ?c) (cn_eg ?c) (cn_eg ?c \<noteq> [])) h"
    and d': "g_netmap d' = bm_clear (g_netmap d) (idx_of d i)" "g_nets d' = (g_nets d)[i := clear_net ?c]" "g_nat_on d' = g_nat_on d"
    using eq by (auto simp: release_def Let_def idx_of_def)
  note sc = scrub_effects_chain[OF fw pairs, where idx = "cn_idx ?c" and h = h and base = "cn_eg ?c \<noteq> []"]
  have gone: "iface_rules (idx_of d i) (chain h') = []"
  proof (cases "cn_eg ?c = []")
    case True
    then have "iface_rules (cn_idx ?c) (chain h) = []" using ok by (auto simp: cell_ok_def split: if_splits)
    then show ?thesis using sc(2) by (simp add: h' idx_of_def)
  next
    case False
    then have "allowlist (cn_idx ?c) (cn_eg ?c) (chain h)" using ok by (auto simp: cell_ok_def split: if_splits)
    then show ?thesis using scrub_all_chain[OF fw pairs] False by (simp add: h' idx_of_def)
  qed
  have only: "only_iface (idx_of d i) (chain h) (chain h')" using sc(1) by (simp add: h' idx_of_def)
  have top: "veth_on_top (chain h')" using only inv by (simp add: only_iface_def net_inv_def)
  have rules: "iface_rules j (chain h') = iface_rules j (chain h)" if "j \<noteq> idx_of d i" for j
    using that only by (simp add: only_iface_def)
  have pid0: "cn_pid (clear_net ?c) = 0" by (simp add: clear_net_def)
  note rm = net_inv_remove[OF inv i rules gone top d'(1,2) pid0 d'(3)]
  have inj: "inj_on (idx_of d) (live d)" using inv by (simp add: net_inv_def)
  have "idx_of d k \<noteq> idx_of d i" if "k \<in> live d'" for k using that rm(2) inj_onD[OF inj, of k i] i by auto
  then have "kept chain d h d' h'" using rm rules by (auto simp: kept_def)
  moreover have "cn_pid (g_nets d' ! i) = 0" using pid0 i inv by (simp add: d' live_def net_inv_def)
  ultimately show ?thesis using rm d'(3) by auto
qed

lemma kept_trans:
  "kept chain d h d1 h1 \<Longrightarrow> kept chain d1 h1 d2 h2 \<Longrightarrow> live d2 \<subseteq> live d1 \<Longrightarrow> kept chain d h d2 h2"
  unfolding kept_def idx_of_def by (metis subsetD)

abbreviation down_step :: "'h env \<Rightarrow> int \<Rightarrow> netd \<times> 'h \<Rightarrow> nat \<Rightarrow> netd \<times> 'h" where
  "down_step E pid \<equiv> \<lambda>(d, h) i. if cn_pid (g_nets d ! i) = pid then release E i (d, h) else (d, h)"

lemma down_fold:
  assumes fw: "iptables_documented (run E) chain" and pid: "pid \<noteq> 0"
    and eq: "foldl (down_step E pid) (d, h) slots = (d', h')" and inv: "net_inv d (chain h)" and slots: "set slots \<subseteq> {..<64}"
  shows "net_inv d' (chain h') \<and> live d' = {i \<in> live d. i \<in> set slots \<longrightarrow> cn_pid (g_nets d ! i) \<noteq> pid} \<and> kept chain d h d' h' \<and>
    g_nat_on d' = g_nat_on d"
  using eq inv slots
proof (induction slots arbitrary: d h)
  case Nil
  then show ?case by (auto simp: kept_def)
next
  case (Cons i slots)
  show ?case
  proof (cases "cn_pid (g_nets d ! i) = pid")
    case True
    obtain d1 h1 where r: "release E i (d, h) = (d1, h1)" by (cases "release E i (d, h)")
    have i: "i \<in> live d" using True pid Cons.prems(3) by (simp add: live_def)
    note ri = release_inv[OF fw Cons.prems(2) i r]
    have IH: "net_inv d' (chain h') \<and> live d' = {k \<in> live d1. k \<in> set slots \<longrightarrow> cn_pid (g_nets d1 ! k) \<noteq> pid} \<and>
        kept chain d1 h1 d' h' \<and> g_nat_on d' = g_nat_on d1"
    proof (rule Cons.IH)
      show "foldl (down_step E pid) (d1, h1) slots = (d', h')" using Cons.prems(1) True r by simp
      show "net_inv d1 (chain h1)" using ri by blast
      show "set slots \<subseteq> {..<64}" using Cons.prems(3) by simp
    qed
    have l1: "live d1 = live d - {i}" and n1: "\<And>k. k \<noteq> i \<Longrightarrow> g_nets d1 ! k = g_nets d ! k"
        and k1: "kept chain d h d1 h1" and o1: "g_nat_on d1 = g_nat_on d" using ri by simp_all
    have IH': "live d' = {k \<in> live d1. k \<in> set slots \<longrightarrow> cn_pid (g_nets d1 ! k) \<noteq> pid}"
        "kept chain d1 h1 d' h'" "net_inv d' (chain h')" "g_nat_on d' = g_nat_on d1" using IH by simp_all
    have "k \<in> live d' \<longleftrightarrow> k \<in> live d \<and> (k \<in> set (i # slots) \<longrightarrow> cn_pid (g_nets d ! k) \<noteq> pid)" for k
    proof (cases "k = i")
      case False
      have "k \<in> live d' \<longleftrightarrow> k \<in> live d1 \<and> (k \<in> set slots \<longrightarrow> cn_pid (g_nets d1 ! k) \<noteq> pid)" unfolding IH'(1) by simp
      with False n1[OF False] show ?thesis by (simp add: l1)
    next
      case True
      then have "k \<notin> live d'" unfolding IH'(1) l1 by simp
      with True \<open>cn_pid (g_nets d ! i) = pid\<close> show ?thesis by simp
    qed
    then have lv: "live d' = {k \<in> live d. k \<in> set (i # slots) \<longrightarrow> cn_pid (g_nets d ! k) \<noteq> pid}" by blast
    have "live d' \<subseteq> live d1" unfolding IH'(1) by blast
    with kept_trans[OF k1 IH'(2)] have "kept chain d h d' h'" .
    with lv IH'(3,4) o1 show ?thesis by simp
  next
    case False
    have "foldl (down_step E pid) (d, h) slots = (d', h')" using Cons.prems(1) False by simp
    then have "net_inv d' (chain h') \<and> live d' = {k \<in> live d. k \<in> set slots \<longrightarrow> cn_pid (g_nets d ! k) \<noteq> pid} \<and>
        kept chain d h d' h' \<and> g_nat_on d' = g_nat_on d"
      using Cons.IH Cons.prems(2,3) by simp
    moreover have "{k \<in> live d. k \<in> set (i # slots) \<longrightarrow> cn_pid (g_nets d ! k) \<noteq> pid} =
        {k \<in> live d. k \<in> set slots \<longrightarrow> cn_pid (g_nets d ! k) \<noteq> pid}"
      using False by auto
    ultimately show ?thesis by (simp only:)
  qed
qed

lemma net_down_inv:
  assumes "iptables_documented (run E) chain" "pid \<noteq> 0" "net_down E pid (d, h) = (d', h')" "net_inv d (chain h)"
  shows "net_inv d' (chain h') \<and> live d' = {i \<in> live d. cn_pid (g_nets d ! i) \<noteq> pid} \<and> kept chain d h d' h'"
proof -
  have "foldl (down_step E pid) (d, h) [0..<64] = (d', h')" using assms(3) by (simp add: net_down_def)
  then have "net_inv d' (chain h') \<and> live d' = {i \<in> live d. i \<in> set [0..<64] \<longrightarrow> cn_pid (g_nets d ! i) \<noteq> pid} \<and>
      kept chain d h d' h'"
    using down_fold[OF assms(1,2) _ assms(4), of "[0..<64]"] by fastforce
  moreover have "{i \<in> live d. i \<in> set [0..<64] \<longrightarrow> cn_pid (g_nets d ! i) \<noteq> pid} =
      {i \<in> live d. cn_pid (g_nets d ! i) \<noteq> pid}" by (auto simp: live_def)
  ultimately show ?thesis by (simp only:)
qed

subsection \<open>Refreshing\<close>

text \<open>The accepts of an interface can be inserted.\<close>

definition accepts_install :: "'h runner \<Rightarrow> bool" where
  "accepts_install rn \<longleftrightarrow> (\<forall>idx e h. fst (rn (Sh (Insert (accept_rule idx e))) h) = 0)"

lemma add_missing_none_failed:
  "accepts_install rn \<Longrightarrow> fst (add_missing rn idx ws eg f h) = f"
proof (induction rn idx ws eg f h rule: add_missing.induct)
  case (2 rn idx w ws eg f h)
  have "fst (egress_accept rn idx w True h) = 0" using "2.prems" by (simp add: accepts_install_def egress_accept_def)
  then obtain h1 where h1: "egress_accept rn idx w True h = (0, h1)" by (cases "egress_accept rn idx w True h") auto
  show ?case using "2.IH"(1) "2.IH"(3)[OF _ _ refl h1[symmetric]] "2.prems" by (simp add: h1)
qed simp

text \<open>A due cell whose hosts resolve gets exactly the new addresses; otherwise it keeps what it has.\<close>

definition refreshed :: "dns \<Rightarrow> cell_net \<Rightarrow> cell_net \<Rightarrow> bool" where
  "refreshed dns c c' \<longleftrightarrow> (\<exists>eg t. c' = c\<lparr>cn_eg := eg, cn_next_refresh := t\<rparr>) \<and>
     (cn_eg c' = cn_eg c \<or> set (cn_eg c') = allowed_pairs dns (servers (cn_ns c)) (cn_hosts c))"

lemma refreshed_same: "refreshed dns c (c\<lparr>cn_next_refresh := t\<rparr>)" "refreshed dns c c"
  unfolding refreshed_def
  by (intro conjI exI[of _ "cn_eg c"] exI[of _ t] disjI1; simp)
     (intro conjI exI[of _ "cn_eg c"] exI[of _ "cn_next_refresh c"] disjI1; simp)

lemma refresh_cell_ok:
  assumes fw: "iptables_documented rn chain" and inst: "accepts_install rn" and dok: "dns_ok dns"
    and ok: "cn_pid c \<noteq> 0 \<Longrightarrow> cell_ok (chain h) c" and eq: "refresh_cell rn dns now c h = (c', h')"
  shows "refreshed dns c c' \<and> only_iface (cn_idx c) (chain h) (chain h') \<and> (cn_pid c = 0 \<longrightarrow> chain h' = chain h) \<and>
    (cn_pid c \<noteq> 0 \<longrightarrow> cell_ok (chain h') c')"
proof (cases "cn_pid c \<noteq> 0 \<and> cn_hosts c \<noteq> [] \<and> cn_next_refresh c \<le> now \<and>
    (\<exists>want ttl. egress_want dns c = Inr (want, ttl) \<and> want \<noteq> [])")
  case False
  then have "h' = h \<and> (c' = c \<or> (\<exists>t. c' = c\<lparr>cn_next_refresh := t\<rparr>))"
    using eq by (auto simp: refresh_cell_def split: if_splits sum.splits prod.splits)
  then show ?thesis using ok refreshed_same by (auto simp: cell_ok_def)
next
  case True
  then obtain want ttl where w: "egress_want dns c = Inr (want, ttl)" "want \<noteq> []" by blast
  have okc: "distinct (cn_eg c)" "list_all pair_ok (cn_eg c)" "list_all host_ok (cn_hosts c)"
      "allowlist (cn_idx c) (cn_eg c) (chain h)" "cn_idx c < 16384"
    using ok True by (auto simp: cell_ok_def)
  have ports: "\<And>x. x \<in> set (cn_hosts c) \<Longrightarrow> length (eh_port x) \<le> 7" using okc(3) by (auto simp: list_all_iff host_ok_def)
  have want: "set want = allowed_pairs dns (servers (cn_ns c)) (cn_hosts c)" "distinct want" "length want \<le> MAX_EG_IPS"
    using egress_want_pairs[OF w(1) dok] ports by blast+
  obtain failed c2 h2 where ap: "egress_apply rn c want h = (failed, c2, h2)" by (cases "egress_apply rn c want h")
  have pre: "\<And>e. e \<in> set (cn_eg c) \<union> set want \<Longrightarrow> pair_ok e"
    using okc(2) allowed_pairs_ok[OF dok okc(3)] want(1) by (auto simp: list_all_iff)
  note ac = egress_apply_correct[OF fw ap pre okc(1,4) want(2,3)]
  have "failed = 0"
    using ap add_missing_none_failed[OF inst] by (auto simp: egress_apply_def split: prod.splits) (metis fst_conv)
  then have eg: "set (cn_eg c2) = set want" using ac(5) by simp
  have c': "c' = c2\<lparr>cn_next_refresh := refresh_at now ttl\<rparr>" "h' = h2"
    using eq True w ap by (simp_all add: refresh_cell_def)
  have "\<exists>eg t. c' = c\<lparr>cn_eg := eg, cn_next_refresh := t\<rparr>" using ac(7) c'(1) by metis
  moreover have "cell_ok (chain h') c'"
  proof -
    have "cn_idx c2 = cn_idx c" "cn_hosts c2 = cn_hosts c" using arg_cong[OF ac(7), of cn_idx] arg_cong[OF ac(7), of cn_hosts] by simp_all
    then show ?thesis using True okc ac(2,3) eg w(2) pre by (auto simp: cell_ok_def c' list_all_iff)
  qed
  ultimately show ?thesis using True ac(4) eg want(1) c' by (simp add: refreshed_def)
qed

lemma refreshed_fields:
  "refreshed dns c c' \<Longrightarrow> cn_pid c' = cn_pid c \<and> cn_idx c' = cn_idx c \<and> cn_hosts c' = cn_hosts c"
  by (auto simp: refreshed_def)

abbreviation live_nets :: "cell_net list \<Rightarrow> cell_net list" where
  "live_nets \<equiv> filter (\<lambda>c. cn_pid c \<noteq> 0)"

lemma egress_refresh_ok:
  assumes fw: "iptables_documented rn chain" and inst: "accepts_install rn" and dok: "dns_ok dns"
    and eq: "egress_refresh rn dns now cs h = (cs', h')"
    and ok: "\<forall>c \<in> set (live_nets cs). cell_ok (chain h) c" and uniq: "distinct (map cn_idx (live_nets cs))"
  shows "list_all2 (refreshed dns) cs cs' \<and> (\<forall>c \<in> set (live_nets cs'). cell_ok (chain h') c) \<and>
    (\<forall>j. j \<notin> cn_idx ` set (live_nets cs) \<longrightarrow> iface_rules j (chain h') = iface_rules j (chain h)) \<and>
    (veth_on_top (chain h) \<longrightarrow> veth_on_top (chain h'))"
  using eq ok uniq
proof (induction cs arbitrary: h cs')
  case (Cons c cs)
  obtain c1 h1 where c1: "refresh_cell rn dns now c h = (c1, h1)" by (cases "refresh_cell rn dns now c h")
  obtain cs1 where cs1: "egress_refresh rn dns now cs h1 = (cs1, h')" "cs' = c1 # cs1"
    using Cons.prems(1) c1 by (auto split: prod.splits)
  have "cn_pid c \<noteq> 0 \<Longrightarrow> cell_ok (chain h) c" using Cons.prems(2) by simp
  note rc = refresh_cell_ok[OF fw inst dok this c1]
  have same: "iface_rules (cn_idx x) (chain h1) = iface_rules (cn_idx x) (chain h)" if "x \<in> set (live_nets cs)" for x
  proof (cases "cn_pid c = 0")
    case False
    then have "cn_idx c \<notin> cn_idx ` set (live_nets cs)" using Cons.prems(3) by simp
    then have "cn_idx x \<noteq> cn_idx c" using that by (metis imageI)
    then show ?thesis using rc by (simp add: only_iface_def)
  qed (use rc in simp)
  then have cong: "\<And>x. x \<in> set (live_nets cs) \<Longrightarrow> cell_ok (chain h1) x = cell_ok (chain h) x" by (rule cell_ok_cong)
  have "\<forall>x \<in> set (live_nets cs). cell_ok (chain h) x" using Cons.prems(2) by (simp split: if_splits)
  with cong have "\<forall>x \<in> set (live_nets cs). cell_ok (chain h1) x" by blast
  moreover have "distinct (map cn_idx (live_nets cs))" using Cons.prems(3) by (simp split: if_splits)
  ultimately have IH: "list_all2 (refreshed dns) cs cs1 \<and> (\<forall>x \<in> set (live_nets cs1). cell_ok (chain h') x) \<and>
    (\<forall>j. j \<notin> cn_idx ` set (live_nets cs) \<longrightarrow> iface_rules j (chain h') = iface_rules j (chain h1)) \<and>
    (veth_on_top (chain h1) \<longrightarrow> veth_on_top (chain h'))" by (rule Cons.IH[OF cs1(1)])
  have head: "cell_ok (chain h') c1" if "cn_pid c1 \<noteq> 0"
  proof -
    have "refreshed dns c c1" using rc by simp
    from refreshed_fields[OF this] that have pid: "cn_pid c \<noteq> 0" "cn_idx c1 = cn_idx c" by simp_all
    then have "cn_idx c \<notin> cn_idx ` set (live_nets cs)" using Cons.prems(3) by simp
    then have "iface_rules (cn_idx c1) (chain h') = iface_rules (cn_idx c1) (chain h1)" using IH pid(2) by simp
    from cell_ok_cong[OF this] rc pid show ?thesis by simp
  qed
  have "iface_rules j (chain h') = iface_rules j (chain h)" if "j \<notin> cn_idx ` set (live_nets (c # cs))" for j
  proof -
    have "j \<notin> cn_idx ` set (live_nets cs)" "cn_pid c = 0 \<or> j \<noteq> cn_idx c" using that by (auto split: if_splits)
    then have "iface_rules j (chain h') = iface_rules j (chain h1)" using IH by simp
    moreover have "iface_rules j (chain h1) = iface_rules j (chain h)"
      using rc \<open>cn_pid c = 0 \<or> j \<noteq> cn_idx c\<close> by (auto simp: only_iface_def)
    ultimately show ?thesis by simp
  qed
  moreover have "list_all2 (refreshed dns) (c # cs) cs'" using IH rc cs1(2) by simp
  moreover have "\<forall>x \<in> set (live_nets cs'). cell_ok (chain h') x"
    using IH head unfolding cs1(2) by (simp split: if_splits)
  moreover have "veth_on_top (chain h) \<longrightarrow> veth_on_top (chain h')" using IH rc by (simp add: only_iface_def)
  ultimately show ?case by blast
qed simp

lemma distinct_live_idx:
  assumes "length (g_nets d) = 64"
  shows "distinct (map cn_idx (live_nets (g_nets d))) \<longleftrightarrow> inj_on (idx_of d) (live d)"
    "set (live_nets (g_nets d)) = (\<lambda>i. g_nets d ! i) ` live d"
proof -
  have "g_nets d = map (\<lambda>i. g_nets d ! i) [0..<64]" using assms map_nth[of "g_nets d"] by simp
  then have f: "live_nets (g_nets d) = map (\<lambda>i. g_nets d ! i) (filter (\<lambda>i. cn_pid (g_nets d ! i) \<noteq> 0) [0..<64])"
    by (metis (no_types, lifting) comp_apply filter_cong filter_map)
  have s: "set (filter (\<lambda>i. cn_pid (g_nets d ! i) \<noteq> 0) [0..<64]) = live d" by (auto simp: live_def)
  have "idx_of d = cn_idx \<circ> (\<lambda>i. g_nets d ! i)" by (simp add: fun_eq_iff idx_of_def)
  then show "distinct (map cn_idx (live_nets (g_nets d))) \<longleftrightarrow> inj_on (idx_of d) (live d)"
    unfolding f map_map by (simp only: distinct_map s) simp
  show "set (live_nets (g_nets d)) = (\<lambda>i. g_nets d ! i) ` live d" unfolding f set_map s ..
qed

text \<open>A refresh keeps the invariant and touches nothing but the accepts of live cells.\<close>

lemma refresh_inv:
  assumes fw: "iptables_documented (run E) chain" and inst: "accepts_install (run E)" and dok: "dns_ok dns"
    and inv: "net_inv d (chain h)" and eq: "egress_refresh (run E) dns now (g_nets d) h = (nets, h')"
  shows "net_inv (d\<lparr>g_nets := nets\<rparr>) (chain h') \<and> live (d\<lparr>g_nets := nets\<rparr>) = live d \<and>
    list_all2 (refreshed dns) (g_nets d) nets"
proof -
  let ?d = "d\<lparr>g_nets := nets\<rparr>"
  have len: "length (g_nets d) = 64" and inj: "inj_on (idx_of d) (live d)"
    and ok: "\<forall>c \<in> set (live_nets (g_nets d)). cell_ok (chain h) c" and top: "veth_on_top (chain h)"
    using inv distinct_live_idx(2)[of d] by (auto simp: net_inv_def)
  have uniq: "distinct (map cn_idx (live_nets (g_nets d)))" using inj distinct_live_idx(1)[OF len] by simp
  note r = egress_refresh_ok[OF fw inst dok eq ok uniq]
  have len': "length (g_nets ?d) = 64" using r len list_all2_lengthD by fastforce
  have fields: "cn_pid (nets ! i) = cn_pid (g_nets d ! i) \<and> cn_idx (nets ! i) = cn_idx (g_nets d ! i)" if "i < 64" for i
    using r refreshed_fields[of dns "g_nets d ! i" "nets ! i"] that len by (simp add: list_all2_conv_all_nth)
  have lv: "live ?d = live d" using fields by (auto simp: live_def)
  have io: "\<And>i. i \<in> live d \<Longrightarrow> idx_of ?d i = idx_of d i" using fields by (simp add: idx_of_def live_def)
  have im: "idx_of ?d ` live d = idx_of d ` live d" using io by (intro image_cong) auto
  have "inj_on (idx_of ?d) (live d)" using inj inj_on_cong[of "live d" "idx_of ?d" "idx_of d"] io by simp
  moreover have "\<forall>i \<in> live d. cell_ok (chain h') (g_nets ?d ! i)"
    using r distinct_live_idx(2)[OF len'] lv by auto
  moreover have "iface_rules j (chain h') = []" if "j \<notin> idx_of d ` live d" for j
  proof -
    have "j \<notin> cn_idx ` set (live_nets (g_nets d))"
      using that unfolding distinct_live_idx(2)[OF len] by (auto simp: idx_of_def)
    then show ?thesis using r inv that by (simp add: net_inv_def)
  qed
  ultimately have "net_inv ?d (chain h')" using inv r top lv im len' by (simp add: net_inv_def)
  with lv r show ?thesis by simp
qed

subsection \<open>The states of a running daemon\<close>

text \<open>From start-up on, the daemon serves \<^verbatim>\<open>NETUP\<close> and \<^verbatim>\<open>NETDOWN\<close> and refreshes. \<open>D\<close> holds the answers
  the resolvers gave in the course of the run.\<close>

inductive net_reach :: "'h env \<Rightarrow> dns set \<Rightarrow> netd \<Rightarrow> 'h \<Rightarrow> bool" for E D where
  start: "net_reach E D netd_init (net_recover_startup E h0)"
| up: "net_reach E D d h \<Longrightarrow> dns \<in> D \<Longrightarrow> pid \<noteq> 0 \<Longrightarrow> list_all host_ok hosts \<Longrightarrow>
    net_up E dns d h pid hosts nss = (rc, rep, d', h') \<Longrightarrow> net_reach E D d' h'"
| down: "net_reach E D d h \<Longrightarrow> pid \<noteq> 0 \<Longrightarrow> net_down E pid (d, h) = (d', h') \<Longrightarrow> net_reach E D d' h'"
| refresh: "net_reach E D d h \<Longrightarrow> dns \<in> D \<Longrightarrow> egress_refresh (run E) dns now (g_nets d) h = (nets, h') \<Longrightarrow>
    net_reach E D (d\<lparr>g_nets := nets\<rparr>) h'"

text \<open>What the run relies on: \<open>iptables\<close> works as documented, rules of cells can be inserted, and
  resolvers answer with addresses.\<close>

definition net_host_ok :: "'h env \<Rightarrow> ('h \<Rightarrow> rule list) \<Rightarrow> dns set \<Rightarrow> bool" where
  "net_host_ok E chain D \<longleftrightarrow> iptables_documented (run E) chain \<and> base_installs (run E) \<and> accepts_install (run E) \<and>
     (\<forall>dns \<in> D. dns_ok dns)"

text \<open>The installed addresses of a cell come from one resolution of its own hosts by its own resolvers.\<close>

definition pinned :: "dns set \<Rightarrow> cell_net \<Rightarrow> bool" where
  "pinned D c \<longleftrightarrow> (cn_hosts c \<noteq> [] \<longrightarrow> (\<exists>dns \<in> D. set (cn_eg c) = allowed_pairs dns (servers (cn_ns c)) (cn_hosts c)))"

lemma recover_chain:
  assumes fw: "iptables_documented (run E) chain"
  shows "list_all (\<lambda>r. rule_iface r = None) (chain (net_recover_startup E h))"
proof -
  have ok: "\<forall>r \<in> set nat_rules. rule_ok r" by (simp add: nat_rules_def)
  have "chain (ipfwd_recover E h) = chain h" for h
    by (simp add: ipfwd_recover_def Let_def chain_same[OF fw] split: option.splits)
  then have "chain (net_recover_startup E h) = fold remove1 nat_rules (other_rules (chain h))"
    by (simp add: net_recover_startup_def exec_deletes[OF fw ok] chain_same[OF fw] chain_ScrubRules[OF fw])
  moreover have "set (fold remove1 rs xs) \<subseteq> set xs" for rs xs :: "rule list"
    by (induction rs arbitrary: xs) (auto dest: notin_set_remove1 subsetD[OF set_remove1_subset])
  ultimately show ?thesis unfolding list_all_iff other_rules_def by fastforce
qed

lemma pinned_refreshed:
  assumes "pinned D c" "refreshed dns c c'" "dns \<in> D"
  shows "pinned D c'"
proof -
  obtain eg t where c': "c' = c\<lparr>cn_eg := eg, cn_next_refresh := t\<rparr>"
      "cn_eg c' = cn_eg c \<or> set (cn_eg c') = allowed_pairs dns (servers (cn_ns c)) (cn_hosts c)"
    using assms(2) unfolding refreshed_def by blast
  then show ?thesis using assms(1,3) by (auto simp: pinned_def)
qed

lemma up_added_pinned:
  assumes "up_added dns pid hosts nss d ch d' ch' slot" "dns \<in> D" "\<forall>i \<in> live d. pinned D (g_nets d ! i)"
  shows "\<forall>i \<in> live d'. pinned D (g_nets d' ! i)"
proof
  fix i assume "i \<in> live d'"
  show "pinned D (g_nets d' ! i)"
  proof (cases "i = slot")
    case True
    then show ?thesis using assms(1,2) by (auto simp: up_added_def pinned_def Let_def MAX_EGRESS_def)
  next
    case False
    then have "i \<in> live d" "g_nets d' ! i = g_nets d ! i"
      using \<open>i \<in> live d'\<close> assms(1) by (auto simp: up_added_def Let_def)
    with assms(3) show ?thesis by simp
  qed
qed

lemma net_reach_inv:
  assumes "net_reach E D d h" "net_host_ok E chain D"
  shows "net_inv d (chain h) \<and> (\<forall>i \<in> live d. pinned D (g_nets d ! i))"
  using assms(1)
proof induction
  case (start h0)
  have "live netd_init = {}" by (simp add: live_def netd_init_def free_net_def)
  then show ?case using assms(2) recover_chain[of E chain] net_inv_init by (simp add: net_host_ok_def)
next
  case (up d h dns pid hosts nss rc rep d' h')
  have "net_inv d' (chain h') \<and> (rc = -1 \<and> up_failed d (chain h) d' (chain h') \<or>
     rc = 0 \<and> (\<exists>slot. up_added dns pid hosts nss d (chain h) d' (chain h') slot))"
    using net_up_outcome[OF _ _ _ _ up.hyps(3,4,5)] up assms(2) by (simp add: net_host_ok_def)
  then show ?case using up_added_pinned[OF _ up.hyps(2)] up.IH by (auto simp: up_failed_def)
next
  case (down d h pid d' h')
  then show ?case using net_down_inv[OF _ down.hyps(2,3), of chain] assms(2)
    by (auto simp: net_host_ok_def kept_def)
next
  case (refresh d h dns now nets h')
  have "net_inv (d\<lparr>g_nets := nets\<rparr>) (chain h') \<and> live (d\<lparr>g_nets := nets\<rparr>) = live d \<and>
      list_all2 (refreshed dns) (g_nets d) nets"
    using refresh_inv[OF _ _ _ _ refresh.hyps(3), of chain] refresh assms(2) by (simp add: net_host_ok_def)
  moreover have "length (g_nets d) = 64" using refresh.IH by (simp add: net_inv_def)
  ultimately show ?case using refresh.IH pinned_refreshed[OF _ _ refresh.hyps(2)]
    by (auto simp: list_all2_conv_all_nth live_def)
qed

end
