(* ===== verification/Sim_Host.thy ===== *)
theory Sim_Host
  imports Netd
begin

text \<open>
  A simulated host that does what \<open>iptables_documented\<close> says, with a log of its effects and a
  choice of inserts that fail. It shows that the contract can be met and carries the concrete
  runs of the network properties.
\<close>

record sim =
  sim_chain :: "rule list"
  sim_fwd :: int
  sim_saved :: "int option"
  sim_log :: "host_effect list"

fun sim_effect :: "host_effect \<Rightarrow> sim \<Rightarrow> sim" where
  "sim_effect (Sh (Insert r)) h = h\<lparr>sim_chain := r # sim_chain h\<rparr>"
| "sim_effect (Sh (Delete r)) h = h\<lparr>sim_chain := remove1 r (sim_chain h)\<rparr>"
| "sim_effect (Sh (Ensure r)) h = (if r \<in> set (sim_chain h) then h else h\<lparr>sim_chain := r # sim_chain h\<rparr>)"
| "sim_effect (Sh (Scrub i)) h = h\<lparr>sim_chain := filter (\<lambda>r. rule_iface r \<noteq> Some i) (sim_chain h)\<rparr>"
| "sim_effect (Sh ScrubRules) h = h\<lparr>sim_chain := other_rules (sim_chain h)\<rparr>"
| "sim_effect (WriteFwd v) h = h\<lparr>sim_fwd := v\<rparr>"
| "sim_effect (SaveFwd v) h = h\<lparr>sim_saved := Some v\<rparr>"
| "sim_effect UnlinkSave h = h\<lparr>sim_saved := None\<rparr>"
| "sim_effect _ h = h"

definition sim_run :: "(rule \<Rightarrow> bool) \<Rightarrow> sim runner" where
  "sim_run fails e h =
     (let h' = h\<lparr>sim_log := sim_log h @ [e]\<rparr> in
      case e of Sh (Insert r) \<Rightarrow> if fails r then (1, h') else (0, sim_effect e h') | _ \<Rightarrow> (0, sim_effect e h'))"

definition sim_env :: "(rule \<Rightarrow> bool) \<Rightarrow> sim env" where
  "sim_env fails = \<lparr>run = sim_run fails, read_fwd = (\<lambda>h. Some (Some (sim_fwd h))),
     read_saved = (\<lambda>h. map_option Some (sim_saved h)), now_of = (\<lambda>h. 0)\<rparr>"

definition sim_start :: sim where
  "sim_start = \<lparr>sim_chain = [], sim_fwd = 0, sim_saved = None, sim_log = []\<rparr>"

lemma sim_run_simps [simp]:
  "sim_run fails (Sh (Insert r)) h = (let h' = h\<lparr>sim_log := sim_log h @ [Sh (Insert r)]\<rparr> in
     if fails r then (1, h') else (0, h'\<lparr>sim_chain := r # sim_chain h\<rparr>))"
  "sim_run fails (WriteFwd v) h = (0, sim_effect (WriteFwd v) (h\<lparr>sim_log := sim_log h @ [WriteFwd v]\<rparr>))"
  "sim_run fails (SaveFwd v) h = (0, sim_effect (SaveFwd v) (h\<lparr>sim_log := sim_log h @ [SaveFwd v]\<rparr>))"
  "sim_run fails UnlinkSave h = (0, sim_effect UnlinkSave (h\<lparr>sim_log := sim_log h @ [UnlinkSave]\<rparr>))"
  "(\<forall>r. c \<noteq> Insert r) \<Longrightarrow> sim_run fails (Sh c) h = (0, sim_effect (Sh c) (h\<lparr>sim_log := sim_log h @ [Sh c]\<rparr>))"
  by (auto simp: sim_run_def Let_def split: sh_cmd.splits)

lemma sim_documented: "iptables_documented (sim_run fails) sim_chain"
  unfolding iptables_documented_def
proof (intro conjI allI impI)
  fix h e
  assume e: "(\<forall>r. e \<noteq> Sh (Insert r) \<and> e \<noteq> Sh (Delete r) \<and> e \<noteq> Sh (Ensure r)) \<and> (\<forall>i. e \<noteq> Sh (Scrub i)) \<and> e \<noteq> Sh ScrubRules"
  have "sim_chain (sim_effect e h) = sim_chain h" for h
    using e by (cases "(e, h)" rule: sim_effect.cases) auto
  with e show "sim_chain (snd (sim_run fails e h)) = sim_chain h"
    by (cases e) (auto simp: sim_run_def Let_def split: sh_cmd.splits)
qed (simp_all add: Let_def)

lemma sim_simps [simp]:
  "run (sim_env fails) = sim_run fails" "read_fwd (sim_env fails) h = Some (Some (sim_fwd h))"
  "read_saved (sim_env fails) h = map_option Some (sim_saved h)" "now_of (sim_env fails) h = 0"
  by (simp_all add: sim_env_def)

subsection \<open>The first cell of a fresh daemon\<close>

lemma find_upt_0: "P 0 \<Longrightarrow> 0 < n \<Longrightarrow> find P [0..<n] = Some 0"
  by (simp add: upt_conv_Cons)

lemma first_slot: "find (\<lambda>i. cn_pid (g_nets netd_init ! i) = 0) [0..<64] = Some 0"
  by (rule find_upt_0) (simp_all add: netd_init_def free_net_def)

lemma first_idx: "find (\<lambda>i. \<not> bm_test (g_netmap netd_init) i) [0..<16384] = Some 0"
  by (rule find_upt_0) (simp_all add: netd_init_def bm_test_def)

definition demo_ip :: cstr where "demo_ip = ''1.2.3.4''"

lemma pton_demo_ip: "inet_pton4 demo_ip = Some [Suc 0, 2, 3, 4]"
  by (simp add: demo_ip_def inet_pton4_def Let_def canonical_def isdigit_def digit_val_def)

lemma ntop_demo_ip: "inet_ntop4 [Suc 0, 2, 3, 4] = demo_ip"
  using inet_ntop_pton[OF pton_demo_ip] .

definition demo_pair :: "cstr \<Rightarrow> egpair" where
  "demo_pair port = \<lparr>ep_ip = demo_ip, ep_port = port\<rparr>"

definition demo_cell :: "cstr \<Rightarrow> cell_net" where
  "demo_cell port = \<lparr>cn_pid = 7, cn_idx = 0, cn_eg = [demo_pair port],
     cn_hosts = [\<lparr>eh_host = demo_ip, eh_port = port\<rparr>], cn_ns = [], cn_next_refresh = 60\<rparr>"

definition demo_netd :: "cstr \<Rightarrow> netd" where
  "demo_netd port = \<lparr>g_netmap = bm_set (replicate 256 0) 0, g_nets = (replicate 64 free_net)[0 := demo_cell port],
     g_nat_on = True, g_fwd_save = 0\<rparr>"

definition demo_chain :: "(rule \<Rightarrow> bool) \<Rightarrow> cstr \<Rightarrow> rule list" where
  "demo_chain fails port = filter (\<lambda>r. \<not> fails r)
     [accept_rule 0 (demo_pair port), VethDns 0, VethEstab 0, VethDrop 0] @ [LinkLocalDrop, DstAccept, SrcAccept]"

lemma net_up_steps:
  assumes "find (\<lambda>i. cn_pid (g_nets d ! i) = 0) [0..<64] = Some slot"
    "find (\<lambda>i. \<not> bm_test (g_netmap d) i) [0..<16384] = Some idx"
    "c0 = (g_nets d ! slot)\<lparr>cn_idx := idx, cn_eg := [], cn_hosts := [], cn_ns := [], cn_next_refresh := 0\<rparr>"
    "net_link E idx pid h = (True, h1)"
    "nat_ensure E (d\<lparr>g_netmap := bm_set (g_netmap d) idx, g_nets := (g_nets d)[slot := c0]\<rparr>) h1 = (d2, h2)"
    "c = c0\<lparr>cn_pid := pid, cn_hosts := map cut_host (take MAX_EGRESS hosts), cn_ns := map (snprintf_s 64) (take MAX_NS nss)\<rparr>"
    "\<not> egress_no_resolv (needs_dns (cn_hosts c)) (length (cn_ns c))"
    "net_egress E dns c (hosts \<noteq> []) h2 = (None, c', h3)"
  shows "net_up E dns d h pid hosts nss = (0, snprintf_s 128 (ok_reply c'), d2\<lparr>g_nets := (g_nets d2)[slot := c']\<rparr>, h3)"
  unfolding net_up_def assms(1,2) option.case Let_def assms(3)[symmetric] assms(4) case_prod_conv assms(5)
    assms(6)[symmetric]
  using assms(7,8) by simp

lemma netd_init_sel:
  "g_netmap netd_init = replicate 256 0" "g_nets netd_init = replicate 64 free_net"
  "\<not> g_nat_on netd_init" "g_fwd_save netd_init = -1"
  by (simp_all add: netd_init_def)

lemma sim_link:
  "\<exists>h'. net_link (sim_env fails) idx pid h = (True, h') \<and> sim_chain h' = sim_chain h \<and> sim_fwd h' = sim_fwd h"
  by (simp add: net_link_def Let_def)

lemma sim_nat:
  assumes "\<not> g_nat_on d" "sim_fwd h = 0" "sim_chain h = []"
  shows "\<exists>h'. nat_ensure (sim_env fails) d h = (d\<lparr>g_fwd_save := 0, g_nat_on := True\<rparr>, h') \<and>
    sim_chain h' = [LinkLocalDrop, DstAccept, SrcAccept]"
  using assms by (simp add: nat_ensure_def nat_rules_def Let_def)

lemma demo_egress:
  assumes "\<not> fails (accept_rule 0 (demo_pair port))" "length port \<le> 7"
    "cn_idx c = 0" "cn_eg c = []" "cn_hosts c = [\<lparr>eh_host = demo_ip, eh_port = port\<rparr>]"
  shows "\<exists>h'. net_egress (sim_env fails) dns c True h = (None, c\<lparr>cn_eg := [demo_pair port], cn_next_refresh := 60\<rparr>, h') \<and>
    sim_chain h' = filter (\<lambda>r. \<not> fails r) [accept_rule 0 (demo_pair port), VethDns 0, VethEstab 0, VethDrop 0] @ sim_chain h \<and>
    Sh (Insert (accept_rule 0 (demo_pair port))) \<in> set (sim_log h')"
proof -
  have mk: "mk_pair demo_ip port = demo_pair port"
    using assms(2) by (simp add: mk_pair_def demo_pair_def snprintf_s_def demo_ip_def)
  have want: "egress_want dns c = Inr ([demo_pair port], 0)"
    by (simp add: egress_want_def assms resolve_egress_def pton_demo_ip ntop_demo_ip has_pair_def MAX_EG_IPS_def mk)
  define h1 where "h1 = egress_base (sim_run fails) 0 True h"
  have h1: "sim_chain h1 = filter (\<lambda>r. \<not> fails r) [VethDns 0, VethEstab 0, VethDrop 0] @ sim_chain h"
    by (simp add: h1_def egress_base_def base_rules_def Let_def)
  define h2 where "h2 = h1\<lparr>sim_log := sim_log h1 @ [Sh (Insert (accept_rule 0 (demo_pair port)))],
      sim_chain := accept_rule 0 (demo_pair port) # sim_chain h1\<rparr>"
  have "egress_apply (sim_run fails) c [demo_pair port] h1 = (0, c\<lparr>cn_eg := [demo_pair port]\<rparr>, h2)"
    using assms by (simp add: egress_apply_def drop_stale.simps MAX_EG_IPS_def egress_accept_def Let_def h2_def)
  then have "net_egress (sim_env fails) dns c True h = (None, c\<lparr>cn_eg := [demo_pair port], cn_next_refresh := 60\<rparr>, h2)"
    by (simp add: net_egress_def want assms(3) h1_def[symmetric] refresh_at_def EG_TTL_CAP_def)
  moreover have "sim_chain h2 = filter (\<lambda>r. \<not> fails r) [accept_rule 0 (demo_pair port), VethDns 0, VethEstab 0, VethDrop 0] @ sim_chain h"
    using assms(1) h1 by (simp add: h2_def)
  ultimately show ?thesis by (intro exI[of _ h2]) (simp add: h2_def)
qed

text \<open>\<^verbatim>\<open>NETUP 7 EGRESS 1.2.3.4 <port>\<close> on a fresh daemon, when the accept can be inserted: the reply
  is \<^verbatim>\<open>OK\<close>, and the chain and the commands are these.\<close>

lemma demo_net_up:
  assumes "\<not> fails (accept_rule 0 (demo_pair port))" "length port \<le> 7" "sim_chain h = []" "sim_fwd h = 0"
  shows "\<exists>h'. net_up (sim_env fails) dns netd_init h 7 [\<lparr>eh_host = demo_ip, eh_port = port\<rparr>] [] =
      (0, snprintf_s 128 (ok_reply (demo_cell port)), demo_netd port, h') \<and>
    sim_chain h' = demo_chain fails port \<and> Sh (Insert (accept_rule 0 (demo_pair port))) \<in> set (sim_log h')"
proof -
  let ?host = "\<lparr>eh_host = demo_ip, eh_port = port\<rparr>"
  let ?c = "free_net\<lparr>cn_pid := 7, cn_hosts := [?host]\<rparr>"
  let ?d1 = "netd_init\<lparr>g_netmap := bm_set (replicate 256 0) 0, g_nets := (replicate 64 free_net)[0 := free_net]\<rparr>"
  obtain h1 where l: "net_link (sim_env fails) 0 7 h = (True, h1)" and h1: "sim_chain h1 = []" "sim_fwd h1 = 0"
    using sim_link[of fails 0 7 h] assms by auto
  have "\<not> g_nat_on ?d1" by (simp add: netd_init_sel)
  from sim_nat[OF this h1(2,1), of fails] obtain h2 where
      n: "nat_ensure (sim_env fails) ?d1 h1 = (?d1\<lparr>g_fwd_save := 0, g_nat_on := True\<rparr>, h2)"
      and h2: "sim_chain h2 = [LinkLocalDrop, DstAccept, SrcAccept]" by blast
  have c: "cn_idx ?c = 0" "cn_eg ?c = []" "cn_hosts ?c = [?host]" by (simp_all add: free_net_def)
  from demo_egress[where fails = fails and port = port and c = ?c and dns = dns and h = h2, OF assms(1,2) c] obtain h3 where
      e: "net_egress (sim_env fails) dns ?c True h2 = (None, ?c\<lparr>cn_eg := [demo_pair port], cn_next_refresh := 60\<rparr>, h3)"
      and h3: "sim_chain h3 = demo_chain fails port" "Sh (Insert (accept_rule 0 (demo_pair port))) \<in> set (sim_log h3)"
    using h2 unfolding demo_chain_def by metis
  have cut: "cut_host ?host = ?host" using assms(2) by (simp add: cut_host_def snprintf_s_def demo_ip_def)
  have nodns: "\<not> egress_no_resolv (needs_dns [?host]) 0" by (simp add: egress_no_resolv_def needs_dns_def pton_demo_ip)
  have fn: "free_net\<lparr>cn_idx := 0, cn_eg := [], cn_hosts := [], cn_ns := [], cn_next_refresh := 0\<rparr> = free_net"
      "free_net\<lparr>cn_pid := 7, cn_hosts := [?host], cn_ns := []\<rparr> = ?c" by (simp_all add: free_net_def)
  have cell: "?c\<lparr>cn_eg := [demo_pair port], cn_next_refresh := 60\<rparr> = demo_cell port"
    by (simp add: free_net_def demo_cell_def)
  have slot: "g_nets netd_init ! 0 = free_net" by (simp add: netd_init_sel)
  let ?d2 = "?d1\<lparr>g_fwd_save := 0, g_nat_on := True\<rparr>"
  have "net_up (sim_env fails) dns netd_init h 7 [?host] [] =
      (0, snprintf_s 128 (ok_reply (demo_cell port)), ?d2\<lparr>g_nets := (g_nets ?d2)[0 := demo_cell port]\<rparr>, h3)"
  proof (rule net_up_steps[OF first_slot first_idx refl l, where c = ?c])
    show "nat_ensure (sim_env fails) (netd_init\<lparr>g_netmap := bm_set (g_netmap netd_init) 0, g_nets := (g_nets netd_init)
        [0 := (g_nets netd_init ! 0)\<lparr>cn_idx := 0, cn_eg := [], cn_hosts := [], cn_ns := [], cn_next_refresh := 0\<rparr>]\<rparr>) h1 = (?d2, h2)"
      unfolding slot fn(1) unfolding netd_init_sel by (rule n)
    show "?c = (g_nets netd_init ! 0)\<lparr>cn_idx := 0, cn_eg := [], cn_hosts := [], cn_ns := [], cn_next_refresh := 0,
        cn_pid := 7, cn_hosts := map cut_host (take MAX_EGRESS [?host]), cn_ns := map (snprintf_s 64) (take MAX_NS [])\<rparr>"
      unfolding slot by (simp add: free_net_def MAX_EGRESS_def cut)
    show "\<not> egress_no_resolv (needs_dns (cn_hosts ?c)) (length (cn_ns ?c))" using nodns by (simp add: free_net_def)
    show "net_egress (sim_env fails) dns ?c ([?host] \<noteq> []) h2 = (None, demo_cell port, h3)" using e unfolding cell by simp
  qed
  moreover have "?d2\<lparr>g_nets := (g_nets ?d2)[0 := demo_cell port]\<rparr> = demo_netd port"
    by (simp add: demo_netd_def netd_init_def)
  ultimately show ?thesis using h3 by simp
qed

end
