(* ===== verification/Netd_Claims.thy ===== *)
theory Netd_Claims
  imports Netd_Reach Sim_Host
begin

text \<open>
  The properties of the network component: isolation of the cells in every reachable state,
  allocation of networks, the outcome of \<^verbatim>\<open>NETUP\<close> and \<^verbatim>\<open>NETDOWN\<close>, the allowlist difference,
  recovery of \<^verbatim>\<open>ip_forward\<close> after a crash, and three ways in which the code falls short.
\<close>

subsection \<open>The simulated host meets the contract\<close>

definition no_dns :: dns where "no_dns ns host = []"

definition demo_host :: "cstr \<Rightarrow> eghost" where
  "demo_host port = \<lparr>eh_host = demo_ip, eh_port = port\<rparr>"

lemma dns_ok_no_dns: "dns_ok no_dns"
  by (simp add: dns_ok_def no_dns_def)

lemma sim_host_ok: "net_host_ok (sim_env (\<lambda>_. False)) sim_chain {no_dns}"
  by (simp add: net_host_ok_def sim_documented base_installs_def accepts_install_def dns_ok_no_dns Let_def)

lemma host_ok_demo: "host_ok (demo_host ''443'')"
  by (simp add: host_ok_def port_ok_def demo_host_def isdigit_def val_def digit_val_def)

lemma sim_recover:
  "sim_chain (net_recover_startup (sim_env f) sim_start) = []" "sim_fwd (net_recover_startup (sim_env f) sim_start) = 0"
  by (simp_all add: net_recover_startup_def ipfwd_recover_def nat_rules_def sim_start_def)

lemma demo_reach:
  "\<exists>h. net_reach (sim_env (\<lambda>_. False)) {no_dns} (demo_netd ''443'') h \<and> sim_chain h = demo_chain (\<lambda>_. False) ''443''"
proof -
  let ?E = "sim_env (\<lambda>_. False)" and ?h = "net_recover_startup (sim_env (\<lambda>_. False)) sim_start"
  have s: "net_reach ?E {no_dns} netd_init ?h" by (rule net_reach.start)
  obtain h' where u: "net_up ?E no_dns netd_init ?h 7 [demo_host ''443''] [] =
      (0, snprintf_s 128 (ok_reply (demo_cell ''443'')), demo_netd ''443'', h')"
      "sim_chain h' = demo_chain (\<lambda>_. False) ''443''"
    using demo_net_up[of "\<lambda>_. False" "''443''" ?h no_dns] sim_recover unfolding demo_host_def by auto
  have "net_reach ?E {no_dns} (demo_netd ''443'') h'"
    by (rule net_reach.up[OF s _ _ _ u(1)]) (simp_all add: host_ok_demo)
  with u(2) show ?thesis by blast
qed

lemma demo_live: "live (demo_netd port) = {0}" "g_nets (demo_netd port) ! 0 = demo_cell port"
  by (auto simp: live_def demo_netd_def demo_cell_def free_net_def nth_list_update split: if_splits)

subsection \<open>Isolation and allocation\<close>



text \<open>The two ends of the network with index \<open>idx\<close>, as the daemon writes them.\<close>

definition net_addr :: "nat \<Rightarrow> cstr" where
  "net_addr n = ''10.200.'' @ dec (n div 256) @ ''.'' @ dec (n mod 256)"

definition net_ends :: "nat \<Rightarrow> cstr set" where
  "net_ends idx = {net_addr (idx * 4 + 1), net_addr (idx * 4 + 2)}"

lemma dec_dot: "dec a @ CHR ''.'' # x = dec b @ CHR ''.'' # y \<Longrightarrow> a = b \<and> x = y"
proof -
  assume e: "dec a @ CHR ''.'' # x = dec b @ CHR ''.'' # y"
  have t: "takeWhile isdigit (dec n @ CHR ''.'' # z) = dec n" for n z
  proof -
    have "\<And>c. c \<in> set (dec n) \<Longrightarrow> isdigit c" using dec_digits[of n] by (simp add: list_all_iff)
    then show ?thesis by (simp add: takeWhile_append2 isdigit_def)
  qed
  have "dec a = dec b" using arg_cong[OF e, of "takeWhile isdigit"] unfolding t .
  then show ?thesis using e by (simp add: dec_inj)
qed

lemma net_addr_inj: "net_addr m = net_addr n \<Longrightarrow> m = n"
proof -
  assume "net_addr m = net_addr n"
  then have "dec (m div 256) @ CHR ''.'' # dec (m mod 256) = dec (n div 256) @ CHR ''.'' # dec (n mod 256)" by (simp add: net_addr_def)
  from dec_dot[OF this] have "m div 256 = n div 256" "m mod 256 = n mod 256" by (simp_all add: dec_inj)
  then show ?thesis by (metis div_mult_mod_eq)
qed

lemma net_ends_disjoint: "x \<noteq> y \<Longrightarrow> net_ends x \<inter> net_ends y = {}"
proof -
  assume "x \<noteq> y"
  then have "x * 4 + k \<noteq> y * 4 + l" if "k < 4" "l < 4" for k l using that by arith
  from this[of 1 1] this[of 1 2] this[of 2 1] this[of 2 2] show ?thesis
    unfolding net_ends_def using net_addr_inj by fastforce
qed



subsection \<open>Single operations\<close>

lemma net_up_fail_link: "net_up_fail E slot idx d h = (d', h') \<Longrightarrow> \<exists>h0. h' = snd (run E (Sh (LinkDel idx)) h0)"
  by (auto simp: net_up_fail_def scrub_effects_def Let_def)

text \<open>A \<^verbatim>\<open>NETUP\<close> that fails did nothing at all, or its last act is to delete the link of the network it had taken.\<close>

lemma net_up_link_deleted:
  assumes "net_up E dns d h pid hosts nss = (rc, rep, d', h')" "rc \<noteq> 0" "length (g_netmap d) = 256"
  shows "(d', h') = (d, h) \<or> (\<exists>idx h0. idx \<notin> bm_members (g_netmap d) \<and> h' = snd (run E (Sh (LinkDel idx)) h0))"
proof (cases "find (\<lambda>i. cn_pid (g_nets d ! i) = 0) [0..<64] = None \<or> find (\<lambda>i. \<not> bm_test (g_netmap d) i) [0..<16384] = None")
  case True
  then show ?thesis using assms(1) by (auto simp: net_up_def split: option.splits)
next
  case False
  then obtain slot idx where S: "find (\<lambda>i. cn_pid (g_nets d ! i) = 0) [0..<64] = Some slot"
    and I: "find (\<lambda>i. \<not> bm_test (g_netmap d) i) [0..<16384] = Some idx" by auto
  have "idx \<notin> bm_members (g_netmap d)" using words.find_free_Some[OF I] assms(3) by simp
  moreover have "\<exists>d0 h0. net_up_fail E slot idx d0 h0 = (d', h')"
    using assms(1,2) by (auto simp: net_up_def S I Let_def case_prod_beta split: if_splits option.splits)
  ultimately show ?thesis using net_up_fail_link[of E slot idx] by blast
qed

text \<open>C9: \<^verbatim>\<open>NETUP\<close> is all or nothing for slots, networks, rules of interfaces and links. On failure the live cells, the bitmap and the
  rules of every interface are as before, and either nothing was done at all or the last act was to delete the link of the
  network that had been taken; what \<^verbatim>\<open>nat_ensure\<close> switched on stays on. On success one more cell lives, in a slot and a
  network that were free, and its accepts are exactly the resolved pairs. In both cases the other cells and their rules
  are untouched, also when inserting an accept fails half way. The request has a process id other than 0 and decimal ports,
  and the three base rules are assumed to install, since the code does not look at their status.\<close>

theorem net_up_all_or_nothing:
  assumes "iptables_documented (run E) chain" "base_installs (run E)" "dns_ok dns" "net_inv d (chain h)"
    "pid \<noteq> 0" "list_all host_ok hosts" "net_up E dns d h pid hosts nss = (rc, rep, d', h')"
  shows "net_inv d' (chain h') \<and> (rc = -1 \<and> up_failed d (chain h) d' (chain h') \<and> bm_members (g_netmap d') = bm_members (g_netmap d) \<and>
       ((d', h') = (d, h) \<or> (\<exists>idx h0. idx \<notin> bm_members (g_netmap d) \<and> h' = snd (run E (Sh (LinkDel idx)) h0))) \<or>
     rc = 0 \<and> (\<exists>slot. up_added dns pid hosts nss d (chain h) d' (chain h') slot))"
proof -
  note out = net_up_outcome[OF assms]
  have "bm_members (g_netmap d') = bm_members (g_netmap d)" if "up_failed d (chain h) d' (chain h')"
  proof -
    have "idx_of d' ` live d' = idx_of d ` live d" using that by (simp add: up_failed_def idx_of_def)
    then show ?thesis using out assms(4) by (simp add: net_inv_def)
  qed
  moreover have "rc = -1 \<longrightarrow> (d', h') = (d, h) \<or> (\<exists>idx h0. idx \<notin> bm_members (g_netmap d) \<and> h' = snd (run E (Sh (LinkDel idx)) h0))"
    using net_up_link_deleted[OF assms(7)] assms(4) by (auto simp: net_inv_def)
  ultimately show ?thesis using out by blast
qed

theorem net_up_all_or_nothing_witness:
  "\<exists>h' :: sim. net_inv (demo_netd ''443'') (sim_chain h') \<and>
     (\<exists>slot. up_added no_dns 7 [demo_host ''443''] [] netd_init [] (demo_netd ''443'') (sim_chain h') slot)"
proof -
  let ?E = "sim_env (\<lambda>_. False)"
  obtain h' where u: "net_up ?E no_dns netd_init sim_start 7 [demo_host ''443''] [] =
      (0, snprintf_s 128 (ok_reply (demo_cell ''443'')), demo_netd ''443'', h')"
    using demo_net_up[of "\<lambda>_. False" "''443''" sim_start no_dns] unfolding demo_host_def by (auto simp: sim_start_def)
  have inv: "net_inv netd_init (sim_chain sim_start)" by (rule net_inv_init) (simp add: sim_start_def)
  have fw: "iptables_documented (run ?E) sim_chain" "base_installs (run ?E)"
    using sim_host_ok by (simp_all add: net_host_ok_def)
  from net_up_all_or_nothing[OF fw dns_ok_no_dns inv _ _ u] host_ok_demo show ?thesis
    by (simp add: sim_start_def) blast
qed

text \<open>C17: \<^verbatim>\<open>NETDOWN\<close> of a process other than 0 removes its cells and nothing else, in a state where the network invariant holds (as in
  every state of \<open>net_reach\<close> on a host where inserts succeed; there a cell with hosts has at least one accept, which is what
  makes the code delete its base rules): the live cells that remain are those of other processes, unchanged and with
  unchanged rules, and a removed cell has no rule of its interface and no network left.\<close>

theorem net_down_removes:
  assumes "iptables_documented (run E) chain" "pid \<noteq> 0" "net_inv d (chain h)" "net_down E pid (d, h) = (d', h')"
  shows "net_inv d' (chain h') \<and> live d' = {i \<in> live d. cn_pid (g_nets d ! i) \<noteq> pid} \<and> kept chain d h d' h' \<and>
    (\<forall>i. i \<in> live d \<and> i \<notin> live d' \<longrightarrow> iface_rules (idx_of d i) (chain h') = [] \<and> idx_of d i \<notin> bm_members (g_netmap d'))"
proof -
  note down = net_down_inv[OF assms(1,2,4,3)]
  have "idx_of d i \<notin> idx_of d' ` live d'" if i: "i \<in> live d" "i \<notin> live d'" for i
  proof
    assume "idx_of d i \<in> idx_of d' ` live d'"
    then obtain k where k: "k \<in> live d'" "idx_of d i = idx_of d' k" by blast
    then have "idx_of d' k = idx_of d k" "k \<in> live d" using down by (auto simp: kept_def idx_of_def)
    then have "i = k" using k i assms(3) inj_onD[of "idx_of d" "live d" i k] by (simp add: net_inv_def)
    with k i show False by simp
  qed
  with down show ?thesis by (auto simp: net_inv_def)
qed

theorem net_down_removes_witness:
  "\<exists>(h :: sim) d' h'. net_inv (demo_netd ''443'') (sim_chain h) \<and> net_down (sim_env (\<lambda>_. False)) 7 (demo_netd ''443'', h) = (d', h') \<and>
     live d' = {} \<and> iface_rules 0 (sim_chain h') = []"
proof -
  let ?E = "sim_env (\<lambda>_. False)"
  obtain h where r: "net_reach ?E {no_dns} (demo_netd ''443'') h" using demo_reach by blast
  have inv: "net_inv (demo_netd ''443'') (sim_chain h)" using net_reach_inv[OF r sim_host_ok] by simp
  have fw: "iptables_documented (run ?E) sim_chain" and pid: "(7 :: int) \<noteq> 0" by (simp_all add: sim_documented)
  obtain d' h' where dn: "net_down ?E 7 (demo_netd ''443'', h) = (d', h')" by (cases "net_down ?E 7 (demo_netd ''443'', h)")
  note res = net_down_removes[OF fw pid inv dn]
  have pid0: "cn_pid (g_nets (demo_netd ''443'') ! 0) = 7" by (simp add: demo_live demo_cell_def)
  have "live d' = {i \<in> {0}. cn_pid (g_nets (demo_netd ''443'') ! i) \<noteq> 7}"
    using res[THEN conjunct2, THEN conjunct1] unfolding demo_live(1) .
  also have "\<dots> = {}" using pid0 by blast
  finally have lv: "live d' = {}" .
  have "iface_rules (idx_of (demo_netd ''443'') 0) (sim_chain h') = []"
    using res[THEN conjunct2, THEN conjunct2, THEN conjunct2] lv by (simp add: demo_live)
  then have "iface_rules 0 (sim_chain h') = []" by (simp add: demo_live demo_cell_def idx_of_def)
  with inv dn lv show ?thesis by (intro exI conjI)
qed

text \<open>C19: the allowlist difference. \<^verbatim>\<open>egress_apply\<close> ends with exactly the recorded accepts in the
  kernel, whichever inserts fail: never an address that is not wanted, every wanted address it
  already had, and all wanted addresses when it reports no failure; no other interface and no
  foreign rule changes.\<close>

theorem egress_apply_installs:
  assumes "iptables_documented rn chain" "egress_apply rn c want h = (failed, c', h')"
    "\<And>e. e \<in> set (cn_eg c) \<union> set want \<Longrightarrow> pair_ok e" "distinct (cn_eg c)"
    "allowlist (cn_idx c) (cn_eg c) (chain h)" "distinct want" "length want \<le> MAX_EG_IPS"
  shows "allowlist (cn_idx c) (cn_eg c') (chain h') \<and> set (cn_eg c) \<inter> set want \<subseteq> set (cn_eg c') \<and>
    set (cn_eg c') \<subseteq> set want \<and> (failed = 0 \<longrightarrow> set (cn_eg c') = set want) \<and>
    only_iface (cn_idx c) (chain h) (chain h')"
proof -
  note ac = egress_apply_correct[OF assms]
  show ?thesis using ac(1,3-6) by simp
qed

theorem egress_apply_installs_witness:
  "\<exists>h'. egress_apply (sim_run (\<lambda>_. False)) (demo_cell ''80'') [demo_pair ''443''] (sim_start\<lparr>sim_chain := demo_chain (\<lambda>_. False) ''80''\<rparr>)
       = (0, (demo_cell ''80'')\<lparr>cn_eg := [demo_pair ''443'']\<rparr>, h') \<and> allowlist 0 [demo_pair ''443''] (sim_chain h')"
proof -
  let ?h = "sim_start\<lparr>sim_chain := demo_chain (\<lambda>_. False) ''80''\<rparr>" and ?c = "demo_cell ''80''"
  let ?h1 = "snd (egress_accept (sim_run (\<lambda>_. False)) 0 (demo_pair ''80'') False ?h)"
  have nil: "drop_stale rn 0 want [] 0 h = ([], h)" for rn want and h :: sim by (subst drop_stale.simps) simp
  have ne: "demo_pair ''80'' \<noteq> demo_pair ''443''" by (simp add: demo_pair_def)
  have "drop_stale (sim_run (\<lambda>_. False)) 0 [demo_pair ''443''] [demo_pair ''80''] 0 ?h = ([], ?h1)"
    by (subst drop_stale.simps) (simp add: ne nil)
  moreover obtain h' where "egress_accept (sim_run (\<lambda>_. False)) 0 (demo_pair ''443'') True ?h1 = (0, h')"
    by (simp add: egress_accept_def Let_def)
  moreover have c: "cn_idx ?c = 0" "cn_eg ?c = [demo_pair ''80'']" by (simp_all add: demo_cell_def)
  ultimately have ap: "egress_apply (sim_run (\<lambda>_. False)) ?c [demo_pair ''443''] ?h
       = (0, ?c\<lparr>cn_eg := [demo_pair ''443'']\<rparr>, h')"
    by (simp add: egress_apply_def MAX_EG_IPS_def)
  have al: "allowlist (cn_idx ?c) (cn_eg ?c) (sim_chain ?h)"
    unfolding allowlist_def
    by (rule exI[of _ "[accept_rule 0 (demo_pair ''80'')]"]) (simp add: c demo_chain_def base_rules_def)
  have ok: "pair_ok e" if "e \<in> set (cn_eg ?c) \<union> set [demo_pair ''443'']" for e
    using that unfolding c
    by (auto simp: demo_pair_def pair_ok_def pton_demo_ip port_ok_def isdigit_def val_def digit_val_def)
  have "distinct (cn_eg ?c)" "distinct [demo_pair ''443'']" "length [demo_pair ''443''] \<le> MAX_EG_IPS"
    by (simp_all add: demo_cell_def MAX_EG_IPS_def)
  note res = egress_apply_installs[OF sim_documented ap ok this(1) al this(2,3)]
  have al': "allowlist 0 [demo_pair ''443''] (sim_chain h')" using res[THEN conjunct1] by (simp add: c)
  show ?thesis by (rule exI[of _ h'], rule conjI[OF ap al'])
qed

text \<open>C20: resolution. When the resolution of a cell's hosts succeeds, the wanted pairs are exactly
  the literal hosts themselves and every address record every resolver of the cell gave for
  the others, each once, and at most 128 of them.\<close>

theorem egress_want_complete:
  assumes "egress_want dns c = Inr (want, ttl)" "dns_ok dns" "\<And>h. h \<in> set (cn_hosts c) \<Longrightarrow> length (eh_port h) \<le> 7"
  shows "set want = allowed_pairs dns (servers (cn_ns c)) (cn_hosts c) \<and> distinct want \<and> length want \<le> MAX_EG_IPS"
  using egress_want_pairs[OF assms] by blast

theorem egress_want_complete_witness:
  "\<exists>want. egress_want no_dns (demo_cell ''443'') = Inr (want, 0) \<and>
     set want = allowed_pairs no_dns [] [demo_host ''443'']"
proof -
  have w: "egress_want no_dns (demo_cell ''443'') = Inr ([demo_pair ''443''], 0)"
    by (simp add: egress_want_def demo_cell_def resolve_egress_def pton_demo_ip ntop_demo_ip has_pair_def
        MAX_EG_IPS_def mk_pair_def demo_pair_def snprintf_s_def demo_ip_def[symmetric] Let_def)
       (simp add: demo_ip_def)
  from egress_want_complete[OF w dns_ok_no_dns] w show ?thesis
    by (simp add: demo_cell_def demo_host_def servers_def List.map_filter_def)
qed

subsection \<open>Crash recovery of \<^verbatim>\<open>ip_forward\<close>\<close>

text \<open>The two files: writes take effect, nothing else touches them.\<close>

definition files_documented :: "'h env \<Rightarrow> bool" where
  "files_documented E \<longleftrightarrow>
     (\<forall>h v. read_fwd E (snd (run E (WriteFwd v) h)) = Some (Some v)) \<and>
     (\<forall>h v. read_saved E (snd (run E (WriteFwd v) h)) = read_saved E h) \<and>
     (\<forall>h v. read_saved E (snd (run E (SaveFwd v) h)) = Some (Some v)) \<and>
     (\<forall>h v. read_fwd E (snd (run E (SaveFwd v) h)) = read_fwd E h) \<and>
     (\<forall>h. read_saved E (snd (run E UnlinkSave h)) = None) \<and>
     (\<forall>h. read_fwd E (snd (run E UnlinkSave h)) = read_fwd E h) \<and>
     (\<forall>h c. read_fwd E (snd (run E (Sh c) h)) = read_fwd E h \<and> read_saved E (snd (run E (Sh c) h)) = read_saved E h)"

lemma files_exec_sh:
  assumes "files_documented E"
  shows "read_fwd E (exec (run E) (map Sh cs) h) = read_fwd E h"
    "read_saved E (exec (run E) (map Sh cs) h) = read_saved E h"
  using assms by (induction cs arbitrary: h) (simp_all add: files_documented_def)

text \<open>A daemon that is killed after \<open>n\<close> effects on the host: the same operations on a host where every later effect does nothing.\<close>

definition dying :: "'h env \<Rightarrow> ('h \<times> nat) env" where
  "dying E = \<lparr>run = (\<lambda>e s. if snd s = 0 then (-1, s) else (fst (run E e (fst s)), (snd (run E e (fst s)), snd s - 1))),
     read_fwd = read_fwd E \<circ> fst, read_saved = read_saved E \<circ> fst, now_of = now_of E \<circ> fst\<rparr>"

lemma exec_dying: "exec (run (dying E)) es (h, n) = (exec (run E) (take n es) h, n - length es)"
proof (induction es arbitrary: h n)
  case (Cons e es)
  then show ?case by (cases n) (simp_all add: dying_def)
qed simp

definition nat_effects :: "int \<Rightarrow> host_effect list" where
  "nat_effects v = [SaveFwd v, WriteFwd 1] @ map Sh (NatEnsure # map Ensure nat_rules)"

definition nat_undo :: "int \<Rightarrow> host_effect list" where
  "nat_undo v = map Sh (NatDelete # map Delete nat_rules) @ [WriteFwd v, UnlinkSave]"

lemma nat_ensure_effects:
  "read_fwd E h = Some (Some v) \<Longrightarrow> 0 \<le> v \<Longrightarrow> \<not> g_nat_on d \<Longrightarrow>
     nat_ensure E d h = (d\<lparr>g_fwd_save := v, g_nat_on := True\<rparr>, exec (run E) (nat_effects v) h)"
  by (simp add: nat_ensure_def nat_effects_def comp_def)

lemma nat_teardown_effects:
  "g_nat_on d \<Longrightarrow> g_fwd_save d = v \<Longrightarrow> 0 \<le> v \<Longrightarrow> nat_teardown E d h = (d\<lparr>g_nat_on := False\<rparr>, exec (run E) (nat_undo v) h)"
  by (simp add: nat_teardown_def nat_undo_def comp_def)

text \<open>What the two files hold whenever the daemon is killed: the value in use and no copy, or the copy.\<close>

lemma files_killed:
  assumes "files_documented E" "read_fwd E h = Some (Some v)" "read_saved E h = None"
    "hc = exec (run E) (take n (SaveFwd v # WriteFwd 1 # map Sh cs @ [WriteFwd v, UnlinkSave])) h"
  shows "read_saved E hc = None \<and> read_fwd E hc = Some (Some v) \<or> read_saved E hc = Some (Some v)"
proof -
  consider "n = 0" | "n = 1" | m where "n = Suc (Suc m)" by (metis One_nat_def not0_implies_Suc)
  then show ?thesis
  proof cases
    case (3 m)
    define h2 where "h2 = exec (run E) (map Sh (take m cs)) (snd (run E (WriteFwd 1) (snd (run E (SaveFwd v) h))))"
    have s2: "read_saved E h2 = Some (Some v)" unfolding h2_def files_exec_sh(2)[OF assms(1)] using assms(1) by (simp add: files_documented_def)
    have hc: "hc = exec (run E) (take (m - length cs) [WriteFwd v, UnlinkSave]) h2" by (simp add: assms(4) 3 h2_def take_map)
    consider "m - length cs = 0" | "m - length cs = 1" | k where "m - length cs = Suc (Suc k)" by (metis One_nat_def not0_implies_Suc)
    then show ?thesis using s2 assms(1) by cases (simp_all add: hc files_documented_def)
  qed (use assms in \<open>simp_all add: files_documented_def\<close>)
qed

text \<open>C21: \<^verbatim>\<open>ip_forward\<close> survives a crash. A daemon switches forwarding on with \<^verbatim>\<open>nat_ensure\<close>, runs any number of shell commands, and
  ends with \<^verbatim>\<open>nat_teardown\<close>. If it is killed at any point of this, that is after any number \<open>n\<close> of its effects on the host
  (\<open>dying\<close>; a large \<open>n\<close> is a daemon that is not killed), the start-up of the next daemon puts \<^verbatim>\<open>ip_forward\<close> back to the value it had
  before and leaves no saved copy behind. The value could be read, there was no saved copy before, and nobody else
  writes the two files (\<open>files_documented\<close>).\<close>

theorem ip_forward_recovered:
  assumes "files_documented E" "read_fwd E h = Some (Some v)" "0 \<le> v" "read_saved E h = None" "\<not> g_nat_on d"
    "nat_ensure (dying E) d (h, n) = (d1, s1)" "nat_teardown (dying E) d1 (exec (run (dying E)) (map Sh cs) s1) = (d2, s2)"
    "h' = net_recover_startup E (fst s2)"
  shows "read_fwd E h' = Some (Some v) \<and> read_saved E h' = None"
proof -
  let ?es = "NatEnsure # map Ensure nat_rules @ cs @ NatDelete # map Delete nat_rules"
  have "read_fwd (dying E) (h, n) = Some (Some v)" using assms(2) by (simp add: dying_def)
  from nat_ensure_effects[OF this assms(3,5)] have 1: "s1 = exec (run (dying E)) (nat_effects v) (h, n)" "g_nat_on d1" "g_fwd_save d1 = v"
    using assms(6) by auto
  have "s2 = exec (run (dying E)) (nat_undo v) (exec (run (dying E)) (map Sh cs) s1)"
    using assms(7) unfolding nat_teardown_effects[OF 1(2,3) assms(3)] by blast
  then have "s2 = exec (run (dying E)) (SaveFwd v # WriteFwd 1 # map Sh ?es @ [WriteFwd v, UnlinkSave]) (h, n)"
    unfolding 1(1) by (simp add: nat_effects_def nat_undo_def)
  then have hc: "fst s2 = exec (run E) (take n (SaveFwd v # WriteFwd 1 # map Sh ?es @ [WriteFwd v, UnlinkSave])) h"
    unfolding exec_dying by simp
  note crash = files_killed[OF assms(1,2,4) hc]
  define h2 where "h2 = exec (run E) (map Sh ([ScrubLinks, ScrubRules, NatDelete] @ map Delete nat_rules)) (fst s2)"
  have h2: "read_fwd E h2 = read_fwd E (fst s2)" "read_saved E h2 = read_saved E (fst s2)"
    unfolding h2_def by (rule files_exec_sh[OF assms(1)])+
  have "h' = ipfwd_recover E h2" by (simp add: assms(8) net_recover_startup_def h2_def comp_def)
  with crash h2 assms(1,3) show ?thesis by (auto simp: ipfwd_recover_def files_documented_def)
qed

text \<open>Killed right after forwarding was switched on.\<close>

theorem ip_forward_recovered_witness:
  "\<exists>d1 s1 d2 s2. nat_ensure (dying (sim_env (\<lambda>_. False))) netd_init (sim_start, 2) = (d1, s1) \<and> sim_fwd (fst s1) = 1 \<and>
     nat_teardown (dying (sim_env (\<lambda>_. False))) d1 s1 = (d2, s2) \<and>
     sim_fwd (net_recover_startup (sim_env (\<lambda>_. False)) (fst s2)) = 0"
proof -
  let ?E = "sim_env (\<lambda>_. False)"
  have f: "files_documented ?E"
  proof -
    have "sim_fwd (sim_effect (Sh c) h) = sim_fwd h \<and> sim_saved (sim_effect (Sh c) h) = sim_saved h" for c h
      by (cases c) auto
    then have "sim_fwd (snd (sim_run (\<lambda>_. False) (Sh c) h)) = sim_fwd h \<and> sim_saved (snd (sim_run (\<lambda>_. False) (Sh c) h)) = sim_saved h" for c h
      by (cases "\<exists>r. c = Insert r") (auto simp: Let_def)
    then show ?thesis by (simp add: files_documented_def)
  qed
  obtain d1 s1 where 1: "nat_ensure (dying ?E) netd_init (sim_start, 2) = (d1, s1)" by (rule prod.exhaust)
  obtain d2 s2 where 2: "nat_teardown (dying ?E) d1 s1 = (d2, s2)" by (rule prod.exhaust)
  have on: "\<not> g_nat_on netd_init" by (simp add: netd_init_def)
  have r: "read_fwd ?E sim_start = Some (Some 0)" "read_saved ?E sim_start = None" by (simp_all add: sim_start_def)
  have "read_fwd (dying ?E) (sim_start, 2) = Some (Some 0)" by (simp add: dying_def sim_start_def)
  from nat_ensure_effects[OF this _ on] 1 have "s1 = exec (run (dying ?E)) (nat_effects 0) (sim_start, 2)" by simp
  then have "sim_fwd (fst s1) = 1" unfolding exec_dying by (simp add: nat_effects_def numeral_2_eq_2)
  moreover have "sim_fwd (net_recover_startup ?E (fst s2)) = 0"
    using ip_forward_recovered[OF f r(1) _ r(2) on 1, of "[]" d2 s2] 2 by simp
  ultimately show ?thesis using 1 2 by blast
qed

subsection \<open>Where the code falls short\<close>

lemma down_zero_fold:
  assumes "foldl (down_step E 0) (d, h) slots = (d', h')" "length (g_nets d) = 64" "length (g_netmap d) = 256"
    "set slots \<subseteq> {..<64}" "\<forall>k < 64. cn_idx (g_nets d ! k) < 16384"
  shows "live d' = live d \<and> (\<forall>k < 64. cn_idx (g_nets d' ! k) = cn_idx (g_nets d ! k)) \<and>
    bm_members (g_netmap d') = bm_members (g_netmap d) - (\<lambda>k. cn_idx (g_nets d ! k)) ` (set slots - live d)"
  using assms
proof (induction slots arbitrary: d h)
  case (Cons i slots)
  show ?case
  proof (cases "cn_pid (g_nets d ! i) = 0")
    case True
    define d1 where "d1 = d\<lparr>g_netmap := bm_clear (g_netmap d) (cn_idx (g_nets d ! i)), g_nets := (g_nets d)[i := clear_net (g_nets d ! i)]\<rparr>"
    obtain h1 where "foldl (down_step E 0) (d1, h1) slots = (d', h')"
      using Cons.prems(1) True by (auto simp: release_def Let_def d1_def)
    moreover have n1: "cn_idx (g_nets d1 ! k) = cn_idx (g_nets d ! k)" "cn_pid (g_nets d1 ! k) = cn_pid (g_nets d ! k)" for k
      using True Cons.prems(2,4) by (cases "k = i"; simp add: d1_def clear_net_def)+
    moreover have l1: "live d1 = live d" using n1(2) by (simp add: live_def)
    ultimately have IH: "live d' = live d \<and> (\<forall>k < 64. cn_idx (g_nets d' ! k) = cn_idx (g_nets d ! k)) \<and>
        bm_members (g_netmap d') = bm_members (g_netmap d1) - (\<lambda>k. cn_idx (g_nets d ! k)) ` (set slots - live d)"
      using Cons.IH[of d1 h1] Cons.prems(2-5) by (simp add: d1_def)
    have "cn_idx (g_nets d ! i) < 64 * length (g_netmap d)" using Cons.prems(3-5) by simp
    then have "bm_members (g_netmap d1) = bm_members (g_netmap d) - {cn_idx (g_nets d ! i)}"
      by (simp add: d1_def words.members_cl)
    moreover have "set (i # slots) - live d = insert i (set slots - live d)" using True by (auto simp: live_def)
    ultimately show ?thesis using IH by auto
  next
    case False
    then have "set (i # slots) - live d = set slots - live d" using Cons.prems(4) by (auto simp: live_def)
    then show ?thesis using False Cons.IH[of d h] Cons.prems by simp
  qed
qed simp

text \<open>\<^verbatim>\<open>NETDOWN 0\<close> frees the network of a live cell. Free slots have process id 0 and keep the
  index of the cell that used them (0 when none did), so the request matches every one of them
  and clears the bit, and deletes the link, of whichever live cell has that network now; the cell
  still lives and the next \<^verbatim>\<open>NETUP\<close> can be given the same addresses.\<close>

theorem netdown_zero_frees_live_network:
  assumes "net_inv d ch" "\<forall>k < 64. cn_idx (g_nets d ! k) < 16384" "i \<in> live d" "k < 64" "k \<notin> live d"
    "cn_idx (g_nets d ! k) = idx_of d i" "net_down E 0 (d, h) = (d', h')"
  shows "i \<in> live d' \<and> idx_of d' i = idx_of d i \<and> idx_of d i \<in> bm_members (g_netmap d) \<and> idx_of d i \<notin> bm_members (g_netmap d')"
proof -
  have len: "length (g_nets d) = 64" "length (g_netmap d) = 256" and mem: "idx_of d i \<in> bm_members (g_netmap d)"
    using assms(1,3) by (auto simp: net_inv_def)
  have "foldl (down_step E 0) (d, h) [0..<64] = (d', h')" using assms(7) by (simp add: net_down_def)
  from down_zero_fold[OF this len _ assms(2)]
  have r: "live d' = live d" "\<forall>k < 64. cn_idx (g_nets d' ! k) = cn_idx (g_nets d ! k)"
      "bm_members (g_netmap d') = bm_members (g_netmap d) - (\<lambda>k. cn_idx (g_nets d ! k)) ` ({0..<64} - live d)"
    by (auto simp: atLeast0LessThan)
  have "idx_of d i \<in> (\<lambda>k. cn_idx (g_nets d ! k)) ` ({0..<64} - live d)"
    using assms(4-6) by (intro image_eqI[of _ _ k]) simp_all
  then show ?thesis using r mem assms(3) by (simp add: idx_of_def live_def)
qed

theorem netdown_zero_frees_live_network_witness:
  "\<exists>d' h'. net_down (sim_env (\<lambda>_. False)) 0 (demo_netd ''443'', sim_start) = (d', h') \<and> 0 \<in> live d' \<and> 0 \<notin> bm_members (g_netmap d')"
proof -
  let ?E = "sim_env (\<lambda>_. False)"
  obtain h where r: "net_reach ?E {no_dns} (demo_netd ''443'') h" using demo_reach by blast
  have inv: "net_inv (demo_netd ''443'') (sim_chain h)" using net_reach_inv[OF r sim_host_ok] by simp
  have nets: "g_nets (demo_netd ''443'') ! k = (if k = 0 then demo_cell ''443'' else free_net)" if "k < 64" for k
    using that by (simp add: demo_netd_def)
  obtain d' h' where dn: "net_down ?E 0 (demo_netd ''443'', sim_start) = (d', h')"
    by (cases "net_down ?E 0 (demo_netd ''443'', sim_start)")
  have b: "\<forall>k < 64. cn_idx (g_nets (demo_netd ''443'') ! k) < 16384"
  proof (intro allI impI)
    fix k :: nat assume "k < 64"
    from nets[OF this] show "cn_idx (g_nets (demo_netd ''443'') ! k) < 16384" by (simp add: demo_cell_def free_net_def)
  qed
  have "cn_idx (g_nets (demo_netd ''443'') ! 1) = idx_of (demo_netd ''443'') 0"
    using nets[of 1] by (simp add: idx_of_def demo_live demo_cell_def free_net_def)
  then have "0 \<in> live d' \<and> idx_of (demo_netd ''443'') 0 \<notin> bm_members (g_netmap d')"
    using netdown_zero_frees_live_network[OF inv b _ _ _ _ dn, of 0 1] by (simp add: demo_live(1))
  then have "0 \<in> live d'" "0 \<notin> bm_members (g_netmap d')" by (simp_all add: idx_of_def demo_live demo_cell_def)
  with dn show ?thesis by (intro exI conjI)
qed

text \<open>A base rule that cannot be installed is not noticed. \<^verbatim>\<open>egress_base\<close> discards the status of its
  three inserts, so on a host where only the \<^verbatim>\<open>DROP\<close> of the cell fails \<^verbatim>\<open>NETUP\<close> with an allowlist
  answers \<^verbatim>\<open>OK\<close> and the cell's packets to any address are accepted by the global rule.\<close>

theorem lost_drop_rule_opens_cell:
  "\<exists>rep d' h'. iptables_documented (run (sim_env (\<lambda>r. r = VethDrop 0))) sim_chain \<and>
     net_up (sim_env (\<lambda>r. r = VethDrop 0)) no_dns netd_init sim_start 7 [demo_host ''443''] [] = (0, rep, d', h') \<and>
     chain_hit fr (sim_chain h')
       \<lparr>pk_in = Some 0, pk_src = [10, 200, 0, 2], pk_dst = [8, 8, 8, 8], pk_proto = TCP, pk_dport = 22, pk_estab = False\<rparr> = Some ACCEPT"
proof -
  let ?f = "\<lambda>r. r = VethDrop 0"
  obtain h' where u: "net_up (sim_env ?f) no_dns netd_init sim_start 7 [demo_host ''443''] [] =
      (0, snprintf_s 128 (ok_reply (demo_cell ''443'')), demo_netd ''443'', h')"
      and ch: "sim_chain h' = demo_chain ?f ''443''"
    using demo_net_up[of ?f "''443''" sim_start no_dns] unfolding demo_host_def by (auto simp: sim_start_def accept_rule_def)
  have "chain_hit fr (sim_chain h')
       \<lparr>pk_in = Some 0, pk_src = [10, 200, 0, 2], pk_dst = [8, 8, 8, 8], pk_proto = TCP, pk_dport = 22, pk_estab = False\<rparr> = Some ACCEPT"
    by (simp add: ch demo_chain_def accept_rule_def demo_pair_def pton_demo_ip in_net_def)
  with u show ?thesis by (auto simp: sim_documented)
qed

end
