(* ===== verification/Daemon.thy ===== *)
theory Daemon
  imports Lsm_Policy Netd
begin

text \<open>
  The control socket of \<^verbatim>\<open>src/agentlsm.c\<close>: connections, the request parser \<^verbatim>\<open>serve_line\<close>, the event
  fan-out and the read loop of \<^verbatim>\<open>serve_mode\<close>. The daemon's state is the policy maps, the network state,
  the host, the connection table and what has been written to each descriptor. The bytes pending
  on a connection (\<^verbatim>\<open>buf\<close> and \<^verbatim>\<open>len\<close> of \<^verbatim>\<open>struct conn\<close>) are kept beside it in \<open>server\<close>, since
  only the read loop touches them. What the outside decides while one request is handled (resolver
  answers, places of new map entries, whether a write succeeds) is an \<open>outside\<close>.
\<close>

subsection \<open>Connections\<close>

definition MAX_WATCH :: nat where "MAX_WATCH = 64"
definition BUF_MAX :: nat where "BUF_MAX = 4096 - 1"

record conn =
  c_fd :: int
  c_watcher :: bool
  c_mask :: u32
  c_drain :: bool

record 'h daemon =
  dm_maps :: lsm_maps
  dm_net :: netd
  dm_host :: 'h
  g_conn :: "conn list"
  dm_sent :: "(int \<times> cstr) list"
  dm_stdout :: cstr

record outside =
  o_dns :: dns
  o_places :: "nat \<times> nat"
  o_write :: "int \<Rightarrow> cstr \<Rightarrow> bool"

abbreviation conn_fd :: "'h daemon \<Rightarrow> nat \<Rightarrow> int" where
  "conn_fd d i \<equiv> c_fd (g_conn d ! i)"

definition drop_entry :: "conn \<Rightarrow> conn" where
  "drop_entry c = c\<lparr>c_fd := -1, c_watcher := False, c_mask := 0, c_drain := False\<rparr>"

definition conn_drop :: "nat \<Rightarrow> 'h daemon \<Rightarrow> 'h daemon" where
  "conn_drop i d = d\<lparr>g_conn := (g_conn d)[i := drop_entry (g_conn d ! i)]\<rparr>"

text \<open>\<open>if (write(fd, s, strlen(s)) < 0) conn_drop(i)\<close>.\<close>

definition reply :: "outside \<Rightarrow> nat \<Rightarrow> cstr \<Rightarrow> 'h daemon \<Rightarrow> 'h daemon" where
  "reply w i s d =
     (if o_write w (conn_fd d i) s then d\<lparr>dm_sent := dm_sent d @ [(conn_fd d i, s)]\<rparr> else conn_drop i d)"

subsection \<open>Events\<close>

definition class_bit :: "nat \<Rightarrow> u32" where
  "class_bit ty = push_bit ty 1"

definition wants :: "u32 \<Rightarrow> conn \<Rightarrow> bool" where
  "wants bits c \<longleftrightarrow> \<not> c_fd c < 0 \<and> c_watcher c \<and> c_mask c AND bits \<noteq> 0"

definition fan_one :: "outside \<Rightarrow> cstr \<Rightarrow> u32 \<Rightarrow> 'h daemon \<Rightarrow> nat \<Rightarrow> 'h daemon" where
  "fan_one w line bits d i = (if wants bits (g_conn d ! i) then reply w i line d else d)"

definition fanout :: "outside \<Rightarrow> cstr \<Rightarrow> u32 \<Rightarrow> 'h daemon \<Rightarrow> 'h daemon" where
  "fanout w line bits d =
     (let d1 = (if bits AND (class_bit EV_DENY OR class_bit EV_TRIP) \<noteq> 0
                then d\<lparr>dm_stdout := dm_stdout d @ line\<rparr> else d)
      in foldl (fan_one w line bits) d1 [0..<MAX_WATCH])"

text \<open>A C string inside a byte buffer ends at the first NUL.\<close>

definition cut0 :: "cstr \<Rightarrow> cstr" where
  "cut0 s = takeWhile (\<lambda>c. c \<noteq> CHR 0x00) s"

definition byte_at :: "cstr \<Rightarrow> nat \<Rightarrow> nat" where
  "byte_at p k = (if k < length p then of_char (p ! k) else 0)"

definition who :: "evt \<Rightarrow> cstr" where
  "who e = cut0 (ev_comm e) @ ''['' @ dec (unat (ev_tgid e)) @ '']''"

text \<open>The sockaddr of a \<^verbatim>\<open>connect\<close>: family in host (little-endian) order, port in network order.\<close>

definition connect_info :: "evt \<Rightarrow> cstr" where
  "connect_info e =
     (let p = ev_path e; fam = byte_at p 0 + 256 * byte_at p 1
      in if fam = 2
         then who e @ '' connect '' @ inet_ntop4 (map (byte_at p) [4, 5, 6, 7]) @ '':'' @
              dec (256 * byte_at p 2 + byte_at p 3)
         else who e @ '' connect family='' @ dec fam)"

definition evt_info :: "ac_sys list \<Rightarrow> evt \<Rightarrow> (cstr \<times> cstr) option" where
  "evt_info tab e =
     (let path = who e @ '' '' @ cut0 (ev_path e) in
      if ev_type e = EV_DENY then Some (''DENY'', path)
      else if ev_type e = EV_EXEC then Some (''EXEC'', path)
      else if ev_type e = EV_OPEN then Some (''OPEN'', path)
      else if ev_type e = EV_CONNECT then Some (''NET'', connect_info e)
      else if ev_type e = EV_TRIP then
        Some (''TRIP'', who e @ '' blocked syscall '' @ attempt_name tab (ev_nr e) @ '' ('' @ dec (unat (ev_nr e)) @ '')'')
      else None)"

definition on_evt :: "ac_sys list \<Rightarrow> outside \<Rightarrow> evt \<Rightarrow> 'h daemon \<Rightarrow> 'h daemon" where
  "on_evt tab w e d =
     (case evt_info tab e of None \<Rightarrow> d
      | Some (cls, info) \<Rightarrow>
          fanout w (snprintf_s 400 (''EV '' @ dec (unat (ev_cgid e)) @ '' '' @ cls @ '' '' @ snprintf_s 300 info @ nl))
            (class_bit (ev_type e)) d)"

subsection \<open>Requests\<close>

definition starts :: "cstr \<Rightarrow> cstr \<Rightarrow> bool" where
  "starts k s \<longleftrightarrow> take (length k) s = k"

definition skip :: "cstr \<Rightarrow> cstr" where "skip = dropWhile (\<lambda>c. c = CHR '' '')"
definition word1 :: "cstr \<Rightarrow> cstr" where "word1 = takeWhile (\<lambda>c. c \<noteq> CHR '' '')"
definition after1 :: "cstr \<Rightarrow> cstr" where "after1 = dropWhile (\<lambda>c. c \<noteq> CHR '' '')"

text \<open>\<^verbatim>\<open>!strncmp(p, "EGRESS", 6) && (p[6] == ' ' || !p[6])\<close>.\<close>

definition keyword :: "cstr \<Rightarrow> cstr \<Rightarrow> bool" where
  "keyword k p \<longleftrightarrow> word1 p = k"

lemma skip_length: "length (skip s) \<le> length s"
  by (simp add: skip_def length_dropWhile_le)

lemma after1_length: "length (after1 s) \<le> length s"
  by (simp add: after1_def length_dropWhile_le)

lemma netup_dec2: "skip s \<noteq> [] \<Longrightarrow> length (after1 (skip (drop 6 (skip s)))) < length s"
proof -
  assume "skip s \<noteq> []"
  then have "length (drop 6 (skip s)) < length (skip s)" by (cases "skip s") auto
  then show ?thesis
    using skip_length[of s] skip_length[of "drop 6 (skip s)"] after1_length[of "skip (drop 6 (skip s))"] by linarith
qed

lemma netup_dec: "skip s \<noteq> [] \<Longrightarrow> length (after1 (skip (after1 (skip (drop 6 (skip s)))))) < length s"
  using netup_dec2[of s] skip_length[of "after1 (skip (drop 6 (skip s)))"]
    after1_length[of "skip (after1 (skip (drop 6 (skip s))))"] by linarith

text \<open>The token loop of \<^verbatim>\<open>NETUP\<close>: hosts, resolvers, and whether there were too many hosts.\<close>

function netup_args :: "cstr \<Rightarrow> eghost list \<Rightarrow> cstr list \<Rightarrow> eghost list \<times> cstr list \<times> bool" where
  "netup_args s hosts nss =
     (let p = skip s in
      if p = [] then (hosts, nss, False)
      else if keyword ''EGRESS'' p then
        let q = skip (drop 6 p) in
        if q = [] then (hosts, nss, False)
        else if length hosts \<ge> MAX_EGRESS then (hosts, nss, True)
        else let r = skip (after1 q) in
             if r = [] then (hosts, nss, False)
             else netup_args (after1 r) (hosts @ [\<lparr>eh_host = snprintf_s 128 (word1 q), eh_port = snprintf_s 8 (word1 r)\<rparr>]) nss
      else if keyword ''RESOLV'' p then
        let q = skip (drop 6 p) in
        if q = [] then (hosts, nss, False)
        else netup_args (after1 q) hosts (if length nss < MAX_NS then nss @ [snprintf_s 64 (word1 q)] else nss)
      else (hosts, nss, False))"
  by pat_completeness auto
termination
  by (relation "measure (\<lambda>(s, hosts, nss). length s)") (simp_all only: netup_dec netup_dec2 in_measure wf_measure case_prod_conv not_False_eq_True)

declare netup_args.simps [simp del]

text \<open>\<^verbatim>\<open>WATCH\<close>: the classes named, separated by commas; none named means all.\<close>

definition watch_class :: "cstr \<Rightarrow> u32" where
  "watch_class tok =
     (if tok = ''deny'' then class_bit EV_DENY
      else if tok = ''exec'' then class_bit EV_EXEC
      else if tok = ''open'' then class_bit EV_OPEN
      else if tok = ''net'' \<or> tok = ''connect'' then class_bit EV_CONNECT
      else if tok = ''trip'' then class_bit EV_TRIP
      else 0)"

definition watch_mask :: "cstr \<Rightarrow> u32" where
  "watch_mask s =
     (let m = foldl (\<lambda>m tok. m OR watch_class tok) 0 (strtok_all (CHR '','') (skip s))
      in if m = 0 then NOT 0 else m)"

text \<open>The lines of \<^verbatim>\<open>LIST\<close>; a failing write drops the connection and ends the request.\<close>

definition list_line :: "cellkey \<Rightarrow> cstr" where
  "list_line k = snprintf_s (PLEN + 32) (dec (unat (fst k)) @ '' '' @ snd k @ nl)"

fun send_list :: "outside \<Rightarrow> nat \<Rightarrow> cellkey list \<Rightarrow> 'h daemon \<Rightarrow> bool \<times> 'h daemon" where
  "send_list w i [] d = (True, d)"
| "send_list w i (k # ks) d =
     (if o_write w (conn_fd d i) (list_line k)
      then send_list w i ks (d\<lparr>dm_sent := dm_sent d @ [(conn_fd d i, list_line k)]\<rparr>)
      else (False, conn_drop i d))"

text \<open>\<^verbatim>\<open>(pid_t)pid\<close> keeps the low 32 bits.\<close>

definition to_pid :: "int \<Rightarrow> int" where
  "to_pid v = sint (word_of_int v :: 32 word)"

definition ok_or :: "bool \<Rightarrow> cstr \<Rightarrow> cstr" where
  "ok_or ok err = (if ok then ''OK'' @ nl else err @ nl)"

definition scan_rule :: "cstr \<Rightarrow> (u64 \<times> cstr) option" where
  "scan_rule s = (case scan_llu s of None \<Rightarrow> None
     | Some (cgid, r) \<Rightarrow> map_option (\<lambda>(p, _). (cgid, p)) (scan_s 63 r))"

definition serve_add :: "outside \<Rightarrow> cstr \<Rightarrow> 'h daemon \<Rightarrow> cstr \<times> 'h daemon" where
  "serve_add w s d =
     (case scan_rule s of None \<Rightarrow> (ok_or False ''ERR add'', d)
      | Some (cgid, p) \<Rightarrow>
          let (rc, ms) = cell_add (fst (o_places w)) (snd (o_places w)) (dm_maps d) cgid p
          in (ok_or (rc = 0) ''ERR add'', d\<lparr>dm_maps := ms\<rparr>))"

definition serve_del :: "cstr \<Rightarrow> 'h daemon \<Rightarrow> cstr \<times> 'h daemon" where
  "serve_del s d =
     (case scan_rule s of None \<Rightarrow> (ok_or False ''ERR del'', d)
      | Some (cgid, p) \<Rightarrow> let (rc, ms) = cell_del (dm_maps d) cgid p in (ok_or (rc = 0) ''ERR del'', d\<lparr>dm_maps := ms\<rparr>))"

definition serve_clr :: "cstr \<Rightarrow> 'h daemon \<Rightarrow> cstr \<times> 'h daemon" where
  "serve_clr s d =
     (case scan_llu s of None \<Rightarrow> (ok_or False ''ERR clr'', d)
      | Some (cgid, _) \<Rightarrow> let (rc, ms) = cell_clr (dm_maps d) cgid in (ok_or (rc = 0) ''ERR clr'', d\<lparr>dm_maps := ms\<rparr>))"

definition serve_watch :: "nat \<Rightarrow> cstr \<Rightarrow> 'h daemon \<Rightarrow> cstr \<times> 'h daemon" where
  "serve_watch i s d =
     (ok_or True [], d\<lparr>g_conn := (g_conn d)[i := (g_conn d ! i)\<lparr>c_watcher := True, c_mask := watch_mask s\<rparr>]\<rparr>)"

text \<open>When no number follows \<^verbatim>\<open>NETUP\<close> the tokens are parsed all the same, but only the reply
  for an unparseable request is given.\<close>

definition serve_netup :: "'h env \<Rightarrow> outside \<Rightarrow> cstr \<Rightarrow> 'h daemon \<Rightarrow> cstr \<times> 'h daemon" where
  "serve_netup E w s d =
     (case strtol s of None \<Rightarrow> (netup_reply False False 0 [], d)
      | Some (pid, r) \<Rightarrow>
          let (hosts, nss, too_many) = netup_args r [] [] in
          if too_many then (netup_reply True True 0 [], d)
          else let (rc, rep, net, h) = net_up E (o_dns w) (dm_net d) (dm_host d) (to_pid pid) hosts nss
               in (netup_reply True False rc rep, d\<lparr>dm_net := net, dm_host := h\<rparr>))"

definition serve_netdown :: "'h env \<Rightarrow> cstr \<Rightarrow> 'h daemon \<Rightarrow> cstr \<times> 'h daemon" where
  "serve_netdown E s d =
     (ok_or True [], case scan_ld s of None \<Rightarrow> d
      | Some (pid, _) \<Rightarrow> let (net, h) = net_down E (to_pid pid) (dm_net d, dm_host d) in d\<lparr>dm_net := net, dm_host := h\<rparr>)"

definition serve_line :: "'h env \<Rightarrow> outside \<Rightarrow> nat \<Rightarrow> cstr \<Rightarrow> 'h daemon \<Rightarrow> 'h daemon" where
  "serve_line E w i line0 d =
     (let line = skip line0; answer = (\<lambda>(rep, d'). reply w i rep d') in
      if starts ''ADD '' line then answer (serve_add w (drop 4 line) d)
      else if starts ''DEL '' line then answer (serve_del (drop 4 line) d)
      else if starts ''CLR '' line then answer (serve_clr (drop 4 line) d)
      else if line = ''LIST'' then
        (case send_list w i (list_walk (cellpol (dm_maps d)) (0, [])) d of
           (True, d') \<Rightarrow> reply w i (''END'' @ nl) d' | (False, d') \<Rightarrow> d')
      else if starts ''WATCH'' line then answer (serve_watch i (drop 5 line) d)
      else if starts ''NETUP '' line then answer (serve_netup E w (drop 6 line) d)
      else if starts ''NETDOWN '' line then answer (serve_netdown E (drop 8 line) d)
      else if line = ''QUIT'' \<or> line = ''BYE'' then conn_drop i d
      else reply w i (''ERR unknown'' @ nl) d)"

subsection \<open>The read loop\<close>

text \<open>\<open>sv_n\<close> numbers the requests, so that each has its own \<open>outside\<close>.\<close>

record 'h server =
  sv_daemon :: "'h daemon"
  sv_buf :: "cstr list"
  sv_n :: nat

definition drain_resume :: "cstr \<Rightarrow> nat option" where
  "drain_resume data =
     (if CHR 0x0A \<in> set data
      then Some (length data - length (takeWhile (\<lambda>c. c \<noteq> CHR 0x0A) data) - 1) else None)"

text \<open>The loop over complete lines: \<open>strchr\<close> and \<open>strlen\<close> stop at a NUL. When the connection
  closes the buffer is left as it is; \<^verbatim>\<open>accept\<close> empties it.\<close>

function process_lines :: "'h env \<Rightarrow> (nat \<Rightarrow> outside) \<Rightarrow> nat \<Rightarrow> nat \<Rightarrow> cstr \<Rightarrow> 'h daemon \<Rightarrow> 'h daemon \<times> cstr \<times> nat" where
  "process_lines E ws i n buf d =
     (if CHR 0x0A \<notin> set (cut0 buf) then (d, buf, n)
      else let line = takeWhile (\<lambda>c. c \<noteq> CHR 0x0A) (cut0 buf);
               d1 = serve_line E (ws n) i line d
           in if conn_fd d1 i < 0 then (d1, buf, Suc n)
              else process_lines E ws i (Suc n) (cut0 (drop (Suc (length line)) buf)) d1)"
  by pat_completeness auto
termination
proof (relation "measure (\<lambda>(E, ws, i, n, buf, d). length buf)", goal_cases)
  case (2 E ws i n buf d x xa)
  then have "buf \<noteq> []" by (auto simp: cut0_def)
  moreover have "length (cut0 s) \<le> length s" for s by (simp add: cut0_def length_takeWhile_le)
  ultimately show ?case by (simp add: le_less_trans[OF \<open>\<And>s. length (cut0 s) \<le> length s\<close>])
qed simp

declare process_lines.simps [simp del]

datatype polled = Idle | Hangup | Readable cstr

text \<open>One pass of the loop for connection \<open>i\<close>; \<open>Readable []\<close> is a read that returns 0 or an error.\<close>

definition too_long :: "outside \<Rightarrow> nat \<Rightarrow> 'h daemon \<times> cstr \<times> nat \<Rightarrow> 'h daemon \<times> cstr \<times> nat" where
  "too_long w i = (\<lambda>(d, buf, n).
     if conn_fd d i \<ge> 0 \<and> length buf \<ge> BUF_MAX then
       let d1 = reply w i (''ERR line_too_long'' @ nl) d
       in (d1\<lparr>g_conn := (g_conn d1)[i := (g_conn d1 ! i)\<lparr>c_drain := True\<rparr>]\<rparr>, [], n)
     else (d, buf, n))"

definition serve_data :: "'h env \<Rightarrow> (nat \<Rightarrow> outside) \<Rightarrow> nat \<Rightarrow> cstr \<Rightarrow> 'h daemon \<times> cstr \<times> nat \<Rightarrow> 'h daemon \<times> cstr \<times> nat" where
  "serve_data E ws i data = (\<lambda>(d, buf, n).
     if c_drain (g_conn d ! i) then
       let got = take (length data) (buf @ data) in
       case drain_resume got of None \<Rightarrow> (d, buf, n)
       | Some keep \<Rightarrow>
           too_long (ws n) i (d\<lparr>g_conn := (g_conn d)[i := (g_conn d ! i)\<lparr>c_drain := False\<rparr>]\<rparr>, drop (length data - keep) got, n)
     else let (d1, buf1, n1) = process_lines E ws i n (buf @ data) d in too_long (ws n1) i (d1, buf1, n1))"

definition serve_conn :: "'h env \<Rightarrow> (nat \<Rightarrow> outside) \<Rightarrow> nat \<Rightarrow> polled \<Rightarrow> 'h server \<Rightarrow> 'h server" where
  "serve_conn E ws i ev sv =
     (let d = sv_daemon sv in
      if conn_fd d i < 0 then sv
      else case ev of Idle \<Rightarrow> sv
      | Hangup \<Rightarrow> sv\<lparr>sv_daemon := conn_drop i d\<rparr>
      | Readable data \<Rightarrow>
          if data = [] then sv\<lparr>sv_daemon := conn_drop i d\<rparr>
          else let (d', buf, n) = serve_data E ws i data (d, sv_buf sv ! i, sv_n sv)
               in sv\<lparr>sv_daemon := d', sv_buf := (sv_buf sv)[i := buf], sv_n := n\<rparr>)"

definition accept_conn :: "int \<Rightarrow> 'h server \<Rightarrow> 'h server" where
  "accept_conn fd sv =
     (let d = sv_daemon sv in
      case find (\<lambda>i. conn_fd d i < 0) [0..<MAX_WATCH] of None \<Rightarrow> sv
      | Some i \<Rightarrow>
          sv\<lparr>sv_daemon := d\<lparr>g_conn := (g_conn d)[i := (g_conn d ! i)\<lparr>c_fd := fd, c_watcher := False, c_mask := 0\<rparr>]\<rparr>,
             sv_buf := (sv_buf sv)[i := []]\<rparr>)"

subsection \<open>Tokens\<close>

definition token :: "cstr \<Rightarrow> bool" where
  "token t \<longleftrightarrow> t \<noteq> [] \<and> CHR '' '' \<notin> set t"

definition gap :: "cstr \<Rightarrow> bool" where
  "gap r \<longleftrightarrow> r = [] \<or> hd r = CHR '' ''"

lemma skip_token: "token t \<Longrightarrow> skip (t @ r) = t @ r" "skip (CHR '' '' # s) = skip s"
  by (cases t; auto simp: token_def skip_def)+

lemma word1_token: "token t \<Longrightarrow> gap r \<Longrightarrow> word1 (t @ r) = t"
  by (cases r) (auto simp: token_def gap_def word1_def takeWhile_append takeWhile_eq_all_conv)

lemma after1_token: "token t \<Longrightarrow> gap r \<Longrightarrow> after1 (t @ r) = r"
  by (cases r) (auto simp: token_def gap_def after1_def dropWhile_append dropWhile_eq_Nil_conv)

lemma gap_simps [simp]: "gap []" "gap (CHR '' '' # r)"
  by (simp_all add: gap_def)

lemma netup_args_nil: "netup_args [] hosts nss = (hosts, nss, False)"
  by (subst netup_args.simps) (simp add: skip_def)

lemma netup_args_egress:
  assumes "token h" "token p" "gap r" "length hosts < MAX_EGRESS"
  shows "netup_args ('' EGRESS '' @ h @ '' '' @ p @ r) hosts nss =
    netup_args r (hosts @ [\<lparr>eh_host = snprintf_s 128 h, eh_port = snprintf_s 8 p\<rparr>]) nss"
proof -
  have k: "token ''EGRESS''" by (simp add: token_def)
  let ?p = "''EGRESS'' @ CHR '' '' # h @ CHR '' '' # p @ r"
  have p: "skip ('' EGRESS '' @ h @ '' '' @ p @ r) = ?p" using skip_token(1)[OF k] skip_token(2) by simp
  have kw: "keyword ''EGRESS'' ?p" unfolding keyword_def by (rule word1_token[OF k]) simp
  have d: "drop 6 ?p = CHR '' '' # h @ CHR '' '' # p @ r" by simp
  have q: "skip (drop 6 ?p) = h @ CHR '' '' # p @ r" unfolding d skip_token(2) by (rule skip_token(1)[OF assms(1)])
  have w: "word1 (h @ CHR '' '' # p @ r) = h" "after1 (h @ CHR '' '' # p @ r) = CHR '' '' # p @ r"
    by (simp_all add: word1_token[OF assms(1)] after1_token[OF assms(1)])
  have v: "skip (CHR '' '' # p @ r) = p @ r" "word1 (p @ r) = p" "after1 (p @ r) = r"
    using assms(2,3) by (simp_all add: skip_token word1_token after1_token)
  have ne: "h \<noteq> []" "p \<noteq> []" using assms(1,2) by (simp_all add: token_def)
  show ?thesis
    by (subst netup_args.simps) (use p kw q w v ne assms(4) in \<open>simp add: Let_def\<close>)
qed

lemma netup_args_resolv:
  assumes "token t" "gap r" "length nss < MAX_NS"
  shows "netup_args ('' RESOLV '' @ t @ r) hosts nss = netup_args r hosts (nss @ [snprintf_s 64 t])"
proof -
  have k: "token ''RESOLV''" by (simp add: token_def)
  let ?p = "''RESOLV'' @ CHR '' '' # t @ r"
  have p: "skip ('' RESOLV '' @ t @ r) = ?p" using skip_token(1)[OF k] skip_token(2) by simp
  have kw: "keyword ''RESOLV'' ?p" "\<not> keyword ''EGRESS'' ?p" unfolding keyword_def word1_token[OF k gap_simps(2)] by simp_all
  have q: "skip (drop 6 ?p) = t @ r" using skip_token(1)[OF assms(1)] skip_token(2) by simp
  have ne: "t \<noteq> []" using assms(1) by (simp add: token_def)
  show ?thesis
    by (subst netup_args.simps)
       (use p kw q ne assms word1_token[OF assms(1,2)] after1_token[OF assms(1,2)] in \<open>simp add: Let_def\<close>)
qed

end
