(* ===== verification/Daemon_Claims.thy ===== *)
theory Daemon_Claims
  imports Daemon Sim_Host
begin

text \<open>
  Properties of the control socket: framing of requests for any chunking of the stream, delivery of
  events, and what goes wrong in the handling of over-long lines and of unchecked ports.
\<close>

subsection \<open>What a request does to its connection\<close>

definition conn_kept :: "nat \<Rightarrow> 'h daemon \<Rightarrow> 'h daemon \<Rightarrow> bool" where
  "conn_kept i d d' \<longleftrightarrow> length (g_conn d') = length (g_conn d) \<and>
     (i < length (g_conn d) \<longrightarrow> \<not> c_drain (g_conn d ! i) \<longrightarrow> \<not> c_drain (g_conn d' ! i))"

lemma conn_kept_same: "g_conn d' = g_conn d \<Longrightarrow> conn_kept i d d'"
  by (simp add: conn_kept_def)

lemma conn_kept_trans: "conn_kept i a b \<Longrightarrow> conn_kept i b c \<Longrightarrow> conn_kept i a c"
  by (simp add: conn_kept_def)

lemma conn_kept_drop: "conn_kept i d (conn_drop i d)"
  by (simp add: conn_kept_def conn_drop_def drop_entry_def)

lemma conn_kept_reply: "conn_kept i d (reply w i s d)"
  by (simp add: reply_def conn_kept_drop conn_kept_same)

lemma conn_kept_list: "conn_kept i d (snd (send_list w i ks d))"
proof (induction w i ks d rule: send_list.induct)
  case (2 w i k ks d)
  show ?case
  proof (cases "o_write w (conn_fd d i) (list_line k)")
    case True
    then show ?thesis using 2 by (simp add: conn_kept_def)
  qed (simp add: conn_kept_drop)
qed (simp add: conn_kept_same)

lemma conn_kept_handlers:
  "conn_kept i d (snd (serve_add w s d))" "conn_kept i d (snd (serve_del s d))" "conn_kept i d (snd (serve_clr s d))"
  "conn_kept i d (snd (serve_netup E w s d))" "conn_kept i d (snd (serve_netdown E s d))" "conn_kept i d (snd (serve_watch i s d))"
  by (simp_all add: serve_add_def serve_del_def serve_clr_def serve_netup_def serve_netdown_def serve_watch_def
      conn_kept_def Let_def split: option.split prod.split)

lemma conn_kept_answer: "conn_kept i d (snd r) \<Longrightarrow> conn_kept i d (case r of (rep, d') \<Rightarrow> reply w i rep d')"
  using conn_kept_trans[OF _ conn_kept_reply] by (cases r) simp

lemma serve_line_kept: "conn_kept i d (serve_line E w i line d)"
proof -
  have "conn_kept i d (case send_list w i ks d of (True, d') \<Rightarrow> reply w i s d' | (False, d') \<Rightarrow> d')" for ks s
    using conn_kept_list[of i d w ks] conn_kept_trans[OF _ conn_kept_reply]
    by (cases "send_list w i ks d") (auto split: bool.split)
  then show ?thesis
    unfolding serve_line_def Let_def
    by (simp add: conn_kept_answer conn_kept_handlers conn_kept_reply conn_kept_drop)
qed

subsection \<open>Lines\<close>

definition lines_of :: "cstr \<Rightarrow> cstr list" where
  "lines_of s = butlast (split_on (CHR 0x0A) s)"

definition tail_of :: "cstr \<Rightarrow> cstr" where
  "tail_of s = last (split_on (CHR 0x0A) s)"

lemma split_on_ne [simp]: "split_on sep s \<noteq> []"
  by (cases s) (auto split: list.splits)

lemma split_on_append:
  "split_on sep (a @ b) = butlast (split_on sep a) @ split_on sep (last (split_on sep a) @ b)"
proof (induction a)
  case (Cons c a)
  obtain w ws where w: "split_on sep a = w # ws" by (cases "split_on sep a") simp_all
  show ?case
  proof (cases "c = sep")
    case False
    show ?thesis using Cons False w by (cases ws) (auto split: list.splits)
  qed (use Cons in simp)
qed simp

lemma split_on_chars: "w \<in> set (split_on sep s) \<Longrightarrow> set w \<subseteq> set s"
proof (induction s arbitrary: w)
  case (Cons c s)
  obtain v vs where v: "split_on sep s = v # vs" by (cases "split_on sep s") simp_all
  then have "set u \<subseteq> set s" if "u = v \<or> u \<in> set vs" for u using Cons.IH[of u] that by auto
  then show ?case using Cons.prems v by (auto split: if_splits; blast)
qed simp

lemma tail_no_nl: "CHR 0x0A \<notin> set (tail_of s)"
proof -
  have "sep \<notin> set w" if "w \<in> set (split_on sep s)" for w sep
    using that by (induction s arbitrary: w) (auto split: if_splits list.splits)
  then show ?thesis by (simp add: tail_of_def)
qed

lemma lines_append: "lines_of (a @ b) = lines_of a @ lines_of (tail_of a @ b)"
  by (simp add: lines_of_def tail_of_def split_on_append[of _ a b] butlast_append)

lemma tail_append: "tail_of (a @ b) = tail_of (tail_of a @ b)"
  by (simp add: tail_of_def split_on_append[of _ a b])

lemma lines_none: "CHR 0x0A \<notin> set s \<Longrightarrow> lines_of s = []" "CHR 0x0A \<notin> set s \<Longrightarrow> tail_of s = s"
  by (simp_all add: lines_of_def tail_of_def split_on_word)

lemma lines_Cons:
  "CHR 0x0A \<notin> set l \<Longrightarrow> lines_of (l @ CHR 0x0A # r) = l # lines_of r"
  "CHR 0x0A \<notin> set l \<Longrightarrow> tail_of (l @ CHR 0x0A # r) = tail_of r"
  by (simp_all add: lines_of_def tail_of_def split_on_sep)

text \<open>The requests of one connection, in order, until it is closed.\<close>

fun serve_lines :: "'h env \<Rightarrow> (nat \<Rightarrow> outside) \<Rightarrow> nat \<Rightarrow> cstr list \<Rightarrow> 'h daemon \<times> nat \<Rightarrow> 'h daemon \<times> nat" where
  "serve_lines E ws i [] (d, n) = (d, n)"
| "serve_lines E ws i (l # ls) (d, n) =
     (if conn_fd d i < 0 then (d, n) else serve_lines E ws i ls (serve_line E (ws n) i l d, Suc n))"

lemma serve_lines_closed: "conn_fd d i < 0 \<Longrightarrow> serve_lines E ws i ls (d, n) = (d, n)"
  by (cases ls) simp_all

lemma serve_lines_append: "serve_lines E ws i (xs @ ys) s = serve_lines E ws i ys (serve_lines E ws i xs s)"
  by (induction E ws i xs s rule: serve_lines.induct) (simp_all add: serve_lines_closed)

lemma serve_lines_kept: "serve_lines E ws i ls (d, n) = (d', n') \<Longrightarrow> conn_kept i d d'"
proof (induction ls arbitrary: d n)
  case (Cons l ls)
  show ?case
  proof (cases "conn_fd d i < 0")
    case False
    then have "conn_kept i (serve_line E (ws n) i l d) d'" using Cons by simp
    then show ?thesis by (rule conn_kept_trans[OF serve_line_kept])
  qed (use Cons.prems in \<open>simp add: conn_kept_same\<close>)
qed (simp add: conn_kept_same)

lemma cut0_id: "CHR 0x00 \<notin> set s \<Longrightarrow> cut0 s = s"
  by (simp add: cut0_def takeWhile_eq_all_conv) blast

lemma process_lines_spec:
  assumes "CHR 0x00 \<notin> set buf" "0 \<le> conn_fd d i" "process_lines E ws i n buf d = (d', b', n')"
  shows "(d', n') = serve_lines E ws i (lines_of buf) (d, n) \<and> (0 \<le> conn_fd d' i \<longrightarrow> b' = tail_of buf)"
  using assms
proof (induction E ws i n buf d rule: process_lines.induct)
  case (1 E ws i n buf d)
  show ?case
  proof (cases "CHR 0x0A \<in> set buf")
    case False
    then show ?thesis using "1.prems" by (simp add: process_lines.simps[of E ws i n buf d] cut0_id lines_none)
  next
    case True
    define l where "l = takeWhile (\<lambda>c. c \<noteq> CHR 0x0A) buf"
    define r where "r = drop (Suc (length l)) buf"
    have l: "CHR 0x0A \<notin> set l" unfolding l_def by (auto dest: set_takeWhileD)
    have "dropWhile (\<lambda>c. c \<noteq> CHR 0x0A) buf \<noteq> []" using True by (auto simp: dropWhile_eq_Nil_conv)
    then obtain x xs where x: "dropWhile (\<lambda>c. c \<noteq> CHR 0x0A) buf = x # xs" by (cases "dropWhile (\<lambda>c. c \<noteq> CHR 0x0A) buf") auto
    then have "x = CHR 0x0A" using hd_dropWhile[of "\<lambda>c. c \<noteq> CHR 0x0A" buf] by simp
    then have buf0: "buf = l @ CHR 0x0A # xs" using takeWhile_dropWhile_id[of "\<lambda>c. c \<noteq> CHR 0x0A" buf] x by (simp add: l_def)
    then have buf: "buf = l @ CHR 0x0A # r" by (simp add: r_def)
    have nul: "CHR 0x00 \<notin> set r" using "1.prems"(1) buf by auto
    let ?d1 = "serve_line E (ws n) i l d"
    have step: "process_lines E ws i n buf d =
        (if conn_fd ?d1 i < 0 then (?d1, buf, Suc n) else process_lines E ws i (Suc n) r ?d1)"
      using True "1.prems"(1) nul
      by (subst process_lines.simps) (simp add: cut0_id l_def[symmetric] r_def[symmetric])
    have ls: "serve_lines E ws i (lines_of buf) (d, n) = serve_lines E ws i (lines_of r) (?d1, Suc n)"
      using "1.prems"(2) by (simp add: buf lines_Cons(1)[OF l])
    show ?thesis
    proof (cases "conn_fd ?d1 i < 0")
      case c: True
      then show ?thesis using "1.prems"(3) step ls by (simp add: serve_lines_closed)
    next
      case c: False
      have t: "tail_of buf = tail_of r" by (simp add: buf lines_Cons(2)[OF l])
      have "process_lines E ws i (Suc n) r ?d1 = (d', b', n')" using "1.prems"(3) step c by simp
      then show ?thesis
        using "1.IH"[OF _ refl refl, of] c True "1.prems"(1) nul ls t
        by (simp add: cut0_id l_def[symmetric] r_def[symmetric])
    qed
  qed
qed

subsection \<open>Framing\<close>

lemma tail_length: "length s < n \<or> (\<forall>l \<in> set (split_on (CHR 0x0A) (s @ b)). length l < n) \<Longrightarrow> CHR 0x0A \<notin> set s \<Longrightarrow> length s < n"
proof -
  assume h: "length s < n \<or> (\<forall>l \<in> set (split_on (CHR 0x0A) (s @ b)). length l < n)" and nl: "CHR 0x0A \<notin> set s"
  have "length s \<le> length (hd (split_on (CHR 0x0A) (s @ b)))"
    using nl by (induction s) (auto split: list.splits)
  moreover have "hd (split_on (CHR 0x0A) (s @ b)) \<in> set (split_on (CHR 0x0A) (s @ b))" by simp
  ultimately show "length s < n" using h by (meson le_less_trans)
qed

definition reads :: "'h env \<Rightarrow> (nat \<Rightarrow> outside) \<Rightarrow> nat \<Rightarrow> cstr list \<Rightarrow> 'h server \<Rightarrow> 'h server" where
  "reads E ws i cs sv = foldl (\<lambda>sv c. serve_conn E ws i (Readable c) sv) sv cs"

lemma reads_simps [simp]:
  "reads E ws i [] sv = sv" "reads E ws i (c # cs) sv = reads E ws i cs (serve_conn E ws i (Readable c) sv)"
  by (simp_all add: reads_def)

lemma reads_closed: "conn_fd (sv_daemon sv) i < 0 \<Longrightarrow> reads E ws i cs sv = sv"
  by (induction cs) (simp_all add: serve_conn_def Let_def)

lemma serve_conn_step:
  assumes "c \<noteq> []" "0 \<le> conn_fd (sv_daemon sv) i" "\<not> c_drain (g_conn (sv_daemon sv) ! i)" "i < length (sv_buf sv)"
    "CHR 0x00 \<notin> set (sv_buf sv ! i @ c)" "length (tail_of (sv_buf sv ! i @ c)) < BUF_MAX"
    "sv' = serve_conn E ws i (Readable c) sv"
  shows "(sv_daemon sv', sv_n sv') = serve_lines E ws i (lines_of (sv_buf sv ! i @ c)) (sv_daemon sv, sv_n sv) \<and>
    length (sv_buf sv') = length (sv_buf sv) \<and>
    (0 \<le> conn_fd (sv_daemon sv') i \<longrightarrow> sv_buf sv' ! i = tail_of (sv_buf sv ! i @ c))"
proof -
  obtain d' b' n' where p: "process_lines E ws i (sv_n sv) (sv_buf sv ! i @ c) (sv_daemon sv) = (d', b', n')"
    by (metis prod_cases3)
  note ps = process_lines_spec[OF assms(5,2) p]
  have "too_long (ws n') i (d', b', n') = (d', b', n')"
    using ps assms(6) by (auto simp: too_long_def)
  then have "sv' = sv\<lparr>sv_daemon := d', sv_buf := (sv_buf sv)[i := b'], sv_n := n'\<rparr>"
    using assms(1,2,3,7) p by (simp add: serve_conn_def serve_data_def Let_def)
  with ps assms(4) show ?thesis by simp
qed

lemma reads_spec:
  assumes "[] \<notin> set cs" "i < length (sv_buf sv)" "i < length (g_conn (sv_daemon sv))"
    "0 \<le> conn_fd (sv_daemon sv) i" "\<not> c_drain (g_conn (sv_daemon sv) ! i)" "CHR 0x0A \<notin> set (sv_buf sv ! i)"
    "CHR 0x00 \<notin> set (sv_buf sv ! i @ concat cs)"
    "\<forall>l \<in> set (split_on (CHR 0x0A) (sv_buf sv ! i @ concat cs)). length l < BUF_MAX" "sv' = reads E ws i cs sv"
  shows "(sv_daemon sv', sv_n sv') = serve_lines E ws i (lines_of (sv_buf sv ! i @ concat cs)) (sv_daemon sv, sv_n sv) \<and>
    (0 \<le> conn_fd (sv_daemon sv') i \<longrightarrow> sv_buf sv' ! i = tail_of (sv_buf sv ! i @ concat cs))"
  using assms
proof (induction cs arbitrary: sv)
  case Nil
  then show ?case by (simp add: lines_none)
next
  case (Cons c cs)
  let ?b = "sv_buf sv ! i" and ?sv = "serve_conn E ws i (Readable c) sv"
  let ?t = "tail_of (?b @ c)"
  have eq: "?b @ concat (c # cs) = (?b @ c) @ concat cs" by simp
  have sp: "set (split_on (CHR 0x0A) (?t @ concat cs)) \<subseteq> set (split_on (CHR 0x0A) (?b @ concat (c # cs)))"
    unfolding eq tail_of_def split_on_append[of _ "?b @ c" "concat cs"] by simp
  then have fit: "\<forall>l \<in> set (split_on (CHR 0x0A) (?t @ concat cs)). length l < BUF_MAX" using Cons.prems(8) by blast
  then have tl: "length ?t < BUF_MAX" using tail_length tail_no_nl by blast
  have nul: "CHR 0x00 \<notin> set (?b @ c)" "c \<noteq> []" using Cons.prems(1,7) by auto
  note st = serve_conn_step[OF nul(2) Cons.prems(4,5,2) nul(1) tl refl, of E ws]
  have ln: "lines_of (?b @ concat (c # cs)) = lines_of (?b @ c) @ lines_of (?t @ concat cs)"
    unfolding eq by (rule lines_append)
  show ?case
  proof (cases "conn_fd (sv_daemon ?sv) i < 0")
    case True
    then have "sv' = ?sv" using Cons.prems(9) by (simp add: reads_closed)
    then show ?thesis using st True unfolding ln serve_lines_append by (metis serve_lines_closed not_le)
  next
    case False
    have b: "sv_buf ?sv ! i = ?t" using st False by simp
    have k: "conn_kept i (sv_daemon sv) (sv_daemon ?sv)" using st serve_lines_kept by metis
    have sub: "set ?t \<subseteq> set (?b @ c)"
      unfolding tail_of_def by (rule split_on_chars[of _ "CHR 0x0A"]) simp
    have IH: "(sv_daemon sv', sv_n sv') = serve_lines E ws i (lines_of (?t @ concat cs)) (sv_daemon ?sv, sv_n ?sv) \<and>
        (0 \<le> conn_fd (sv_daemon sv') i \<longrightarrow> sv_buf sv' ! i = tail_of (?t @ concat cs))"
      unfolding b[symmetric]
    proof (rule Cons.IH)
      show "CHR 0x00 \<notin> set (sv_buf ?sv ! i @ concat cs)" using b sub Cons.prems(7) by auto
      show "i < length (g_conn (sv_daemon ?sv))" "\<not> c_drain (g_conn (sv_daemon ?sv) ! i)"
        using k Cons.prems(3,5) by (auto simp: conn_kept_def)
    qed (use b False st fit tail_no_nl Cons.prems in auto)
    show ?thesis unfolding ln serve_lines_append using IH st unfolding eq tail_append[of "?b @ c"] by simp
  qed
qed

text \<open>C12: requests are framed by newlines, however the stream arrives. On an open connection that is not draining and has nothing
  pending, for any cutting of a client's bytes into reads, the daemon handles exactly the complete lines, in order and each
  once, until the connection closes, and keeps the incomplete last line pending. The bytes hold no NUL, and every line and the
  incomplete rest are shorter than the buffer; over-long lines are the subject of the section after the next.\<close>

theorem requests_framed:
  assumes "[] \<notin> set cs" "i < length (sv_buf sv)" "i < length (g_conn (sv_daemon sv))"
    "0 \<le> conn_fd (sv_daemon sv) i" "\<not> c_drain (g_conn (sv_daemon sv) ! i)" "sv_buf sv ! i = []"
    "CHR 0x00 \<notin> set (concat cs)" "list_all (\<lambda>l. length l < BUF_MAX) (split_on (CHR 0x0A) (concat cs))"
    "sv' = reads E ws i cs sv"
  shows "(sv_daemon sv', sv_n sv') = serve_lines E ws i (lines_of (concat cs)) (sv_daemon sv, sv_n sv) \<and>
    (0 \<le> conn_fd (sv_daemon sv') i \<longrightarrow> sv_buf sv' ! i = tail_of (concat cs))"
  using reads_spec[of cs i sv sv' E ws] assms by (simp add: list_all_iff)

definition demo_conn :: conn where
  "demo_conn = \<lparr>c_fd = 5, c_watcher = False, c_mask = 0, c_drain = False\<rparr>"

definition demo_daemon :: "conn list \<Rightarrow> sim daemon" where
  "demo_daemon cs = \<lparr>dm_maps = lsm_maps_init, dm_net = netd_init, dm_host = sim_start, g_conn = cs, dm_sent = [], dm_stdout = []\<rparr>"

definition demo_server :: "conn \<Rightarrow> sim server" where
  "demo_server c = \<lparr>sv_daemon = demo_daemon [c], sv_buf = [[]], sv_n = 0\<rparr>"

definition demo_outside :: outside where
  "demo_outside = \<lparr>o_dns = (\<lambda>_ _. []), o_places = (0, 0), o_write = (\<lambda>_ _. True)\<rparr>"

lemmas demo_defs = demo_conn_def demo_daemon_def demo_server_def demo_outside_def

theorem requests_framed_witness:
  "dm_sent (sv_daemon (reads (sim_env (\<lambda>_. False)) (\<lambda>_. demo_outside) 0 [''WAT'', ''CH'' @ nl @ ''Q''] (demo_server demo_conn))) =
     [(5, ''OK'' @ nl)]"
proof -
  let ?E = "sim_env (\<lambda>_. False)" and ?cs = "[''WAT'', ''CH'' @ nl @ ''Q'']"
  let ?sv = "reads ?E (\<lambda>_. demo_outside) 0 ?cs (demo_server demo_conn)"
  have "(sv_daemon ?sv, sv_n ?sv) = serve_lines ?E (\<lambda>_. demo_outside) 0 (lines_of (concat ?cs)) (sv_daemon (demo_server demo_conn), sv_n (demo_server demo_conn))"
    by (rule requests_framed[THEN conjunct1]) (simp_all add: demo_defs nl_def BUF_MAX_def)
  also have "lines_of (concat ?cs) = [''WATCH'']" by (simp add: lines_of_def nl_def)
  finally have "sv_daemon ?sv = serve_line ?E demo_outside 0 ''WATCH'' (demo_daemon [demo_conn])"
    by (simp add: demo_server_def demo_daemon_def demo_conn_def)
  then show ?thesis
    by (simp add: serve_line_def skip_def starts_def serve_watch_def reply_def ok_or_def demo_defs)
qed

subsection \<open>Events\<close>

lemma fan_one_other: "j \<noteq> i \<Longrightarrow> g_conn (fan_one w line bits d i) ! j = g_conn d ! j"
  by (simp add: fan_one_def reply_def conn_drop_def)

lemma fan_one_sent:
  "dm_sent (fan_one w line bits d i) = dm_sent d @
     (if wants bits (g_conn d ! i) \<and> o_write w (conn_fd d i) line then [(conn_fd d i, line)] else [])"
  by (simp add: fan_one_def reply_def conn_drop_def)

lemma fan_all_sent:
  "distinct js \<Longrightarrow> dm_sent (foldl (fan_one w line bits) d js) = dm_sent d @
     map (\<lambda>j. (conn_fd d j, line)) (filter (\<lambda>j. wants bits (g_conn d ! j) \<and> o_write w (conn_fd d j) line) js)"
proof (induction js arbitrary: d)
  case (Cons i js)
  have same: "g_conn (fan_one w line bits d i) ! j = g_conn d ! j" if "j \<in> set js" for j
    using that Cons.prems by (intro fan_one_other) auto
  have "filter (\<lambda>j. wants bits (g_conn (fan_one w line bits d i) ! j) \<and> o_write w (conn_fd (fan_one w line bits d i) j) line) js
      = filter (\<lambda>j. wants bits (g_conn d ! j) \<and> o_write w (conn_fd d j) line) js"
    using same by (intro filter_cong) simp_all
  moreover have "map (\<lambda>j. (conn_fd (fan_one w line bits d i) j, line)) (filter P js) = map (\<lambda>j. (conn_fd d j, line)) (filter P js)" for P
    using same by simp
  ultimately show ?case using Cons.IH[of "fan_one w line bits d i"] Cons.prems by (simp add: fan_one_sent)
qed simp

lemma fan_all_stdout: "dm_stdout (foldl (fan_one w line bits) d js) = dm_stdout d"
proof (induction js arbitrary: d)
  case (Cons i js)
  then show ?case by (simp add: fan_one_def reply_def conn_drop_def)
qed simp

lemma bit_class_bit: "bit (class_bit m) ty \<longleftrightarrow> m = ty \<and> ty < 32"
  by (auto simp: class_bit_def bit_exp_iff)

lemma class_bit_and: "class_bit ty AND x \<noteq> 0 \<longleftrightarrow> bit x ty"
  unfolding class_bit_def using bit_iff_and_push_bit_not_eq_0[of x ty] by (simp only: and.commute)

lemma logged_classes:
  "class_bit ty AND (class_bit EV_DENY OR class_bit EV_TRIP) \<noteq> 0 \<longleftrightarrow> ty = EV_DENY \<or> ty = EV_TRIP"
  unfolding class_bit_and bit_or_iff bit_class_bit by (auto simp only: EV_DENY_def EV_TRIP_def)

lemma wants_class: "wants (class_bit ty) c \<longleftrightarrow> 0 \<le> c_fd c \<and> c_watcher c \<and> bit (c_mask c) ty"
  unfolding wants_def and.commute[of "c_mask c"] class_bit_and by (simp add: not_less)

text \<open>C30: an event goes to exactly the watchers that asked for its class: the line is written once to
  every connection that is open (\<open>0 \<le> c_fd\<close>), watches, has the bit of the class set in its mask and whose
  write succeeds, in table order, and to no other; \<^verbatim>\<open>DENY\<close> and \<^verbatim>\<open>TRIP\<close> alone also reach the daemon's log.\<close>

theorem fanout_delivers:
  "dm_sent (fanout w line (class_bit ty) d) = dm_sent d @
     map (\<lambda>j. (conn_fd d j, line))
       (filter (\<lambda>j. 0 \<le> c_fd (g_conn d ! j) \<and> c_watcher (g_conn d ! j) \<and> bit (c_mask (g_conn d ! j)) ty \<and> o_write w (conn_fd d j) line)
         [0..<MAX_WATCH]) \<and>
   dm_stdout (fanout w line (class_bit ty) d) = dm_stdout d @ (if ty = EV_DENY \<or> ty = EV_TRIP then line else [])"
  unfolding fanout_def Let_def logged_classes by (simp add: fan_all_sent fan_all_stdout wants_class conj_assoc)

subsection \<open>Over-long lines\<close>

text \<open>The pending bytes of a connection never fill its buffer after a pass of the loop, so that the
  next read always has room; a read delivers at most the room that is left.\<close>

theorem buffer_never_full:
  assumes "i < length (sv_buf sv)" "length (sv_buf sv ! i) < BUF_MAX" "0 \<le> conn_fd (sv_daemon sv) i"
    "sv' = serve_conn E ws i ev sv" "0 \<le> conn_fd (sv_daemon sv') i"
  shows "length (sv_buf sv' ! i) < BUF_MAX"
proof -
  have tl: "0 \<le> conn_fd d' i \<Longrightarrow> too_long w i r = (d', b, n) \<Longrightarrow> length b < BUF_MAX" for w d' b n and r :: "'a daemon \<times> cstr \<times> nat"
    by (cases r) (auto simp: too_long_def BUF_MAX_def Let_def split: if_splits)
  have "length b < BUF_MAX" if "serve_data E ws i data (sv_daemon sv, sv_buf sv ! i, sv_n sv) = (d', b, n)" "0 \<le> conn_fd d' i" for data d' b n
    using that assms(2) tl[OF that(2)] by (auto simp: serve_data_def Let_def split: if_splits option.splits prod.splits)
  then show ?thesis using assms by (auto simp: serve_conn_def Let_def split: polled.splits if_splits prod.splits)
qed

theorem buffer_never_full_witness:
  "length (sv_buf (serve_conn (sim_env (\<lambda>_. False)) (\<lambda>_. demo_outside) 0 Idle (demo_server demo_conn)) ! 0) < BUF_MAX"
  by (rule buffer_never_full[where sv = "demo_server demo_conn" and ev = Idle])
     (simp_all add: demo_defs BUF_MAX_def serve_conn_def)

text \<open>A request behind an over-long line is left waiting. When the read that ends the over-long line
  also brings the next request complete with its newline, the loop keeps those bytes but does not
  look for lines in them: nothing is handled and nothing answered until the client sends more.\<close>

theorem request_after_drain_stalls:
  assumes "c_drain (g_conn (sv_daemon sv) ! i)" "0 \<le> conn_fd (sv_daemon sv) i" "i < length (sv_buf sv)" "sv_buf sv ! i = []"
    "CHR 0x0A \<notin> set long" "length req + 1 < BUF_MAX" "i < length (g_conn (sv_daemon sv))"
    "sv' = serve_conn E ws i (Readable (long @ nl @ req @ nl)) sv"
  shows "sv_buf sv' ! i = req @ nl \<and> sv_n sv' = sv_n sv \<and> dm_sent (sv_daemon sv') = dm_sent (sv_daemon sv) \<and>
    serve_conn E ws i Idle sv' = sv'"
proof -
  have tw: "takeWhile (\<lambda>c. c \<noteq> CHR 0x0A) (long @ CHR 0x0A # r) = long" for r
    using assms(5) by (subst takeWhile_append2) auto
  have "drain_resume (long @ nl @ req @ nl) = Some (Suc (length req))"
    by (simp add: drain_resume_def nl_def tw)
  then show ?thesis
    using assms(1-4,6,7) unfolding assms(8)
    by (simp add: serve_conn_def serve_data_def too_long_def nl_def Let_def)
qed

theorem request_after_drain_stalls_witness:
  "sv_buf (serve_conn (sim_env (\<lambda>_. False)) (\<lambda>_. demo_outside) 0 (Readable (''xx'' @ nl @ ''LIST'' @ nl))
     (demo_server (demo_conn\<lparr>c_drain := True\<rparr>))) ! 0 = ''LIST'' @ nl"
  by (rule request_after_drain_stalls[where sv = "demo_server (demo_conn\<lparr>c_drain := True\<rparr>)" and long = "''xx''", THEN conjunct1])
     (simp_all add: demo_defs BUF_MAX_def)

text \<open>A new client can inherit the draining of a dead one. When the reply to an over-long line cannot
  be written the connection is dropped and its slot then marked as draining; \<^verbatim>\<open>accept\<close> does not
  clear the mark, so the first bytes of the next client of the slot are thrown away up to a newline.\<close>

theorem drain_inherited:
  assumes "length (g_conn d) = MAX_WATCH" "0 \<le> conn_fd d 0" "BUF_MAX \<le> length buf" "\<not> o_write w (conn_fd d 0) (''ERR line_too_long'' @ nl)"
    "too_long w 0 (d, buf, n) = (d', buf', n')" "sv_daemon sv = d'"
  shows "conn_fd d' 0 < 0 \<and> c_fd (g_conn (sv_daemon (accept_conn fd sv)) ! 0) = fd \<and> c_drain (g_conn (sv_daemon (accept_conn fd sv)) ! 0)"
proof -
  have ne: "0 < length (g_conn d)" using assms(1) by (simp add: MAX_WATCH_def)
  have d': "d' = (conn_drop 0 d)\<lparr>g_conn := (g_conn (conn_drop 0 d))[0 := (g_conn (conn_drop 0 d) ! 0)\<lparr>c_drain := True\<rparr>]\<rparr>"
    using assms(2-5) by (simp add: too_long_def reply_def Let_def)
  have c: "conn_fd d' 0 < 0" "c_drain (g_conn d' ! 0)" "0 < length (g_conn d')"
    using ne by (simp_all add: d' conn_drop_def drop_entry_def)
  have "find (\<lambda>i. conn_fd d' i < 0) [0..<MAX_WATCH] = Some 0"
    using c(1) by (intro find_upt_0) (simp_all add: MAX_WATCH_def)
  with c assms(6) show ?thesis by (simp add: accept_conn_def Let_def)
qed

theorem drain_inherited_witness:
  "\<exists>d' buf'. too_long (demo_outside\<lparr>o_write := \<lambda>_ _. False\<rparr>) 0 (demo_daemon (replicate MAX_WATCH demo_conn), replicate BUF_MAX CHR ''a'', 0) = (d', buf', 0) \<and>
     c_drain (g_conn (sv_daemon (accept_conn 9 \<lparr>sv_daemon = d', sv_buf = replicate MAX_WATCH [], sv_n = 0\<rparr>)) ! 0)"
proof -
  let ?d = "demo_daemon (replicate MAX_WATCH demo_conn)" and ?w = "demo_outside\<lparr>o_write := \<lambda>_ _. False\<rparr>"
  have h: "length (g_conn ?d) = MAX_WATCH" "0 \<le> conn_fd ?d 0" "BUF_MAX \<le> length (replicate BUF_MAX CHR ''a'')"
      "\<not> o_write ?w (conn_fd ?d 0) (''ERR line_too_long'' @ nl)"
    by (simp_all add: demo_defs MAX_WATCH_def)
  obtain d' buf' n' where t: "too_long ?w 0 (?d, replicate BUF_MAX CHR ''a'', 0) = (d', buf', n')" by (metis prod_cases3)
  then have "n' = 0" by (auto simp: too_long_def Let_def split: if_splits)
  moreover have "c_drain (g_conn (sv_daemon (accept_conn 9 \<lparr>sv_daemon = d', sv_buf = replicate MAX_WATCH [], sv_n = 0\<rparr>)) ! 0)"
    using drain_inherited[OF h t, of "\<lparr>sv_daemon = d', sv_buf = replicate MAX_WATCH [], sv_n = 0\<rparr>" 9] by simp
  ultimately show ?thesis using t by blast
qed

subsection \<open>Unchecked ports\<close>

text \<open>C31: the port of an \<^verbatim>\<open>EGRESS\<close> entry reaches the shell as it was sent. Any word of up to seven
  characters becomes part of a command line the daemon hands to \<open>system\<close> as root, shell
  metacharacters included; the socket is open to every user.\<close>

theorem port_reaches_shell:
  assumes "p \<noteq> []" "length p \<le> 7" "CHR '' '' \<notin> set p"
  shows "\<exists>c. Sh c \<in> set (sim_log (dm_host (serve_line (sim_env (\<lambda>_. False)) demo_outside 0
      (''NETUP 7 EGRESS 1.2.3.4 '' @ p) (demo_daemon [demo_conn])))) \<and>
    cmd_text c = ''iptables -I FORWARD 1 -i vethh0 -p tcp -d 1.2.3.4 --dport '' @ p @ '' -j ACCEPT 2>/dev/null''"
proof -
  let ?E = "sim_env (\<lambda>_. False)" and ?d = "demo_daemon [demo_conn]" and ?host = "\<lparr>eh_host = demo_ip, eh_port = p\<rparr>"
  have "token demo_ip" "token p" using assms by (simp_all add: token_def demo_ip_def)
  from netup_args_egress[OF this gap_simps(1), of "[]" "[]"]
  have args: "netup_args ('' EGRESS 1.2.3.4 '' @ p) [] [] = ([?host], [], False)"
    using assms(2) by (simp add: netup_args_nil MAX_EGRESS_def demo_ip_def snprintf_s_def)
  have num: "strtol (''7 EGRESS 1.2.3.4 '' @ p) = Some (7, '' EGRESS 1.2.3.4 '' @ p)"
    by (simp add: strtol_def scan_num_def isspace_def isdigit_def val_def digit_val_def)
  obtain h' rep where up: "net_up ?E (o_dns demo_outside) netd_init sim_start 7 [?host] [] = (0, rep, demo_netd p, h')"
      and log: "Sh (Insert (accept_rule 0 (demo_pair p))) \<in> set (sim_log h')"
    using demo_net_up[of "\<lambda>_. False" p sim_start "o_dns demo_outside"] assms(2) by (auto simp: sim_start_def)
  have pid: "to_pid 7 = 7" by (simp add: to_pid_def)
  have "serve_netup ?E demo_outside (''7 EGRESS 1.2.3.4 '' @ p) ?d = (netup_reply True False 0 rep, ?d\<lparr>dm_net := demo_netd p, dm_host := h'\<rparr>)"
    unfolding serve_netup_def num option.case case_prod_conv args Let_def pid
    using up by (simp add: demo_daemon_def)
  then have "dm_host (serve_line ?E demo_outside 0 (''NETUP 7 EGRESS 1.2.3.4 '' @ p) ?d) = h'"
    by (simp add: serve_line_def skip_def starts_def reply_def conn_drop_def)
  moreover have zero: "digit 0 = CHR ''0''" using digit_digit_val[of "CHR ''0''"] by (simp add: isdigit_def digit_val_def)
  moreover have "cmd_text (Insert (accept_rule 0 (demo_pair p))) =
      ''iptables -I FORWARD 1 -i vethh0 -p tcp -d 1.2.3.4 --dport '' @ p @ '' -j ACCEPT 2>/dev/null''"
    by (simp add: accept_rule_def demo_pair_def demo_ip_def quiet_def dec.simps[of 0] zero)
  ultimately show ?thesis using log by (intro exI[of _ "Insert (accept_rule 0 (demo_pair p))"]) simp
qed

theorem port_reaches_shell_witness:
  "\<exists>c. Sh c \<in> set (sim_log (dm_host (serve_line (sim_env (\<lambda>_. False)) demo_outside 0
      ''NETUP 7 EGRESS 1.2.3.4 ;reboot'' (demo_daemon [demo_conn])))) \<and>
    cmd_text c = ''iptables -I FORWARD 1 -i vethh0 -p tcp -d 1.2.3.4 --dport ;reboot -j ACCEPT 2>/dev/null''"
  using port_reaches_shell[of "'';reboot''"] by simp

end
