(* ===== verification/Sand_Config.thy ===== *)
theory Sand_Config
  imports Egress
begin

text \<open>
  The configuration of a cell (\<^verbatim>\<open>struct cfg\<close> of \<^verbatim>\<open>src/sand.c\<close>) and the functions on paths and sizes that the
  rest of \<^verbatim>\<open>sand\<close> shares: \<^verbatim>\<open>basename_of\<close>, \<^verbatim>\<open>normalize_path\<close>, \<^verbatim>\<open>os_src\<close>, \<^verbatim>\<open>parse_mem\<close>. An array with its fill
  count is a list; \<^verbatim>\<open>argv\<close> is \<open>None\<close> when no command was given. \<open>veth_on\<close> is the variable \<^verbatim>\<open>g_veth_on\<close>.
\<close>

definition MAXBIND :: nat where "MAXBIND = 32"
definition MAX_RESOLV :: nat where "MAX_RESOLV = 4"
definition MAX_ENV :: nat where "MAX_ENV = 64"
definition MAX_SECRET :: nat where "MAX_SECRET = 8"
definition PATH_MAX :: nat where "PATH_MAX = 4096"

datatype netmode = NET_NONE | NET_HOST | NET_VETH

record bind =
  b_src :: cstr
  b_dst :: cstr
  b_ro :: bool

record cfg =
  mem_bytes :: int
  cpu_max :: cstr
  pids :: int
  netmode :: netmode
  veth_if :: cstr
  veth_ip :: cstr
  veth_gw :: cstr
  workdir :: cstr
  rootfs :: cstr
  sock :: cstr
  ro_dirs :: "cstr list"
  rw_dirs :: "cstr list"
  binds :: "bind list"
  no_landlock :: bool
  no_seccomp :: bool
  ask :: bool
  secure :: bool
  deny_pfx :: "cstr list"
  ov_dirs :: "cstr list"
  io_rbps :: int
  io_wbps :: int
  egress :: "eghost list"
  resolv :: "cstr list"
  env_kv :: "cstr list"
  secrets :: "(cstr \<times> cstr) list"
  workdir_size :: int
  timeout :: int
  argv :: "cstr list option"
  veth_on :: bool

text \<open>The initial value of \<^verbatim>\<open>C\<close>; \<open>cfg_zero\<close> is the cleared structure the library starts from.\<close>

definition cfg_zero :: cfg where
  "cfg_zero = \<lparr>mem_bytes = 0, cpu_max = [], pids = 0, netmode = NET_NONE, veth_if = [], veth_ip = [], veth_gw = [],
     workdir = [], rootfs = [], sock = [], ro_dirs = [], rw_dirs = [], binds = [], no_landlock = False, no_seccomp = False,
     ask = False, secure = False, deny_pfx = [], ov_dirs = [], io_rbps = 0, io_wbps = 0, egress = [], resolv = [],
     env_kv = [], secrets = [], workdir_size = 0, timeout = 0, argv = None, veth_on = False\<rparr>"

definition cfg_init :: cfg where
  "cfg_init = cfg_zero\<lparr>mem_bytes := 2 * 2 ^ 30, cpu_max := ''200000 100000'', pids := 256\<rparr>"

subsection \<open>Paths\<close>

definition basename_of :: "cstr \<Rightarrow> cstr" where
  "basename_of p = rev (takeWhile (\<lambda>c. c \<noteq> CHR ''/'') (rev p))"

definition os_src :: "nat \<Rightarrow> cfg \<Rightarrow> cstr \<Rightarrow> cstr" where
  "os_src n C p = snprintf_s n (if rootfs C \<noteq> [] then rootfs C @ p else p)"

text \<open>The segment loop of \<^verbatim>\<open>normalize_path\<close>: it ends when the tokens or the 128 places run out.\<close>

fun norm_segs :: "cstr list \<Rightarrow> cstr list \<Rightarrow> cstr list" where
  "norm_segs [] seg = seg"
| "norm_segs (tok # toks) seg =
     (if length seg \<ge> 128 then seg
      else if tok = ''.'' then norm_segs toks seg
      else if tok = ''..'' then norm_segs toks (butlast seg)
      else norm_segs toks (seg @ [tok]))"

definition join_segs :: "cstr list \<Rightarrow> cstr" where
  "join_segs seg = (if seg = [] then ''/'' else concat (map (\<lambda>s. CHR ''/'' # s) seg))"

definition normalize_path :: "cstr \<Rightarrow> cstr" where
  "normalize_path path = join_segs (norm_segs (strtok_all (CHR ''/'') path) [])"

subsection \<open>Sizes\<close>

text \<open>\<^verbatim>\<open>v <<= k\<close> on a 64-bit \<^verbatim>\<open>long\<close>.\<close>

definition shl64 :: "nat \<Rightarrow> int \<Rightarrow> int" where
  "shl64 k v = sint (push_bit k (word_of_int v :: 64 word))"

text \<open>\<open>None\<close> is a call of \<^verbatim>\<open>die\<close>.\<close>

definition parse_mem :: "cstr \<Rightarrow> int option" where
  "parse_mem s =
     (case strtol s of None \<Rightarrow> None
      | Some (v, rest) \<Rightarrow>
          (case rest of [] \<Rightarrow> Some v
           | c # _ \<Rightarrow>
               if c = CHR ''G'' \<or> c = CHR ''g'' then Some (shl64 30 v)
               else if c = CHR ''M'' \<or> c = CHR ''m'' then Some (shl64 20 v)
               else if c = CHR ''K'' \<or> c = CHR ''k'' then Some (shl64 10 v)
               else None))"

end
