(* ===== verification/Sand_Client.thy ===== *)
theory Sand_Client
  imports Daemon Sand_Config
begin

text \<open>
  The side of \<^verbatim>\<open>src/sand.c\<close> that talks to the daemon: the allowlist and resolver options
  (\<^verbatim>\<open>egress_add\<close>, \<^verbatim>\<open>resolv_add_file\<close>, \<^verbatim>\<open>resolv_collect\<close>), environment and secret options, and the requests
  \<^verbatim>\<open>net_veth_register\<close>, \<^verbatim>\<open>net_veth_unregister\<close>, \<^verbatim>\<open>lsm_register\<close>, \<^verbatim>\<open>lsm_unregister\<close>. Files are what a function
  \<open>fs\<close> returns for a path, and \<open>talk\<close> is a \<^verbatim>\<open>lsm_cmd\<close> exchange: the bytes of the daemon's first
  answer, or \<open>None\<close> when there is no connection or no answer.
\<close>

subsection \<open>Options\<close>

definition egress_split :: "cstr \<Rightarrow> cstr \<times> cstr" where
  "egress_split spec =
     (case split_last_colon spec of
        Some (pre, post) \<Rightarrow> if post \<noteq> [] \<and> list_all isdigit post then (pre, post) else (spec, ''443'')
      | None \<Rightarrow> (spec, ''443''))"

definition egress_add :: "cstr \<Rightarrow> cfg \<Rightarrow> int \<times> cfg" where
  "egress_add spec C =
     (if length (egress C) \<ge> MAX_EGRESS \<or> spec = [] then (-1, C)
      else if list_ex (\<lambda>q. (of_char q :: nat) \<le> 32) spec then (-1, C)
      else let (host, port) = egress_split spec in
        if host = [] \<or> length host \<ge> 128 then (-1, C)
        else if CHR '':'' \<in> set host then (-1, C)
        else if list_ex (\<lambda>e. eh_host e = host \<and> eh_port e = port) (egress C) then (0, C)
        else (0, C\<lparr>egress := egress C @ [\<lparr>eh_host = host, eh_port = snprintf_s 8 port\<rparr>], netmode := NET_VETH\<rparr>))"

definition env_add :: "cstr \<Rightarrow> cfg \<Rightarrow> cfg" where
  "env_add kv C =
     (if length (env_kv C) \<ge> MAX_ENV \<or> CHR ''='' \<notin> set kv then C else C\<lparr>env_kv := env_kv C @ [kv]\<rparr>)"

definition env_line :: "cstr \<Rightarrow> cstr" where
  "env_line l = skip (rev (dropWhile (\<lambda>c. c = CHR 0x0D \<or> c = CHR '' '') (rev l)))"

definition env_file_load :: "(cstr \<Rightarrow> cstr option) \<Rightarrow> cstr \<Rightarrow> cfg \<Rightarrow> int \<times> cfg" where
  "env_file_load fs path C =
     (case fs path of None \<Rightarrow> (-1, C)
      | Some buf \<Rightarrow>
          (0, foldl (\<lambda>C l. let l = env_line l in if l = [] \<or> hd l = CHR ''#'' then C else env_add l C) C
                (strtok_all (CHR 0x0A) (cut0 buf))))"

definition secret_add :: "(cstr \<Rightarrow> cstr option) \<Rightarrow> cstr \<Rightarrow> cfg \<Rightarrow> int \<times> cfg" where
  "secret_add fs spec C =
     (let dst = takeWhile (\<lambda>c. c \<noteq> CHR ''='') spec; src = drop (Suc (length dst)) spec in
      if length (secrets C) \<ge> MAX_SECRET then (-1, C)
      else if CHR ''='' \<notin> set spec \<or> dst = [] then (-1, C)
      else if length dst \<ge> PATH_MAX then (-1, C)
      else if \<not> starts ''/tmp/'' dst \<and> \<not> starts ''/run/'' dst \<and> \<not> starts ''/var/tmp/'' dst then (-1, C)
      else case fs src of None \<Rightarrow> (-1, C) | Some data \<Rightarrow> (0, C\<lparr>secrets := secrets C @ [(dst, data)]\<rparr>))"

text \<open>\<^verbatim>\<open>fgets\<close> with a 256-byte buffer: a line up to and with its newline, in pieces of 255 bytes.\<close>

definition fgets1 :: "cstr \<Rightarrow> cstr" where
  "fgets1 s = (let l = takeWhile (\<lambda>c. c \<noteq> CHR 0x0A) s in take 255 (if length l < length s then l @ [CHR 0x0A] else l))"

lemma fgets1_nonempty: "s \<noteq> [] \<Longrightarrow> fgets1 s \<noteq> []"
  by (cases s) (auto simp: fgets1_def Let_def)

function fgets_all :: "cstr \<Rightarrow> cstr list" where
  "fgets_all s = (if s = [] then [] else fgets1 s # fgets_all (drop (length (fgets1 s)) s))"
  by pat_completeness auto
termination
  by (relation "measure length") (auto simp: fgets1_nonempty)

declare fgets_all.simps [simp del]

definition blank :: "char \<Rightarrow> bool" where
  "blank c \<longleftrightarrow> c = CHR '' '' \<or> c = CHR 0x09"

definition ns_word :: "cstr \<Rightarrow> cstr option" where
  "ns_word l =
     (let p = dropWhile blank (cut0 l) in
      if \<not> starts ''nameserver'' p then None
      else let w = takeWhile (\<lambda>c. \<not> isspace c) (dropWhile blank (drop 10 p)) in if w = [] then None else Some w)"

definition ns_add :: "cstr list \<Rightarrow> cstr \<Rightarrow> cstr list" where
  "ns_add rs l =
     (case ns_word l of None \<Rightarrow> rs
      | Some w \<Rightarrow> if w \<notin> set rs \<and> length rs < MAX_RESOLV then rs @ [snprintf_s 64 w] else rs)"

definition resolv_add_file :: "(cstr \<Rightarrow> cstr option) \<Rightarrow> cstr \<Rightarrow> cfg \<Rightarrow> cfg" where
  "resolv_add_file fs path C =
     (case fs path of None \<Rightarrow> C | Some s \<Rightarrow> C\<lparr>resolv := foldl ns_add (resolv C) (fgets_all s)\<rparr>)"

definition resolv_collect :: "(cstr \<Rightarrow> cstr option) \<Rightarrow> cfg \<Rightarrow> cfg" where
  "resolv_collect fs C0 =
     (let C1 = resolv_add_file fs ''/run/systemd/resolve/resolv.conf'' (C0\<lparr>resolv := []\<rparr>);
          C2 = (if resolv C1 = [] \<and> rootfs C1 \<noteq> []
                then resolv_add_file fs (snprintf_s PATH_MAX (rootfs C1 @ ''/etc/resolv.conf'')) C1 else C1)
      in if resolv C2 = [] then resolv_add_file fs ''/etc/resolv.conf'' C2 else C2)"

subsection \<open>Requests to the daemon\<close>

text \<open>The pieces of \<^verbatim>\<open>NETUP\<close>, appended while they fit the 4096-byte buffer.\<close>

fun append_fit :: "cstr \<Rightarrow> cstr list \<Rightarrow> cstr option" where
  "append_fit cmd [] = Some cmd"
| "append_fit cmd (p # ps) = (if length cmd + length p \<ge> 4096 then None else append_fit (cmd @ p) ps)"

definition egress_arg :: "eghost \<Rightarrow> cstr" where
  "egress_arg e = '' EGRESS '' @ eh_host e @ '' '' @ eh_port e"

definition resolv_arg :: "cstr \<Rightarrow> cstr" where
  "resolv_arg r = '' RESOLV '' @ r"

definition netup_cmd :: "int \<Rightarrow> cfg \<Rightarrow> cstr option" where
  "netup_cmd child C = append_fit (''NETUP '' @ dec_int child) (map egress_arg (egress C) @ map resolv_arg (resolv C))"

text \<open>\<^verbatim>\<open>sscanf(rep + 3, "%63s %63s %63s %d %d", ...)\<close>: the words and numbers converted before the
  first failure.\<close>

definition scan_d :: "cstr \<Rightarrow> (int \<times> cstr) option" where
  "scan_d s = map_option (\<lambda>(v, r). (sint (word_of_int v :: 32 word), r)) (strtol s)"

fun scan_words :: "nat \<Rightarrow> cstr \<Rightarrow> cstr list \<times> cstr" where
  "scan_words 0 s = ([], s)"
| "scan_words (Suc k) s =
     (case scan_s 63 s of None \<Rightarrow> ([], s) | Some (w, r) \<Rightarrow> let (ws, r') = scan_words k r in (w # ws, r'))"

definition scan_ok :: "cstr \<Rightarrow> cstr list \<times> int list" where
  "scan_ok s =
     (let (ws, r) = scan_words 3 s in
      if length ws < 3 then (ws, [])
      else case scan_d r of None \<Rightarrow> (ws, [])
        | Some (a, r1) \<Rightarrow> (case scan_d r1 of None \<Rightarrow> (ws, [a]) | Some (b, _) \<Rightarrow> (ws, [a, b])))"

definition put_veth :: "cstr list \<Rightarrow> cfg \<Rightarrow> cfg" where
  "put_veth ws C =
     (let C1 = (if 0 < length ws then C\<lparr>veth_if := ws ! 0\<rparr> else C);
          C2 = (if 1 < length ws then C1\<lparr>veth_ip := ws ! 1\<rparr> else C1)
      in if 2 < length ws then C2\<lparr>veth_gw := ws ! 2\<rparr> else C2)"

text \<open>Whether a \<open>reason\<close> is found to refuse the answer.\<close>

definition veth_refused :: "nat \<Rightarrow> cstr list \<times> int list \<Rightarrow> bool" where
  "veth_refused n_egress = (\<lambda>(ws, ns).
     length ws < 3 \<or> (n_egress > 0 \<and> length ns \<noteq> 2) \<or>
     (n_egress > 0 \<and> (ns ! 0 \<noteq> int n_egress \<or> ns ! 1 \<le> 0)))"

definition net_veth_register :: "(cstr \<Rightarrow> cstr option) \<Rightarrow> (cstr \<Rightarrow> cstr option) \<Rightarrow> int \<Rightarrow> cfg \<Rightarrow> int \<times> cfg" where
  "net_veth_register fs talk child C0 =
     (let C = (if resolv C0 = [] then resolv_collect fs C0 else C0) in
      case netup_cmd child C of None \<Rightarrow> (-1, C)
      | Some cmd \<Rightarrow>
          let got = (case talk cmd of None \<Rightarrow> ([], [])
                | Some rep \<Rightarrow> let rep = cut0 (take 191 rep) in if starts ''OK '' rep then scan_ok (drop 3 rep) else ([], []));
              C1 = put_veth (fst got) C
          in if veth_refused (length (egress C)) got
             then (if egress C \<noteq> [] then -2 else -1, C1)
             else (0, C1\<lparr>veth_on := True\<rparr>))"

definition net_veth_unregister :: "int \<Rightarrow> cfg \<Rightarrow> cstr option \<times> cfg" where
  "net_veth_unregister child C =
     (if \<not> veth_on C then (None, C) else (Some (''NETDOWN '' @ dec_int child), C\<lparr>veth_on := False\<rparr>))"

text \<open>\<^verbatim>\<open>lsm_register\<close> on one connection: each \<^verbatim>\<open>ADD\<close> must be answered \<^verbatim>\<open>OK\<close> before the next; the answers are
  an input. The result is the requests sent and whether the policy counts as armed.\<close>

definition deny_list :: "cfg \<Rightarrow> cstr list" where
  "deny_list C = (if deny_pfx C = [] then [''/etc/shadow'', ''/etc/gshadow''] else deny_pfx C)"

definition add_cmd :: "u64 \<Rightarrow> cstr \<Rightarrow> cstr" where
  "add_cmd cgid pfx = snprintf_s 320 (''ADD '' @ dec (unat cgid) @ '' '' @ pfx)"

fun send_adds :: "u64 \<Rightarrow> cstr list \<Rightarrow> cstr option list \<Rightarrow> cstr list \<times> bool" where
  "send_adds cgid [] reps = ([], True)"
| "send_adds cgid (p # ps) reps =
     (case reps of Some rep # reps' \<Rightarrow>
        if starts ''OK'' rep then let (sent, ok) = send_adds cgid ps reps' in (add_cmd cgid p # sent, ok)
        else ([add_cmd cgid p], False)
      | _ \<Rightarrow> ([add_cmd cgid p], False))"

definition lsm_register :: "u64 option \<Rightarrow> bool \<Rightarrow> cstr option list \<Rightarrow> cfg \<Rightarrow> cstr list \<times> bool" where
  "lsm_register cgid up reps C =
     (case cgid of None \<Rightarrow> ([], False)
      | Some c \<Rightarrow> if \<not> up then ([], False) else send_adds c (deny_list C) reps)"

text \<open>The request sent, if any, and the new value of \<^verbatim>\<open>g_lsm_on\<close>.\<close>

definition lsm_unregister :: "bool \<Rightarrow> u64 \<Rightarrow> cstr option \<times> bool" where
  "lsm_unregister lsm_on cgid = (if lsm_on then Some (''CLR '' @ dec (unat cgid)) else None, False)"

end
