(* ===== verification/Client_Claims.thy ===== *)
theory Client_Claims
  imports Sand_Client Sim_Host
begin

text \<open>
  Properties of the requests \<^verbatim>\<open>sand\<close> makes: its options are well formed, its \<^verbatim>\<open>NETUP\<close> always fits and means
  to the daemon what it meant to the client, the daemon's answer is understood, and a cell with an
  allowlist is only started on an answer that confirms it.
\<close>

subsection \<open>Well-formed options\<close>

definition egress_ok :: "eghost list \<Rightarrow> bool" where
  "egress_ok es \<longleftrightarrow> length es \<le> MAX_EGRESS \<and>
     list_all (\<lambda>e. token (eh_host e) \<and> length (eh_host e) < 128 \<and> eh_port e \<noteq> [] \<and> list_all isdigit (eh_port e) \<and> length (eh_port e) \<le> 7) es"

definition resolv_ok :: "cstr list \<Rightarrow> bool" where
  "resolv_ok rs \<longleftrightarrow> length rs \<le> MAX_RESOLV \<and> list_all (\<lambda>r. token r \<and> length r \<le> 63) rs"

lemma split_last_colon_sub: "split_last_colon s = Some (a, b) \<Longrightarrow> set a \<subseteq> set s"
proof -
  have "set (tl xs) \<subseteq> set xs" for xs :: cstr by (cases xs) auto
  then have "set (rev (tl (dropWhile (\<lambda>c. c \<noteq> CHR '':'') (rev s)))) \<subseteq> set s"
    using set_dropWhileD[of _ "\<lambda>c. c \<noteq> CHR '':''" "rev s"] by fastforce
  moreover assume "split_last_colon s = Some (a, b)"
  then have "a = rev (tl (dropWhile (\<lambda>c. c \<noteq> CHR '':'') (rev s)))" by (simp add: split_last_colon_def split: if_splits)
  ultimately show ?thesis by simp
qed

lemma egress_split_ok:
  assumes "egress_split spec = (host, port)"
  shows "set host \<subseteq> set spec" "port \<noteq> []" "list_all isdigit port"
proof -
  have d: "list_all isdigit ''443''" by (simp add: isdigit_def)
  show "set host \<subseteq> set spec" "port \<noteq> []" "list_all isdigit port"
    using assms d split_last_colon_sub[of spec] by (auto simp: egress_split_def split: option.splits if_splits)
qed

lemma egress_add_ok:
  assumes "egress_ok (egress C)" "egress_add spec C = (rc, C')"
  shows "egress_ok (egress C')"
proof (cases "egress C' = egress C")
  case False
  obtain host port where sp: "egress_split spec = (host, port)" by (cases "egress_split spec")
  have f: "length (egress C) < MAX_EGRESS" "\<not> list_ex (\<lambda>q. (of_char q :: nat) \<le> 32) spec" "host \<noteq> []" "length host < 128"
      "egress C' = egress C @ [\<lparr>eh_host = host, eh_port = snprintf_s 8 port\<rparr>]"
    using assms(2) False sp by (auto simp: egress_add_def split: if_splits)
  have "CHR '' '' \<notin> set spec" using f(2) by (auto simp: list_ex_iff)
  then have "token host" using egress_split_ok(1)[OF sp] f(3) by (auto simp: token_def)
  moreover have "list_all isdigit (take 7 port)" "take 7 port \<noteq> []"
    using egress_split_ok(2,3)[OF sp] by (auto simp: list_all_iff dest: in_set_takeD)
  ultimately show ?thesis using assms(1) f by (simp add: egress_ok_def snprintf_s_def)
qed (use assms in simp)

lemma ns_add_ok: "resolv_ok rs \<Longrightarrow> resolv_ok (ns_add rs l)"
proof -
  assume ok: "resolv_ok rs"
  have "token (take 63 w)" if w: "ns_word l = Some w" for w
  proof -
    have "w \<noteq> []" "\<forall>c \<in> set w. \<not> isspace c"
      using w by (auto simp: ns_word_def Let_def split: if_splits dest: set_takeWhileD)
    then show ?thesis by (auto simp: token_def isspace_def dest: in_set_takeD)
  qed
  then show ?thesis using ok by (auto simp: ns_add_def resolv_ok_def snprintf_s_def split: option.splits)
qed

lemma resolv_add_file_ok: "resolv_ok (resolv C) \<Longrightarrow> resolv_ok (resolv (resolv_add_file fs p C))"
proof -
  have "resolv_ok rs \<Longrightarrow> resolv_ok (foldl ns_add rs ls)" for rs ls
    by (induction ls arbitrary: rs) (simp_all add: ns_add_ok)
  then show "resolv_ok (resolv C) \<Longrightarrow> resolv_ok (resolv (resolv_add_file fs p C))"
    by (simp add: resolv_add_file_def split: option.split)
qed

lemma resolv_collect_ok: "resolv_ok (resolv (resolv_collect fs C))"
proof -
  have "resolv_ok []" by (simp add: resolv_ok_def)
  then show ?thesis by (simp add: resolv_collect_def Let_def resolv_add_file_ok)
qed

lemma resolv_collect_egress: "egress (resolv_collect fs C) = egress C"
  by (simp add: resolv_collect_def Let_def resolv_add_file_def split: option.split)

lemma resolv_collect_veth: "veth_on (resolv_collect fs C) = veth_on C"
  by (simp add: resolv_collect_def Let_def resolv_add_file_def split: option.split)

text \<open>The options are well formed whatever the user types and whatever the files hold: after any
  sequence of \<^verbatim>\<open>--egress\<close> options every host is one word of at most 127 characters with a port of
  one to seven digits, at most 16 of them, and the collected resolvers are at most four words of at
  most 63 characters.\<close>

theorem options_wellformed:
  "egress C = [] \<Longrightarrow> egress_ok (egress (foldl (\<lambda>C s. snd (egress_add s C)) C specs)) \<and> resolv_ok (resolv (resolv_collect fs C))"
proof -
  assume "egress C = []"
  then have "egress_ok (egress C)" by (simp add: egress_ok_def)
  then have "egress_ok (egress (foldl (\<lambda>C s. snd (egress_add s C)) C specs))"
  proof (induction specs arbitrary: C)
    case (Cons s specs)
    have "egress_ok (egress (snd (egress_add s C)))" using egress_add_ok[OF Cons.prems] by (metis prod.collapse)
    then show ?case using Cons.IH by simp
  qed simp
  then show ?thesis using resolv_collect_ok by blast
qed

definition demo_cfg :: cfg where "demo_cfg = cfg_zero"

theorem options_wellformed_witness:
  "egress_ok (egress (foldl (\<lambda>C s. snd (egress_add s C)) demo_cfg [''a.b:80'', ''c d'']))"
  by (rule options_wellformed[THEN conjunct1]) (simp add: demo_cfg_def cfg_zero_def)

subsection \<open>The request\<close>

lemma length_dec: "n < 10 ^ Suc k \<Longrightarrow> length (dec n) \<le> Suc k"
proof (induction k arbitrary: n)
  case 0
  then show ?case by (subst dec.simps) simp
next
  case (Suc k)
  have "n div 10 < 10 ^ Suc k" using Suc.prems by (simp add: less_mult_imp_div_less mult.commute)
  then show ?case using Suc.IH[of "n div 10"] by (subst dec.simps) simp
qed

text \<open>The commands of the daemon fit the 512-byte buffer of \<^verbatim>\<open>sh\<close>: for networks of the bitmap, process ids of 32 bits, and addresses and
  ports that fit the fields of \<^verbatim>\<open>struct egpair\<close>, \<open>cmd_text\<close> is never cut.\<close>

fun rule_small :: "rule \<Rightarrow> bool" where
  "rule_small (VethTcp i ip port) = (i < 16384 \<and> length ip \<le> 63 \<and> length port \<le> 7)"
| "rule_small (VethDrop i) = (i < 16384)"
| "rule_small (VethEstab i) = (i < 16384)"
| "rule_small (VethDns i) = (i < 16384)"
| "rule_small (Foreign s) = False"
| "rule_small r = True"

fun cmd_small :: "sh_cmd \<Rightarrow> bool" where
  "cmd_small (LinkAdd q i) = (i < 16384)"
| "cmd_small (LinkDel i) = (i < 16384)"
| "cmd_small (LinkNetns i pid) = (i < 16384 \<and> 0 \<le> pid \<and> pid < 2 ^ 31)"
| "cmd_small (AddrAdd a b i) = (a < 256 \<and> b < 256 \<and> i < 16384)"
| "cmd_small (LinkUp i) = (i < 16384)"
| "cmd_small (Insert r) = rule_small r"
| "cmd_small (Delete r) = rule_small r"
| "cmd_small (Ensure r) = rule_small r"
| "cmd_small (Scrub i) = (i < 16384)"
| "cmd_small c = True"

lemma length_idx: "i < 16384 \<Longrightarrow> length (dec i) \<le> 5"
  using length_dec[of i 4] by simp

lemma rule_text_fits: "rule_small r \<Longrightarrow> length (rule_text r) \<le> 140"
  by (cases r) (auto dest!: length_idx)

lemma cmd_text_fits: "cmd_small c \<Longrightarrow> length (cmd_text c) < 512"
proof -
  assume c: "cmd_small c"
  have i: "length (dec i) \<le> 5" if "i < 16384" for i using length_idx[OF that] .
  have p: "length (dec_int pid) \<le> 10" if "0 \<le> pid" "pid < 2 ^ 31" for pid
    using that length_dec[of "nat pid" 9] by (simp add: dec_int_def)
  have o: "length (dec a) \<le> 3" if "a < 256" for a using that length_dec_octet[of a] by simp
  show ?thesis using c
  proof (cases c)
    case (LinkNetns j pid)
    then show ?thesis using c i[of j] p[of pid] by simp
  next
    case (AddrAdd a b j)
    then show ?thesis using c i[of j] o[of a] o[of b] by simp
  qed (auto simp: quiet_def masquerade_def scrub_tail_def dest!: i rule_text_fits)
qed

lemma append_fit_all: "length cmd + sum_list (map length ps) < 4096 \<Longrightarrow> append_fit cmd ps = Some (cmd @ concat ps)"
  by (induction cmd ps rule: append_fit.induct) auto

lemma sum_bounded: "list_all (\<lambda>x. f x \<le> (b :: nat)) xs \<Longrightarrow> sum_list (map f xs) \<le> length xs * b"
  by (induction xs) auto

lemma netup_cmd_fits:
  assumes "egress_ok (egress C)" "resolv_ok (resolv C)" "0 < child" "child < 2 ^ 31"
  shows "\<exists>cmd. netup_cmd child C = Some cmd \<and> length cmd < BUF_MAX \<and>
    cmd = ''NETUP '' @ dec_int child @ concat (map egress_arg (egress C)) @ concat (map resolv_arg (resolv C))"
proof -
  let ?ps = "map egress_arg (egress C) @ map resolv_arg (resolv C)"
  have e: "sum_list (map (length \<circ> egress_arg) (egress C)) \<le> length (egress C) * 143"
    using assms(1) by (intro sum_bounded) (auto simp: egress_ok_def egress_arg_def list_all_iff)
  have r: "sum_list (map (length \<circ> resolv_arg) (resolv C)) \<le> length (resolv C) * 71"
    using assms(2) by (intro sum_bounded) (auto simp: resolv_ok_def resolv_arg_def list_all_iff)
  have "nat child < 10 ^ Suc 9" using assms(3,4) by simp
  then have n: "length (dec_int child) \<le> 10" using length_dec[of "nat child" 9] assms(3) by (simp add: dec_int_def)
  have "length (egress C) \<le> 16" "length (resolv C) \<le> 4"
    using assms(1,2) by (simp_all add: egress_ok_def resolv_ok_def MAX_EGRESS_def MAX_RESOLV_def)
  then have l: "length (''NETUP '' @ dec_int child) + sum_list (map length ?ps) < 4000" using e r n by simp
  have cmd: "netup_cmd child C = Some ((''NETUP '' @ dec_int child) @ concat ?ps)"
    unfolding netup_cmd_def using l by (intro append_fit_all) linarith
  have "length ((''NETUP '' @ dec_int child) @ concat ?ps) < BUF_MAX"
    unfolding length_append[of _ "concat ?ps"] length_concat BUF_MAX_def using l by linarith
  with cmd show ?thesis by simp
qed

definition demo_full :: cfg where
  "demo_full = demo_cfg\<lparr>egress := [\<lparr>eh_host = ''a.b'', eh_port = ''80''\<rparr>], resolv := [''8.8.8.8'']\<rparr>"

lemma demo_full_ok: "egress_ok (egress demo_full)" "resolv_ok (resolv demo_full)"
  by (simp_all add: demo_full_def demo_cfg_def cfg_zero_def egress_ok_def resolv_ok_def MAX_EGRESS_def MAX_RESOLV_def token_def isdigit_def)

text \<open>\<^verbatim>\<open>NETUP\<close> always fits. With well-formed options the request is never too long for the client's
  buffer nor for the daemon's line buffer, so neither "list too long" nor "line too long" occurs.\<close>

theorem netup_fits:
  assumes "egress_ok (egress C)" "resolv_ok (resolv C)" "0 < child" "child < 2 ^ 31"
  shows "\<exists>cmd. netup_cmd child C = Some cmd \<and> length cmd < BUF_MAX \<and>
    cmd = ''NETUP '' @ dec_int child @ concat (map egress_arg (egress C)) @ concat (map resolv_arg (resolv C))"
  using netup_cmd_fits[OF assms] .

theorem netup_fits_witness: "\<exists>cmd. netup_cmd 7 demo_full = Some cmd \<and> length cmd < BUF_MAX"
  using netup_fits[OF demo_full_ok, of 7] by auto

lemma netup_args_resolvs:
  assumes "list_all (\<lambda>r. token r \<and> length r \<le> 63) rs" "length nss + length rs \<le> MAX_NS"
  shows "netup_args (concat (map resolv_arg rs)) hosts nss = (hosts, nss @ rs, False)"
  using assms
proof (induction rs arbitrary: nss)
  case (Cons r rs)
  have "gap (concat (map resolv_arg rs))" by (cases rs) (simp_all add: resolv_arg_def)
  then have "netup_args ('' RESOLV '' @ r @ concat (map resolv_arg rs)) hosts nss =
      netup_args (concat (map resolv_arg rs)) hosts (nss @ [snprintf_s 64 r])"
    using Cons.prems by (intro netup_args_resolv) simp_all
  moreover have "snprintf_s 64 r = r" using Cons.prems by (simp add: snprintf_s_def)
  moreover have "netup_args (concat (map resolv_arg rs)) hosts (nss @ [r]) = (hosts, (nss @ [r]) @ rs, False)"
    using Cons.prems by (intro Cons.IH) simp_all
  moreover have "concat (map resolv_arg (r # rs)) = '' RESOLV '' @ r @ concat (map resolv_arg rs)" by (simp add: resolv_arg_def)
  ultimately show ?case by simp
qed (simp add: netup_args_nil)

lemma netup_args_print:
  assumes "egress_ok (pre @ es)" "resolv_ok rs"
  shows "netup_args (concat (map egress_arg es) @ concat (map resolv_arg rs)) pre [] = (pre @ es, rs, False)"
  using assms(1)
proof (induction es arbitrary: pre)
  case Nil
  then show ?case using netup_args_resolvs[of rs "[]" pre] assms(2) by (simp add: resolv_ok_def MAX_NS_def MAX_RESOLV_def)
next
  case (Cons e es)
  let ?r = "concat (map egress_arg es) @ concat (map resolv_arg rs)"
  have "gap ?r" by (cases es; cases rs) (simp_all add: resolv_arg_def egress_arg_def)
  moreover have e: "token (eh_host e)" "length (eh_host e) < 128" "eh_port e \<noteq> []" "list_all isdigit (eh_port e)" "length (eh_port e) \<le> 7"
      "length pre < MAX_EGRESS"
    using Cons.prems by (auto simp: egress_ok_def)
  moreover have "\<not> isdigit (CHR '' '')" by (simp add: isdigit_def)
  then have "token (eh_port e)" using e(3,4) not_digit_notin by (auto simp: token_def)
  ultimately have "netup_args ('' EGRESS '' @ eh_host e @ '' '' @ eh_port e @ ?r) pre [] =
      netup_args ?r (pre @ [\<lparr>eh_host = snprintf_s 128 (eh_host e), eh_port = snprintf_s 8 (eh_port e)\<rparr>]) []"
    by (intro netup_args_egress)
  moreover have "\<lparr>eh_host = snprintf_s 128 (eh_host e), eh_port = snprintf_s 8 (eh_port e)\<rparr> = e"
    using e by (cases e) (simp add: snprintf_s_def)
  moreover have "netup_args ?r (pre @ [e]) [] = (pre @ e # es, rs, False)"
    using Cons.IH[of "pre @ [e]"] Cons.prems by simp
  moreover have "concat (map egress_arg (e # es)) @ concat (map resolv_arg rs) = '' EGRESS '' @ eh_host e @ '' '' @ eh_port e @ ?r"
    by (simp add: egress_arg_def)
  ultimately show ?case by simp
qed

lemma scan_num_dec:
  assumes "r = [] \<or> \<not> isdigit (hd r)"
  shows "scan_num (dec n @ r) = Some (False, dec n, r)"
proof -
  obtain c cs where c: "dec n = c # cs" by (cases "dec n") simp_all
  have dig: "list_all isdigit (c # cs)" using dec_digits[of n] by (simp add: c)
  then have "\<not> isspace c" "c \<noteq> CHR ''-''" "c \<noteq> CHR ''+''" by (auto simp: isspace_def isdigit_def)
  moreover have "takeWhile isdigit (dec n @ r) = dec n" "dropWhile isdigit (dec n @ r) = r"
  proof -
    have "takeWhile isdigit r = []" "dropWhile isdigit r = r"
      using assms by (cases r; simp)+
    then show "takeWhile isdigit (dec n @ r) = dec n" "dropWhile isdigit (dec n @ r) = r"
      using dec_digits[of n] by (simp_all add: takeWhile_append2 dropWhile_append2 list_all_iff)
  qed
  ultimately show ?thesis by (simp add: scan_num_def c Let_def)
qed

lemma strtol_dec: "int n < 2 ^ 63 \<Longrightarrow> r = [] \<or> \<not> isdigit (hd r) \<Longrightarrow> strtol (dec n @ r) = Some (int n, r)"
  by (simp add: strtol_def scan_num_dec)

text \<open>C14: the daemon understands \<^verbatim>\<open>NETUP\<close> as \<^verbatim>\<open>sand\<close> meant it. The request that \<^verbatim>\<open>sand\<close> prints for a child and
  its well-formed options makes the daemon bring up a network for exactly that process with exactly
  those hosts, ports and resolvers, and answer with the result.\<close>

theorem netup_roundtrip:
  assumes "egress_ok (egress C)" "resolv_ok (resolv C)" "0 < child" "child < 2 ^ 31" "netup_cmd child C = Some cmd"
    "net_up E (o_dns w) (dm_net d) (dm_host d) child (egress C) (resolv C) = (rc, rep, net, h)"
  shows "serve_line E w i cmd d = reply w i (netup_reply True False rc rep) (d\<lparr>dm_net := net, dm_host := h\<rparr>)"
proof -
  let ?args = "concat (map egress_arg (egress C)) @ concat (map resolv_arg (resolv C))"
  have cmd: "cmd = ''NETUP '' @ dec_int child @ ?args" using netup_cmd_fits[OF assms(1-4)] assms(5) by auto
  have "gap ?args" by (cases "egress C"; cases "resolv C") (simp_all add: egress_arg_def resolv_arg_def)
  then have "?args = [] \<or> \<not> isdigit (hd ?args)" by (auto simp: gap_def isdigit_def)
  then have num: "strtol (dec_int child @ ?args) = Some (child, ?args)"
    using strtol_dec[of "nat child" ?args] assms(3,4) by (simp add: dec_int_def)
  have args: "netup_args ?args [] [] = (egress C, resolv C, False)"
    using netup_args_print[of "[]" "egress C" "resolv C"] assms(1,2) by simp
  have "to_pid child = child" using assms(3,4) by (simp add: to_pid_def int_word_sint)
  then have "serve_netup E w (dec_int child @ ?args) d = (netup_reply True False rc rep, d\<lparr>dm_net := net, dm_host := h\<rparr>)"
    unfolding serve_netup_def num option.case case_prod_conv args Let_def using assms(6) by simp
  then show ?thesis unfolding cmd by (simp add: serve_line_def skip_def starts_def)
qed

theorem netup_roundtrip_witness:
  "\<exists>cmd h'. netup_cmd 7 (demo_cfg\<lparr>egress := [\<lparr>eh_host = demo_ip, eh_port = ''80''\<rparr>]\<rparr>) = Some cmd \<and>
     serve_line (sim_env (\<lambda>_. False)) \<lparr>o_dns = \<lambda>_ _. [], o_places = (0, 0), o_write = \<lambda>_ _. True\<rparr> 0 cmd
       \<lparr>dm_maps = lsm_maps_init, dm_net = netd_init, dm_host = sim_start, g_conn = [], dm_sent = [], dm_stdout = []\<rparr> =
     reply \<lparr>o_dns = \<lambda>_ _. [], o_places = (0, 0), o_write = \<lambda>_ _. True\<rparr> 0 (netup_reply True False 0 (snprintf_s 128 (ok_reply (demo_cell ''80''))))
       \<lparr>dm_maps = lsm_maps_init, dm_net = demo_netd ''80'', dm_host = h', g_conn = [], dm_sent = [], dm_stdout = []\<rparr>"
proof -
  let ?E = "sim_env (\<lambda>_. False)" and ?w = "\<lparr>o_dns = \<lambda>_ _. [], o_places = (0, 0), o_write = \<lambda>_ _. True\<rparr> :: outside"
  let ?host = "\<lparr>eh_host = demo_ip, eh_port = ''80''\<rparr>" and ?C = "demo_cfg\<lparr>egress := [\<lparr>eh_host = demo_ip, eh_port = ''80''\<rparr>]\<rparr>"
  let ?d = "\<lparr>dm_maps = lsm_maps_init, dm_net = netd_init, dm_host = sim_start, g_conn = [], dm_sent = [], dm_stdout = []\<rparr>"
  have ok: "egress_ok (egress ?C)" "resolv_ok (resolv ?C)" "(0 :: int) < 7" "(7 :: int) < 2 ^ 31"
    by (simp_all add: demo_cfg_def cfg_zero_def egress_ok_def resolv_ok_def MAX_EGRESS_def token_def isdigit_def demo_ip_def)
  obtain cmd where cmd: "netup_cmd 7 ?C = Some cmd" using netup_cmd_fits[OF ok] by blast
  obtain h' where "net_up ?E (o_dns ?w) netd_init sim_start 7 [?host] [] = (0, snprintf_s 128 (ok_reply (demo_cell ''80'')), demo_netd ''80'', h')"
    using demo_net_up[of "\<lambda>_. False" "''80''" sim_start "o_dns ?w"] by (auto simp: sim_start_def)
  then have "net_up ?E (o_dns ?w) (dm_net ?d) (dm_host ?d) 7 (egress ?C) (resolv ?C) =
      (0, snprintf_s 128 (ok_reply (demo_cell ''80'')), demo_netd ''80'', h')" by (simp add: demo_cfg_def cfg_zero_def)
  from netup_roundtrip[OF ok cmd this, of 0] cmd show ?thesis by (intro exI[of _ cmd] exI[of _ h']) simp
qed

subsection \<open>The answer\<close>

lemma scan_s_word:
  assumes "w \<noteq> []" "\<forall>c \<in> set w. \<not> isspace c" "length w \<le> 63" "r = [] \<or> isspace (hd r)"
  shows "scan_s 63 (w @ r) = Some (w, r)" "scan_s 63 (CHR '' '' # w @ r) = Some (w, r)"
proof -
  have "dropWhile isspace (w @ r) = w @ r" using assms(1,2) by (cases w) auto
  moreover have "takeWhile (\<lambda>c. \<not> isspace c) r = []" using assms(4) by (cases r) auto
  then have "takeWhile (\<lambda>c. \<not> isspace c) (w @ r) = w" using assms(2) by (simp add: takeWhile_append2)
  moreover have "isspace (CHR '' '')" by (simp add: isspace_def)
  ultimately show "scan_s 63 (w @ r) = Some (w, r)" "scan_s 63 (CHR '' '' # w @ r) = Some (w, r)"
    using assms(1,3) by (simp_all add: scan_s_def Let_def)
qed

lemma scan_d_dec:
  assumes "n < 2 ^ 31" "r = [] \<or> \<not> isdigit (hd r)"
  shows "scan_d (CHR '' '' # dec n @ r) = Some (int n, r)"
proof -
  have "strtol (CHR '' '' # s) = strtol s" for s by (simp add: strtol_def scan_num_def isspace_def)
  moreover have "int n < 2 ^ 31" using assms(1) by (simp add: of_nat_less_iff[symmetric] del: of_nat_less_iff)
  ultimately show ?thesis using strtol_dec[of n r] assms by (simp add: scan_d_def int_word_sint)
qed

definition cell_words :: "nat \<Rightarrow> cstr list" where
  "cell_words idx = (let b = idx * 4 in
     [''vethc'' @ dec idx, ''10.200.'' @ dec ((b + 2) div 256) @ ''.'' @ dec ((b + 2) mod 256),
      ''10.200.'' @ dec ((b + 1) div 256) @ ''.'' @ dec ((b + 1) mod 256)])"

lemma dec_nonspace: "c \<in> set (dec n) \<Longrightarrow> \<not> isspace c \<and> c \<noteq> CHR 0x00"
  using dec_digits[of n] by (auto simp: list_all_iff isdigit_def isspace_def)

definition reply_word :: "cstr \<Rightarrow> bool" where
  "reply_word w \<longleftrightarrow> w \<noteq> [] \<and> (\<forall>c \<in> set w. \<not> isspace c \<and> c \<noteq> CHR 0x00) \<and> length w \<le> 15"

lemma reply_word_addr: "n < 65536 \<Longrightarrow> reply_word (''10.200.'' @ dec (n div 256) @ ''.'' @ dec (n mod 256))"
proof -
  assume "n < 65536"
  then have "n div 256 \<le> 255" "n mod 256 \<le> 255" by auto
  note this[THEN length_dec_octet]
  moreover have "\<forall>c \<in> set ''10.200.''. \<not> isspace c \<and> c \<noteq> CHR 0x00" by (simp add: isspace_def)
  ultimately show ?thesis by (auto simp: reply_word_def dest: dec_nonspace)
qed

lemma cell_words_ok:
  assumes "idx < 16384" "w \<in> set (cell_words idx)"
  shows "reply_word w"
proof -
  have "length (dec idx) \<le> 5" using length_dec[of idx 4] assms(1) by simp
  moreover have "\<forall>c \<in> set ''vethc''. \<not> isspace c \<and> c \<noteq> CHR 0x00" by (simp add: isspace_def)
  ultimately have "reply_word (''vethc'' @ dec idx)" by (auto simp: reply_word_def dest: dec_nonspace)
  moreover have "idx * 4 + 2 < 65536" "idx * 4 + 1 < 65536" using assms(1) by simp_all
  note this[THEN reply_word_addr]
  ultimately show ?thesis using assms(2) unfolding cell_words_def Let_def by auto
qed

lemma scan_words_reply:
  assumes "reply_word a" "reply_word b" "reply_word g"
  shows "scan_words 3 (a @ CHR '' '' # b @ CHR '' '' # g @ CHR '' '' # r) = ([a, b, g], CHR '' '' # r)"
proof -
  have sp: "isspace (CHR '' '')" by (simp add: isspace_def)
  have w: "scan_s 63 (x @ CHR '' '' # y) = Some (x, CHR '' '' # y)" "scan_s 63 (CHR '' '' # x @ CHR '' '' # y) = Some (x, CHR '' '' # y)"
    if "reply_word x" for x y
  proof -
    have x: "x \<noteq> []" "\<forall>c \<in> set x. \<not> isspace c" "length x \<le> 63" "CHR '' '' # y = [] \<or> isspace (hd (CHR '' '' # y))"
      using that sp by (simp_all add: reply_word_def)
    show "scan_s 63 (x @ CHR '' '' # y) = Some (x, CHR '' '' # y)" "scan_s 63 (CHR '' '' # x @ CHR '' '' # y) = Some (x, CHR '' '' # y)"
      by (rule scan_s_word[OF x])+
  qed
  show ?thesis by (simp add: numeral_3_eq_3 w(1)[OF assms(1)] w(2)[OF assms(2)] w(2)[OF assms(3)])
qed

lemma ok_reply_words:
  "ok_reply c = ''OK '' @ cell_words (cn_idx c) ! 0 @ CHR '' '' # cell_words (cn_idx c) ! 1 @ CHR '' '' # cell_words (cn_idx c) ! 2 @
     CHR '' '' # dec (length (cn_hosts c)) @ CHR '' '' # dec (length (cn_eg c)) @ nl"
  by (simp add: ok_reply_def cell_words_def Let_def)

lemma ok_reply_parsed:
  assumes "cn_idx c < 16384" "length (cn_hosts c) \<le> 16" "length (cn_eg c) \<le> 128"
  shows "cut0 (take 191 (snprintf_s 128 (ok_reply c))) = ok_reply c"
    "scan_ok (drop 3 (ok_reply c)) = (cell_words (cn_idx c), [int (length (cn_hosts c)), int (length (cn_eg c))])"
proof -
  obtain a b g where cw: "cell_words (cn_idx c) = [a, b, g]" by (simp add: cell_words_def Let_def)
  have rw: "reply_word a" "reply_word b" "reply_word g" using cell_words_ok[OF assms(1)] cw by simp_all
  have rep: "ok_reply c = ''OK '' @ a @ CHR '' '' # b @ CHR '' '' # g @
     CHR '' '' # dec (length (cn_hosts c)) @ CHR '' '' # dec (length (cn_eg c)) @ nl"
    unfolding ok_reply_words cw by simp
  have n: "length (dec (length (cn_hosts c))) \<le> 3" "length (dec (length (cn_eg c))) \<le> 3"
    using assms(2,3) by (auto intro!: length_dec_octet)
  have len: "length (ok_reply c) \<le> 100" using rw n unfolding rep reply_word_def nl_def by simp
  have "CHR 0x00 \<notin> set (ok_reply c)"
    using rw unfolding rep reply_word_def nl_def by (auto dest: dec_nonspace)
  then have "cut0 (ok_reply c) = ok_reply c" by (simp add: cut0_def takeWhile_eq_all_conv) blast
  then show "cut0 (take 191 (snprintf_s 128 (ok_reply c))) = ok_reply c" using len by (simp add: snprintf_s_def)
  have d: "\<not> isdigit (CHR '' '')" "\<not> isdigit (CHR 0x0A)" by (simp_all add: isdigit_def)
  have h: "scan_d (CHR '' '' # dec (length (cn_hosts c)) @ CHR '' '' # dec (length (cn_eg c)) @ nl) =
      Some (int (length (cn_hosts c)), CHR '' '' # dec (length (cn_eg c)) @ nl)"
    using assms(2) d by (intro scan_d_dec) simp_all
  have e: "scan_d (CHR '' '' # dec (length (cn_eg c)) @ nl) = Some (int (length (cn_eg c)), nl)"
    using assms(3) d by (intro scan_d_dec) (simp_all add: nl_def)
  have "drop 3 (ok_reply c) = a @ CHR '' '' # b @ CHR '' '' # g @
     CHR '' '' # dec (length (cn_hosts c)) @ CHR '' '' # dec (length (cn_eg c)) @ nl"
    unfolding rep by simp
  then show "scan_ok (drop 3 (ok_reply c)) = (cell_words (cn_idx c), [int (length (cn_hosts c)), int (length (cn_eg c))])"
    unfolding scan_ok_def by (simp add: scan_words_reply[OF rw] h e cw)
qed

text \<open>C23: the daemon's success is understood. When the daemon answers \<^verbatim>\<open>OK\<close> for a cell that has all the
  requested hosts and some address, \<^verbatim>\<open>sand\<close> accepts it and configures the interface, address and
  gateway of exactly that cell's network.\<close>

theorem netup_answer_understood:
  assumes "egress_ok (egress C)" "resolv_ok (resolv C)" "resolv C \<noteq> []" "0 < child" "child < 2 ^ 31"
    "cn_idx c < 16384" "cn_hosts c = egress C" "egress C \<noteq> [] \<longrightarrow> cn_eg c \<noteq> []" "length (cn_eg c) \<le> 128"
    "\<And>cmd. netup_cmd child C = Some cmd \<Longrightarrow> talk cmd = Some (snprintf_s 128 (ok_reply c))"
  shows "net_veth_register fs talk child C = (0, C\<lparr>veth_if := cell_words (cn_idx c) ! 0, veth_ip := cell_words (cn_idx c) ! 1,
    veth_gw := cell_words (cn_idx c) ! 2, veth_on := True\<rparr>)"
proof -
  obtain cmd where cmd: "netup_cmd child C = Some cmd" using netup_cmd_fits[OF assms(1,2,4,5)] by blast
  have h: "length (cn_hosts c) \<le> 16" using assms(1,7) by (simp add: egress_ok_def MAX_EGRESS_def)
  note parsed = ok_reply_parsed[OF assms(6) h assms(9)]
  have ok: "starts ''OK '' (ok_reply c)" by (simp add: starts_def ok_reply_def Let_def)
  obtain a b g where cw: "cell_words (cn_idx c) = [a, b, g]" by (simp add: cell_words_def Let_def)
  have nr: "\<not> veth_refused (length (egress C)) ([a, b, g], [int (length (cn_hosts c)), int (length (cn_eg c))])"
    using assms(7,8) by (auto simp: veth_refused_def)
  have put: "put_veth [a, b, g] C = C\<lparr>veth_if := a, veth_ip := b, veth_gw := g\<rparr>" by (simp add: put_veth_def Let_def)
  have "net_veth_register fs talk child C = (0, (put_veth [a, b, g] C)\<lparr>veth_on := True\<rparr>)"
    unfolding net_veth_register_def if_not_P[OF assms(3)] Let_def cmd option.case assms(10)[OF cmd] parsed(1) if_P[OF ok] parsed(2) cw fst_conv if_not_P[OF nr] ..
  then show ?thesis unfolding put cw by simp
qed

theorem netup_answer_understood_witness:
  "fst (net_veth_register (\<lambda>_. None) (\<lambda>_. Some (snprintf_s 128 (ok_reply (demo_cell ''80''\<lparr>cn_hosts := egress demo_full\<rparr>)))) 7 demo_full) = 0"
  using netup_answer_understood[OF demo_full_ok, of 7 "demo_cell ''80''\<lparr>cn_hosts := egress demo_full\<rparr>"
      "\<lambda>_. Some (snprintf_s 128 (ok_reply (demo_cell ''80''\<lparr>cn_hosts := egress demo_full\<rparr>)))" "\<lambda>_. None"]
  by (simp add: demo_cell_def demo_full_def)

text \<open>C16: no cell with an allowlist starts unconfirmed. When hosts were requested, \<^verbatim>\<open>net_veth_register\<close> either
  fails for good (never the soft failure that falls back to no network) or has an \<^verbatim>\<open>OK\<close> from the
  daemon that reports all the requested hosts and at least one address.\<close>

theorem veth_fail_closed:
  assumes "egress_ok (egress C)" "resolv_ok (resolv C)" "egress C \<noteq> []" "0 < child" "child < 2 ^ 31"
    "net_veth_register fs talk child C = (rc, C')"
  shows "rc = -2 \<and> veth_on C' = veth_on C \<or>
    rc = 0 \<and> (\<exists>cmd rep ws n. talk cmd = Some rep \<and> starts ''OK '' (cut0 (take 191 rep)) \<and>
      scan_ok (drop 3 (cut0 (take 191 rep))) = (ws, [int (length (egress C)), n]) \<and> 0 < n)"
proof -
  define D where "D = (if resolv C = [] then resolv_collect fs C else C)"
  have D: "egress D = egress C" "resolv_ok (resolv D)" "veth_on D = veth_on C"
    using assms(2) by (simp_all add: D_def resolv_collect_egress resolv_collect_ok resolv_collect_veth)
  obtain cmd where cmd: "netup_cmd child D = Some cmd" using netup_cmd_fits[of D child] assms(1,4,5) D by auto
  define got where "got = (case talk cmd of None \<Rightarrow> ([], [])
      | Some rep \<Rightarrow> let rep = cut0 (take 191 rep) in if starts ''OK '' rep then scan_ok (drop 3 rep) else ([], []))"
  have reg: "(rc, C') = (if veth_refused (length (egress C)) got then (-2, put_veth (fst got) D)
      else (0, (put_veth (fst got) D)\<lparr>veth_on := True\<rparr>))"
    using assms(3,6) by (simp add: net_veth_register_def D_def[symmetric] cmd D(1) got_def[symmetric] Let_def split: if_splits)
  show ?thesis
  proof (cases "veth_refused (length (egress C)) got")
    case True
    then show ?thesis using reg D(3) by (simp add: put_veth_def Let_def)
  next
    case False
    obtain ws ns where g: "got = (ws, ns)" by (cases got)
    have ns: "length ws \<ge> 3" "length ns = 2" "ns ! 0 = int (length (egress C))" "0 < ns ! 1"
      using False assms(3) by (auto simp: veth_refused_def g)
    then obtain n where n: "ns = [int (length (egress C)), n]" "0 < n" by (cases ns rule: list.exhaust; cases "tl ns") auto
    obtain rep where rep: "talk cmd = Some rep" "starts ''OK '' (cut0 (take 191 rep))" "scan_ok (drop 3 (cut0 (take 191 rep))) = (ws, ns)"
      using g ns(1) by (auto simp: got_def Let_def split: option.splits if_splits)
    then show ?thesis using reg False n by auto
  qed
qed

definition old_answer :: cstr where
  "old_answer = ''OK vethc0 10.200.0.2 10.200.0.1'' @ nl"

lemma old_answer_parsed: "snd (scan_ok (drop 3 (cut0 (take 191 old_answer)))) = []"
  by (simp add: old_answer_def scan_ok_def numeral_3_eq_3 scan_s_def isspace_def scan_d_def strtol_def scan_num_def cut0_def nl_def)

theorem veth_fail_closed_witness:
  "fst (net_veth_register (\<lambda>_. None) (\<lambda>_. Some old_answer) 7 demo_full) = -2"
proof -
  obtain rc C' where r: "net_veth_register (\<lambda>_. None) (\<lambda>_. Some old_answer) 7 demo_full = (rc, C')"
    by (cases "net_veth_register (\<lambda>_. None) (\<lambda>_. Some old_answer) 7 demo_full")
  have e: "egress demo_full \<noteq> []" and c: "(0 :: int) < 7" "(7 :: int) < 2 ^ 31" by (simp_all add: demo_full_def)
  from veth_fail_closed[OF demo_full_ok e c r] have "rc = -2"
  proof
    assume "rc = 0 \<and> (\<exists>cmd rep ws n. Some old_answer = Some rep \<and> starts ''OK '' (cut0 (take 191 rep)) \<and>
      scan_ok (drop 3 (cut0 (take 191 rep))) = (ws, [int (length (egress demo_full)), n]) \<and> 0 < n)"
    then obtain ws n where "scan_ok (drop 3 (cut0 (take 191 old_answer))) = (ws, [int (length (egress demo_full)), n])" by blast
    with old_answer_parsed show ?thesis by (metis list.distinct(1) snd_conv)
  qed (rule conjunct1)
  with r show ?thesis by simp
qed

subsection \<open>Arming the file policy\<close>

text \<open>The policy counts as armed exactly when every \<^verbatim>\<open>ADD\<close> was answered \<^verbatim>\<open>OK\<close>, and then every deny
  prefix of the cell was sent; a failure in the middle leaves the rules sent before it with the daemon,
  and \<^verbatim>\<open>lsm_unregister\<close> does not clear them because the policy never counted as armed.\<close>

theorem lsm_register_armed:
  assumes "lsm_register (Some cgid) True reps C = (sent, armed)"
  shows "(armed \<longleftrightarrow> length (deny_list C) \<le> length reps \<and>
      list_all (\<lambda>r. \<exists>s. r = Some s \<and> starts ''OK'' s) (take (length (deny_list C)) reps)) \<and>
    prefix sent (map (add_cmd cgid) (deny_list C)) \<and> (armed \<longrightarrow> sent = map (add_cmd cgid) (deny_list C)) \<and>
    (\<not> armed \<longrightarrow> fst (lsm_unregister armed cgid) = None)"
proof -
  have "send_adds cgid ps reps = (sent, armed) \<Longrightarrow>
      (armed \<longleftrightarrow> length ps \<le> length reps \<and> list_all (\<lambda>r. \<exists>s. r = Some s \<and> starts ''OK'' s) (take (length ps) reps)) \<and>
      prefix sent (map (add_cmd cgid) ps) \<and> (armed \<longrightarrow> sent = map (add_cmd cgid) ps)" for ps
  proof (induction ps arbitrary: reps sent armed)
    case (Cons p ps)
    show ?case
    proof (cases reps)
      case (Cons r rs)
      obtain st ok where st: "send_adds cgid ps rs = (st, ok)" by (cases "send_adds cgid ps rs")
      note IH = Cons.IH[OF st]
      show ?thesis
      proof (cases "\<exists>s. r = Some s \<and> starts ''OK'' s")
        case True
        then have "sent = add_cmd cgid p # st" "armed = ok" using Cons.prems st by (auto simp: \<open>reps = r # rs\<close>)
        then show ?thesis using IH True by (simp add: \<open>reps = r # rs\<close>)
      next
        case False
        then have "sent = [add_cmd cgid p]" "\<not> armed" using Cons.prems by (auto simp: \<open>reps = r # rs\<close> split: option.splits if_splits)
        then show ?thesis using False by (auto simp: \<open>reps = r # rs\<close>)
      qed
    qed (use Cons.prems in auto)
  qed simp
  then show ?thesis using assms by (simp add: lsm_register_def lsm_unregister_def)
qed

theorem lsm_register_armed_witness:
  "prefix [''ADD 9 /etc/shadow''] (map (add_cmd 9) (deny_list demo_cfg)) \<and> fst (lsm_unregister False 9) = None"
proof -
  have "dec 9 = ''9''" using dec_val[of "''9''"] by (simp add: canonical_def isdigit_def digit_val_def)
  then have "lsm_register (Some 9) True [Some ''ERR add''] demo_cfg = ([''ADD 9 /etc/shadow''], False)"
    by (simp add: lsm_register_def deny_list_def demo_cfg_def cfg_zero_def add_cmd_def snprintf_s_def starts_def)
  from lsm_register_armed[OF this] show ?thesis by simp
qed

end
