(* ===== verification/Host_Calls.thy ===== *)
theory Host_Calls
  imports Sand_Config Classic_Bpf
begin

text \<open>
  How the parts of \<^verbatim>\<open>src/sand.c\<close> that set a cell up act on the kernel. A \<open>call\<close> is one system call with the
  arguments the source passes; the kernel is a parameter \<open>K\<close> that answers every call, a negative number
  being \<^verbatim>\<open>-errno\<close>, and a \<open>world\<close> is the log of the calls made so far, with their answers, beside the kernel's
  state. An \<open>act\<close> is a statement of the source: it either goes on (\<open>None\<close>) or ends in \<^verbatim>\<open>die\<close> with a message, and
  \<open>run_acts\<close> is the semicolon. \<open>emits\<close> describes the calls of an act in chunks; it is the shared tool for every
  statement about logs.
\<close>

datatype mflag = MS_RDONLY | MS_NOSUID | MS_NODEV | MS_REMOUNT | MS_BIND | MS_REC | MS_PRIVATE

text \<open>The calls of the Landlock layer, of the network set-up, and of the supervising parent.\<close>

datatype ll_call = LlAbi | LlCreate u64 nat | LlRule cstr u64 | LlRestrict

datatype net_call = Socket | IfUp cstr | IfAddr cstr cstr | IfMask cstr cstr | AddRoute cstr cstr

datatype sup_call =
    Mkdtemp cstr
  | OpenWrite cstr
  | Pipe
  | SocketPair
  | Clone bool
  | SyncChild cstr
  | RecvListener
  | LsmAdds u64
  | LsmClr u64
  | NetUp int
  | NetDown int
  | Kill int
  | WaitFor int
  | Exit int
  | Bind cstr
  | Listen
  | Chmod cstr nat
  | SendFd int

datatype call =
    Mkdir cstr nat
  | Mount "cstr option" cstr "cstr option" "mflag list" "cstr option"
  | Symlink cstr cstr
  | OpenCreate cstr nat
  | Unlink cstr
  | WriteSecret cstr cstr
  | WriteFile cstr cstr
  | Unshare_cgroup
  | Pdeathsig
  | Chdir cstr
  | PivotRoot cstr cstr
  | UmountDetach cstr
  | Rmdir cstr
  | NoNewPrivs
  | SeccompInstall u64 u16 "sock_filter list"
  | SendNotifyFd
  | Dup2 int nat
  | JailServer
  | Exec "cstr list" "(cstr \<times> cstr) list"
  | Ll ll_call
  | Net net_call
  | Sup sup_call

abbreviation "LandlockAbi \<equiv> Ll LlAbi"
abbreviation "LandlockCreate h n \<equiv> Ll (LlCreate h n)"
abbreviation "LandlockRule p a \<equiv> Ll (LlRule p a)"
abbreviation "LandlockRestrict \<equiv> Ll LlRestrict"

datatype ftype = FLink | FOther

text \<open>The kernel: its answer to a call, and what it shows of itself: the type of a file, whether a path can be looked up,
  the target of a symbolic link, the text of a file, the device of a file, the resolved path, and whether an interface
  is up.\<close>

record 'h kern =
  k_call :: "call \<Rightarrow> 'h \<Rightarrow> int \<times> 'h"
  k_lstat :: "'h \<Rightarrow> cstr \<Rightarrow> ftype option"
  k_stat :: "'h \<Rightarrow> cstr \<Rightarrow> bool"
  k_readlink :: "'h \<Rightarrow> cstr \<Rightarrow> cstr option"
  k_read :: "'h \<Rightarrow> cstr \<Rightarrow> cstr option"
  k_dev :: "'h \<Rightarrow> cstr \<Rightarrow> (nat \<times> nat) option"
  k_realpath :: "'h \<Rightarrow> cstr \<Rightarrow> cstr option"
  k_ifup :: "'h \<Rightarrow> cstr \<Rightarrow> bool option"

type_synonym log = "(call \<times> int) list"
type_synonym 'h world = "log \<times> 'h"
type_synonym 'h act = "'h world \<Rightarrow> cstr option \<times> 'h world"

definition EEXIST :: int where "EEXIST = 17"

definition do_call :: "'h kern \<Rightarrow> call \<Rightarrow> 'h world \<Rightarrow> int \<times> 'h world" where
  "do_call K c w = (let (r, h) = k_call K c (snd w) in (r, fst w @ [(c, r)], h))"

fun run_acts :: "'h act list \<Rightarrow> 'h act" where
  "run_acts [] w = (None, w)"
| "run_acts (a # as) w = (case a w of (Some m, w) \<Rightarrow> (Some m, w) | (None, w) \<Rightarrow> run_acts as w)"

text \<open>A call whose failure is fatal; one whose failure is only reported, or not looked at; one that may find
  its object already there.\<close>

definition must :: "'h kern \<Rightarrow> call \<Rightarrow> cstr \<Rightarrow> 'h act" where
  "must K c msg w = (let (r, w) = do_call K c w in (if r < 0 then Some msg else None, w))"

definition attempt :: "'h kern \<Rightarrow> call \<Rightarrow> 'h act" where
  "attempt K c w = (None, snd (do_call K c w))"

definition must_exist :: "'h kern \<Rightarrow> call \<Rightarrow> cstr \<Rightarrow> 'h act" where
  "must_exist K c msg w = (let (r, w) = do_call K c w in (if r < 0 \<and> r \<noteq> - EEXIST then Some msg else None, w))"

definition mmkdir :: "'h kern \<Rightarrow> cstr \<Rightarrow> nat \<Rightarrow> 'h act" where
  "mmkdir K p m = must_exist K (Mkdir p m) p"

text \<open>The prefixes \<^verbatim>\<open>mmkdir_p\<close> cuts: before every slash but one at the first place, then the whole path.\<close>

fun dir_cuts :: "cstr \<Rightarrow> cstr \<Rightarrow> cstr list" where
  "dir_cuts pre [] = [pre]"
| "dir_cuts pre (c # s) = (if c = CHR ''/'' then [pre] else []) @ dir_cuts (pre @ [c]) s"

definition mmkdir_p :: "'h kern \<Rightarrow> cstr \<Rightarrow> nat \<Rightarrow> 'h act" where
  "mmkdir_p K path m =
     (let tmp = snprintf_s PATH_MAX path in run_acts (map (\<lambda>p. mmkdir K p m) (dir_cuts (take 1 tmp) (drop 1 tmp))))"

subsection \<open>Reasoning on logs\<close>

named_theorems acts "what the acts of the development log"

definition emits :: "(log \<Rightarrow> bool) \<Rightarrow> 'h act \<Rightarrow> bool" where
  "emits Q a \<longleftrightarrow> (\<forall>w. \<exists>cs. fst (snd (a w)) = fst w @ concat cs \<and> list_all Q cs)"

lemma emitsI: "(\<And>w. \<exists>cs. fst (snd (a w)) = fst w @ concat cs \<and> list_all Q cs) \<Longrightarrow> emits Q a"
  by (simp add: emits_def)

lemma emits_log: "emits Q a \<Longrightarrow> a w = (m, w') \<Longrightarrow> \<exists>cs. fst w' = fst w @ concat cs \<and> list_all Q cs"
  unfolding emits_def by (metis snd_conv)

lemma emits_run_acts [acts]: "list_all (emits Q) as \<Longrightarrow> emits Q (run_acts as)"
proof (induction as)
  case Nil
  have "\<And>w. fst (snd (run_acts [] w)) = fst w @ concat [] \<and> list_all Q []" by simp
  then show ?case unfolding emits_def by blast
next
  case (Cons a as)
  show ?case
  proof (rule emitsI)
    fix w
    obtain m w1 where a: "a w = (m, w1)" by (rule prod.exhaust)
    obtain cs where cs: "fst w1 = fst w @ concat cs" "list_all Q cs"
      using Cons.prems emits_log[of Q a w m w1] a by auto
    obtain ds where ds: "fst (snd (run_acts as w1)) = fst w1 @ concat ds" "list_all Q ds"
      using Cons emits_log[of Q "run_acts as" w1, OF _ surjective_pairing] by auto
    have "fst (snd (run_acts (a # as) w)) = fst w @ concat (if m = None then cs @ ds else cs)"
      using a cs ds by (cases m) auto
    moreover have "list_all Q (if m = None then cs @ ds else cs)" using cs ds by simp
    ultimately show "\<exists>cs. fst (snd (run_acts (a # as) w)) = fst w @ concat cs \<and> list_all Q cs" by blast
  qed
qed

lemma emits_call:
  fixes a :: "'h act"
  assumes "\<And>w. snd (a w) = snd (do_call K c w)" "\<And>r. Q [(c, r)]"
  shows "emits Q a"
proof (rule emitsI)
  fix w :: "'h world"
  obtain r h where "k_call K c (snd w) = (r, h)" by (rule prod.exhaust)
  then have "fst (snd (a w)) = fst w @ concat [[(c, r)]] \<and> list_all Q [[(c, r)]]"
    using assms by (simp add: do_call_def)
  then show "\<exists>cs. fst (snd (a w)) = fst w @ concat cs \<and> list_all Q cs" by blast
qed

lemma emits_must [acts]: "(\<And>r. Q [(c, r)]) \<Longrightarrow> emits Q (must K c msg)"
  by (rule emits_call[where K = K and c = c]) (simp_all add: must_def case_prod_beta)

lemma emits_attempt [acts]: "(\<And>r. Q [(c, r)]) \<Longrightarrow> emits Q (attempt K c)"
  by (rule emits_call[where K = K and c = c]) (simp_all add: attempt_def)

lemma emits_must_exist [acts]: "(\<And>r. Q [(c, r)]) \<Longrightarrow> emits Q (must_exist K c msg)"
  by (rule emits_call[where K = K and c = c]) (simp_all add: must_exist_def case_prod_beta)

lemma emits_mmkdir [acts]: "(\<And>p r. Q [(Mkdir p m, r)]) \<Longrightarrow> emits Q (mmkdir K p m)"
  by (simp add: mmkdir_def emits_must_exist)

lemma emits_mmkdir_p [acts]: "(\<And>p r. Q [(Mkdir p m, r)]) \<Longrightarrow> emits Q (mmkdir_p K path m)"
  unfolding mmkdir_p_def Let_def by (intro emits_run_acts) (auto simp: list_all_iff intro: emits_mmkdir)

lemma emits_nothing [acts]: "emits Q (\<lambda>w. (m w, w))"
  by (rule emitsI, rule exI[of _ "[]"]) simp

lemma emits_if [acts]: "(b \<Longrightarrow> emits Q a) \<Longrightarrow> (\<not> b \<Longrightarrow> emits Q a') \<Longrightarrow> emits Q (if b then a else a')"
  by simp

text \<open>An act that looks at the kernel's state first.\<close>

lemma emits_look: "(\<And>w. \<exists>a. emits Q a \<and> f w = a w) \<Longrightarrow> emits Q f"
  unfolding emits_def by metis

lemma emits_mono: "emits Q a \<Longrightarrow> (\<And>l. Q l \<Longrightarrow> Q' l) \<Longrightarrow> emits Q' a"
  unfolding emits_def list_all_iff by blast

lemma run_acts_append:
  "run_acts (as @ bs) w = (case run_acts as w of (Some m, w) \<Rightarrow> (Some m, w) | (None, w) \<Rightarrow> run_acts bs w)"
  by (induction as arbitrary: w) (auto split: prod.splits option.splits)

text \<open>When a sequence returns, every act of it returned, and a fatal call of it succeeded.\<close>

lemma run_acts_split:
  assumes "run_acts (as @ bs) w = (None, w')"
  obtains v where "run_acts as w = (None, v)" "run_acts bs v = (None, w')"
  using assms by (auto simp: run_acts_append split: prod.splits option.splits)

text \<open>A kernel that grants everything, unmounting apart, never makes an act fail.\<close>

fun unmounting :: "call \<Rightarrow> bool" where
  "unmounting (UmountDetach p) = True"
| "unmounting c = False"

definition willing :: "'h kern \<Rightarrow> bool" where
  "willing K \<longleftrightarrow> (\<forall>c h. \<not> unmounting c \<longrightarrow> fst (k_call K c h) \<ge> 0) \<and> (\<forall>h p. k_lstat K h p \<noteq> None)"

definition goes :: "'h act \<Rightarrow> bool" where
  "goes a \<longleftrightarrow> (\<forall>w. fst (a w) = None)"

lemma goes_run_acts: "list_all goes as \<Longrightarrow> goes (run_acts as)"
proof (induction as)
  case (Cons a as)
  have "fst (run_acts (a # as) w) = None" for w
  proof -
    have "fst (a w) = None" using Cons.prems unfolding list.pred_inject goes_def by blast
    then obtain v where v: "a w = (None, v)" by (metis prod.collapse)
    have "fst (run_acts as v) = None" using Cons unfolding list.pred_inject goes_def by blast
    with v show ?thesis by simp
  qed
  then show ?case by (simp add: goes_def)
qed (simp add: goes_def)

lemma goes_calls:
  assumes "willing K"
  shows "\<not> unmounting c \<Longrightarrow> goes (must K c msg)" "goes (attempt K c)" "\<not> unmounting c \<Longrightarrow> goes (must_exist K c msg)"
    "goes (mmkdir K p m)" "goes (mmkdir_p K p m)"
proof -
  have "\<not> unmounting c \<Longrightarrow> fst (k_call K c h) < 0 \<longleftrightarrow> False" for c h using assms by (simp add: willing_def not_less)
  then show 1: "\<not> unmounting c \<Longrightarrow> goes (must K c msg)" "goes (attempt K c)" "\<not> unmounting c \<Longrightarrow> goes (must_exist K c msg)" for c msg
    by (simp_all add: goes_def must_def attempt_def must_exist_def do_call_def case_prod_beta)
  then show 2: "goes (mmkdir K p m)" for p by (simp add: mmkdir_def)
  show "goes (mmkdir_p K p m)" unfolding mmkdir_p_def Let_def by (rule goes_run_acts) (simp add: list_all_iff 2)
qed

lemma must_ok: "must K c msg w = (None, w') \<Longrightarrow> \<exists>r\<ge>0. fst w' = fst w @ [(c, r)]"
  by (auto simp: must_def do_call_def case_prod_beta split: if_splits)

lemma attempted:
  assumes "run_acts (xs @ attempt K c # ys) w = (None, w')" "list_all (emits Q) ys"
  shows "\<exists>l1 s l2. fst w' = l1 @ (c, fst (k_call K c s)) # l2"
proof -
  obtain v where "run_acts (attempt K c # ys) v = (None, w')" using assms(1) by (rule run_acts_split)
  then have y: "run_acts ys (snd (do_call K c v)) = (None, w')" by (simp add: attempt_def)
  obtain r h where "k_call K c (snd v) = (r, h)" by (rule prod.exhaust)
  then have "fst (snd (do_call K c v)) = fst v @ [(c, r)]" by (simp add: do_call_def)
  then show ?thesis using emits_log[OF emits_run_acts[OF assms(2)] y] \<open>k_call K c (snd v) = (r, h)\<close>
    by (metis append.assoc append_Cons append_Nil fst_conv)
qed

end
