(* ===== verification/Jail_Mounts.thy ===== *)
theory Jail_Mounts
  imports Host_Calls
begin

text \<open>
  The private file system of a cell: \<^verbatim>\<open>bind_mount\<close>, \<^verbatim>\<open>tmpfs_mount\<close>, \<^verbatim>\<open>mirror_top\<close>, \<^verbatim>\<open>bind_os_ro\<close> and
  \<^verbatim>\<open>do_mounts\<close> of \<^verbatim>\<open>src/sand.c\<close>. \<open>nr\<close> is \<^verbatim>\<open>g_newroot\<close>. The specification side is the mount table that a log of
  calls leaves (\<open>mtab\<close>) and the mount a path of the cell belongs to (\<open>seen\<close>).
\<close>

abbreviation "m0555 \<equiv> 365 :: nat"
abbreviation "m0644 \<equiv> 420 :: nat"
abbreviation "m0666 \<equiv> 438 :: nat"
abbreviation "m0700 \<equiv> 448 :: nat"
abbreviation "m0755 \<equiv> 493 :: nat"
abbreviation "m1777 \<equiv> 1023 :: nat"

definition NR :: "cstr \<Rightarrow> cstr \<Rightarrow> cstr" where
  "NR nr path = snprintf_s PATH_MAX (nr @ path)"

definition bind_mount :: "'h kern \<Rightarrow> cstr \<Rightarrow> cstr \<Rightarrow> bool \<Rightarrow> bool \<Rightarrow> 'h act" where
  "bind_mount K src dst ro rec =
     run_acts
      ([must K (Mount (Some src) dst None (MS_BIND # (if rec then [MS_REC] else [])) None)
          (snprintf_s (2 * PATH_MAX) (''bind '' @ src @ '' -> '' @ dst))] @
       (if ro then [attempt K (Mount None dst None ([MS_BIND, MS_REMOUNT, MS_RDONLY] @ (if rec then [MS_REC] else [])) None)]
        else []))"

definition tmpfs_mount :: "'h kern \<Rightarrow> cstr \<Rightarrow> cstr \<Rightarrow> 'h act" where
  "tmpfs_mount K dst opts =
     must K (Mount (Some ''tmpfs'') dst (Some ''tmpfs'') [MS_NOSUID, MS_NODEV] (Some opts)) dst"

definition mirror_top :: "'h kern \<Rightarrow> cstr \<Rightarrow> cfg \<Rightarrow> cstr \<Rightarrow> 'h act" where
  "mirror_top K nr C path w =
     (let src = os_src PATH_MAX C path; p = NR nr path in
      case k_lstat K (snd w) src of
        None \<Rightarrow> (None, w)
      | Some FLink \<Rightarrow>
          (case k_readlink K (snd w) src of
             None \<Rightarrow> (None, w)
           | Some tgt \<Rightarrow> if tgt = [] then (None, w) else must_exist K (Symlink (snprintf_s PATH_MAX tgt) p) path w)
      | Some FOther \<Rightarrow> run_acts [mmkdir K p m0755, bind_mount K src p True True] w)"

definition bind_os_ro :: "'h kern \<Rightarrow> cstr \<Rightarrow> cfg \<Rightarrow> cstr \<Rightarrow> bool \<Rightarrow> 'h act" where
  "bind_os_ro K nr C path required w =
     (let src = os_src PATH_MAX C path; p = NR nr path in
      case k_lstat K (snd w) src of
        None \<Rightarrow> (if required then Some src else None, w)
      | Some _ \<Rightarrow> run_acts [mmkdir K p m0755, bind_mount K src p True True] w)"

subsection \<open>The sections of \<^verbatim>\<open>do_mounts\<close>\<close>

definition mount_root :: "'h kern \<Rightarrow> cstr \<Rightarrow> 'h act list" where
  "mount_root K nr =
     [must K (Mount None ''/'' None [MS_REC, MS_PRIVATE] None) ''make mounts private'',
      must K (Mount (Some ''tmpfs'') nr (Some ''tmpfs'') [MS_NOSUID] (Some ''size=16m,mode=0755'')) ''newroot tmpfs'']"

definition mount_os :: "'h kern \<Rightarrow> cstr \<Rightarrow> cfg \<Rightarrow> 'h act list" where
  "mount_os K nr C =
     [bind_os_ro K nr C ''/usr'' True, bind_os_ro K nr C ''/etc'' True, bind_os_ro K nr C ''/opt'' False,
      mirror_top K nr C ''/bin'', mirror_top K nr C ''/sbin'', mirror_top K nr C ''/lib'', mirror_top K nr C ''/lib64'']"

definition mount_workspace :: "'h kern \<Rightarrow> cstr \<Rightarrow> cfg \<Rightarrow> 'h act list" where
  "mount_workspace K nr C =
     (let p = NR nr ''/home/agent'' in
      [mmkdir_p K p m0755,
       if workdir_size C > 0 then tmpfs_mount K p (snprintf_s 64 (''size='' @ dec_int (workdir_size C) @ '',mode=0755''))
       else bind_mount K (workdir C) p False False])"

definition mnt_dst :: "cstr \<Rightarrow> cstr \<Rightarrow> cstr" where
  "mnt_dst nr d = snprintf_s PATH_MAX (nr @ ''/mnt/'' @ basename_of d)"

definition mount_extra :: "'h kern \<Rightarrow> cstr \<Rightarrow> cfg \<Rightarrow> 'h act list" where
  "mount_extra K nr C =
     [mmkdir K (NR nr ''/mnt'') m0755] @
     concat (map (\<lambda>d. [mmkdir_p K (mnt_dst nr d) m0755, bind_mount K d (mnt_dst nr d) True True]) (ro_dirs C)) @
     concat (map (\<lambda>d. [mmkdir_p K (mnt_dst nr d) m0755, bind_mount K d (mnt_dst nr d) False True]) (rw_dirs C)) @
     concat (map (\<lambda>b. [mmkdir_p K (NR nr (b_dst b)) m0755, bind_mount K (b_src b) (NR nr (b_dst b)) (b_ro b) True]) (binds C))"

definition mount_tmp :: "'h kern \<Rightarrow> cstr \<Rightarrow> 'h act list" where
  "mount_tmp K nr = [mmkdir K (NR nr ''/tmp'') m1777, tmpfs_mount K (NR nr ''/tmp'') ''size=1g,mode=1777'']"

definition mount_overlay :: "'h kern \<Rightarrow> cstr \<Rightarrow> nat \<Rightarrow> cstr \<Rightarrow> 'h act list" where
  "mount_overlay K nr i d =
     (let dst = mnt_dst nr d;
          up = snprintf_s PATH_MAX (nr @ ''/tmp/.ovl/'' @ dec i @ ''.up'');
          wk = snprintf_s PATH_MAX (nr @ ''/tmp/.ovl/'' @ dec i @ ''.wk'');
          opts = snprintf_s (3 * PATH_MAX) (''lowerdir='' @ d @ '',upperdir='' @ up @ '',workdir='' @ wk)
      in [mmkdir_p K dst m0755, mmkdir_p K up m0700, mmkdir_p K wk m0700,
          must K (Mount (Some ''overlay'') dst (Some ''overlay'') [] (Some opts))
            ''overlay mount (userns overlayfs needs kernel >= 5.11)''])"

definition mount_scratch :: "'h kern \<Rightarrow> cstr \<Rightarrow> 'h act list" where
  "mount_scratch K nr =
     [mmkdir_p K (NR nr ''/var/tmp'') m1777, tmpfs_mount K (NR nr ''/var/tmp'') ''size=128m,mode=1777'',
      mmkdir K (NR nr ''/run'') m0755, tmpfs_mount K (NR nr ''/run'') ''size=64m,mode=755'']"

definition dirname_of :: "cstr \<Rightarrow> cstr" where
  "dirname_of p = rev (drop 1 (dropWhile (\<lambda>c. c \<noteq> CHR ''/'') (rev p)))"

text \<open>\<open>OpenCreate\<close> and \<open>WriteSecret\<close> name the file; the mode of a secret is 0600.\<close>

definition place_secret :: "'h kern \<Rightarrow> cstr \<Rightarrow> cstr \<times> cstr \<Rightarrow> 'h act list" where
  "place_secret K nr s =
     (let full = snprintf_s PATH_MAX (nr @ fst s)
      in (if CHR ''/'' \<in> set full then [mmkdir_p K (dirname_of full) m0700] else []) @
         [attempt K (WriteSecret full (snd s))])"

definition mount_host_net :: "'h kern \<Rightarrow> cstr \<Rightarrow> 'h act list" where
  "mount_host_net K nr =
     [mmkdir K (NR nr ''/run/systemd'') m0755,
      attempt K (Mount (Some ''/run/systemd'') (NR nr ''/run/systemd'') None [MS_BIND, MS_REC] None)]"

text \<open>Where \<^verbatim>\<open>/etc/resolv.conf\<close> leads.\<close>

definition resolv_target :: "cstr option \<Rightarrow> cstr" where
  "resolv_target link =
     (case link of
        Some tgt \<Rightarrow>
          if tgt = [] then ''/etc/resolv.conf''
          else let tgt = snprintf_s PATH_MAX tgt
            in normalize_path (if hd tgt \<noteq> CHR ''/'' then snprintf_s PATH_MAX (''/etc/'' @ tgt) else tgt)
      | None \<Rightarrow> ''/etc/resolv.conf'')"

definition RESOLV_UP :: cstr where "RESOLV_UP = ''/run/systemd/resolve/resolv.conf''"

definition mount_resolv :: "'h kern \<Rightarrow> cstr \<Rightarrow> 'h act" where
  "mount_resolv K nr w =
     (if k_stat K (snd w) RESOLV_UP then
        let dst = snprintf_s PATH_MAX (nr @ resolv_target (k_readlink K (snd w) ''/etc/resolv.conf''))
        in run_acts [mmkdir_p K (dirname_of dst) m0755, attempt K (OpenCreate dst m0644), bind_mount K RESOLV_UP dst False False] w
      else (None, w))"

definition mount_kernfs :: "'h kern \<Rightarrow> cstr \<Rightarrow> 'h act list" where
  "mount_kernfs K nr =
     (let sys = NR nr ''/sys''; q = snprintf_s PATH_MAX (sys @ ''/fs/cgroup'') in
      [mmkdir K (NR nr ''/proc'') m0555,
       attempt K (Mount (Some ''proc'') (NR nr ''/proc'') (Some ''proc'') [MS_NOSUID, MS_NODEV] None),
       mmkdir K sys m0555,
       attempt K (Mount (Some ''sysfs'') sys (Some ''sysfs'') [MS_RDONLY, MS_NOSUID, MS_NODEV] None),
       mmkdir_p K q m0555,
       attempt K (Mount (Some ''cgroup2'') q (Some ''cgroup2'') [MS_RDONLY, MS_NOSUID, MS_NODEV] None)])"

definition devs :: "cstr list" where
  "devs = [''null'', ''zero'', ''full'', ''random'', ''urandom'']"

definition dev_dst :: "cstr \<Rightarrow> cstr \<Rightarrow> cstr" where
  "dev_dst nr d = snprintf_s PATH_MAX (nr @ ''/dev/'' @ d)"

definition bind_dev :: "'h kern \<Rightarrow> cstr \<Rightarrow> cstr \<Rightarrow> 'h act" where
  "bind_dev K nr d w =
     (let src = snprintf_s 64 (''/dev/'' @ d); dst = dev_dst nr d;
          w = snd (do_call K (OpenCreate dst m0666) w);
          (r, w) = do_call K (Mount (Some src) dst None [MS_BIND] None) w
      in if r < 0 then (Some (snprintf_s 128 (''bind /dev/'' @ d)), snd (do_call K (Unlink dst) w)) else (None, w))"

definition mount_dev :: "'h kern \<Rightarrow> cstr \<Rightarrow> 'h act list" where
  "mount_dev K nr =
     [mmkdir K (NR nr ''/dev'') m0755, tmpfs_mount K (NR nr ''/dev'') ''size=1m,mode=755''] @
     map (bind_dev K nr) devs @
     [must_exist K (Symlink ''/proc/self/fd'' (NR nr ''/dev/fd'')) ''symlink fd'',
      must_exist K (Symlink ''/proc/self/fd/0'' (NR nr ''/dev/stdin'')) ''symlink stdin'',
      must_exist K (Symlink ''/proc/self/fd/1'' (NR nr ''/dev/stdout'')) ''symlink stdout'',
      must_exist K (Symlink ''/proc/self/fd/2'' (NR nr ''/dev/stderr'')) ''symlink stderr'']"

definition mounts_before_tmp :: "'h kern \<Rightarrow> cstr \<Rightarrow> cfg \<Rightarrow> 'h act list" where
  "mounts_before_tmp K nr C = mount_root K nr @ mount_os K nr C @ mount_workspace K nr C @ mount_extra K nr C"

definition mounts_after_tmp :: "'h kern \<Rightarrow> cstr \<Rightarrow> cfg \<Rightarrow> 'h act list" where
  "mounts_after_tmp K nr C =
     concat (map (\<lambda>(i, d). mount_overlay K nr i d) (enumerate 0 (ov_dirs C))) @ mount_scratch K nr @
     concat (map (place_secret K nr) (secrets C)) @
     (if netmode C = NET_HOST then mount_host_net K nr else []) @
     (if netmode C = NET_VETH then [mount_resolv K nr] else []) @
     mount_kernfs K nr @ mount_dev K nr @ [mmkdir K (NR nr ''/.put_old'') m0755]"

definition do_mounts :: "'h kern \<Rightarrow> cstr \<Rightarrow> cfg \<Rightarrow> 'h act" where
  "do_mounts K nr C = run_acts (mounts_before_tmp K nr C @ mount_tmp K nr @ mounts_after_tmp K nr C)"

end
