(* ===== verification/Path_Claims.thy ===== *)
theory Path_Claims
  imports Sand_Config "HOL-Library.Sublist"
begin

text \<open>
  Paths as sequences of segments. \<open>segs\<close> are the names between slashes, \<open>beneath d p\<close> says that \<open>p\<close> is \<open>d\<close> or lies
  below it, and \<open>lexical\<close> is the textbook resolution of dots on a stack of names, without a bound. The claim is
  that \<^verbatim>\<open>normalize_path\<close> computes it.
\<close>

definition segs :: "cstr \<Rightarrow> cstr list" where
  "segs p = strtok_all (CHR ''/'') p"

definition beneath :: "cstr \<Rightarrow> cstr \<Rightarrow> bool" where
  "beneath d p \<longleftrightarrow> take (length (segs d)) (segs p) = segs d"

lemma strtok_all_nil [simp]: "strtok_all sep [] = []"
  by (simp add: strtok_all.simps)

lemma strtok_all_sep [simp]: "strtok_all sep (sep # s) = strtok_all sep s"
  by (subst (1 2) strtok_all.simps) simp

lemma strtok_all_word:
  "s \<noteq> [] \<Longrightarrow> hd s \<noteq> sep \<Longrightarrow>
   strtok_all sep s = takeWhile (\<lambda>c. c \<noteq> sep) s # strtok_all sep (dropWhile (\<lambda>c. c \<noteq> sep) s)"
  by (subst strtok_all.simps) (cases s; simp)

lemma span_sep:
  "takeWhile (\<lambda>c. c \<noteq> sep) (a @ sep # b) = takeWhile (\<lambda>c. c \<noteq> sep) a"
  "dropWhile (\<lambda>c. c \<noteq> sep) (a @ sep # b) = dropWhile (\<lambda>c. c \<noteq> sep) a @ sep # b"
  by (induction a) auto

lemma strtok_all_append: "strtok_all sep (a @ sep # b) = strtok_all sep a @ strtok_all sep b"
proof (induction "length a" arbitrary: a rule: less_induct)
  case less
  show ?case
  proof (cases "a = [] \<or> hd a = sep")
    case True
    then show ?thesis using less[of "tl a"] by (cases a) auto
  next
    case False
    then obtain c a' where a: "a = c # a'" "c \<noteq> sep" by (cases a) auto
    then have "length (dropWhile (\<lambda>x. x \<noteq> sep) a) < length a"
      using length_dropWhile_le[of "\<lambda>x. x \<noteq> sep" a'] by (simp add: le_imp_less_Suc)
    note IH = less[OF this]
    have "strtok_all sep (a @ sep # b) =
        takeWhile (\<lambda>x. x \<noteq> sep) a # strtok_all sep (dropWhile (\<lambda>x. x \<noteq> sep) a @ sep # b)"
      using a by (subst strtok_all_word) (simp_all add: span_sep)
    also have "\<dots> = strtok_all sep a @ strtok_all sep b" using a by (subst IH, subst (3) strtok_all_word) simp_all
    finally show ?thesis .
  qed
qed

lemma segs_simps [simp]: "segs [] = []" "segs (CHR ''/'' # p) = segs p" "segs (a @ CHR ''/'' # b) = segs a @ segs b"
  by (simp_all add: segs_def strtok_all_append)

lemma strtok_all_words: "s \<in> set (strtok_all sep p) \<Longrightarrow> s \<noteq> [] \<and> sep \<notin> set s"
proof (induction sep p rule: strtok_all.induct)
  case (1 sep p)
  let ?s = "dropWhile (\<lambda>c. c = sep) p"
  show ?case
  proof (cases "?s = []")
    case False
    then have "hd ?s \<noteq> sep" using hd_dropWhile[of "\<lambda>c. c = sep" p] by simp
    then have "takeWhile (\<lambda>c. c \<noteq> sep) ?s \<noteq> []" using False by (cases ?s) auto
    moreover have "s = takeWhile (\<lambda>c. c \<noteq> sep) ?s \<or> s \<in> set (strtok_all sep (dropWhile (\<lambda>c. c \<noteq> sep) ?s))"
      using 1(2) False unfolding strtok_all.simps[of sep p] Let_def by (simp only: if_False list.set insert_iff)
    ultimately show ?thesis using 1(1)[OF refl False] by (auto dest: set_takeWhileD)
  qed (use 1(2) in \<open>subst (asm) strtok_all.simps, simp\<close>)
qed

lemma segs_words: "s \<in> set (segs p) \<Longrightarrow> s \<noteq> [] \<and> CHR ''/'' \<notin> set s"
  by (simp add: segs_def strtok_all_words)

lemma segs_word: "s \<noteq> [] \<Longrightarrow> CHR ''/'' \<notin> set s \<Longrightarrow> segs s = [s]"
proof -
  assume a: "s \<noteq> []" "CHR ''/'' \<notin> set s"
  then have "takeWhile (\<lambda>c. c \<noteq> CHR ''/'') s = s" "dropWhile (\<lambda>c. c \<noteq> CHR ''/'') s = []" by (auto simp: takeWhile_eq_all_conv)
  moreover have "hd s \<noteq> CHR ''/''" using a by (cases s) auto
  ultimately show ?thesis using a strtok_all_word[of s "CHR ''/''"] by (simp only: segs_def strtok_all_nil simp_thms)
qed

lemma segs_join:
  "(\<And>s. s \<in> set ss \<Longrightarrow> s \<noteq> [] \<and> CHR ''/'' \<notin> set s) \<Longrightarrow> segs (concat (map (\<lambda>s. CHR ''/'' # s) ss)) = ss"
proof (induction ss rule: rev_induct)
  case (snoc s ss)
  then show ?case using segs_word[of s] by simp
qed simp

subsection \<open>Lexical resolution\<close>

text \<open>One name acts on the stack of names; \<open>lexical\<close> starts at the root.\<close>

definition enter :: "cstr list \<Rightarrow> cstr \<Rightarrow> cstr list" where
  "enter st s = (if s = ''.'' then st else if s = ''..'' then butlast st else st @ [s])"

definition lexical :: "cstr \<Rightarrow> cstr list" where
  "lexical p = foldl enter [] (segs p)"

lemma norm_segs_enter: "length st + length toks \<le> 128 \<Longrightarrow> norm_segs toks st = foldl enter st toks"
proof (induction toks arbitrary: st)
  case (Cons t toks)
  have "length (enter st t) \<le> Suc (length st)" by (auto simp: enter_def)
  then show ?case using Cons.IH[of "enter st t"] Cons.prems by (auto simp: enter_def)
qed simp

lemma norm_segs_sub: "s \<in> set (norm_segs toks st) \<Longrightarrow> s \<in> set st \<or> s \<in> set toks \<and> s \<noteq> ''.'' \<and> s \<noteq> ''..''"
proof (induction toks arbitrary: st)
  case (Cons t toks)
  consider "length st \<ge> 128" | "length st < 128" "t = ''.''" | "length st < 128" "t = ''..''"
    | "length st < 128" "t \<noteq> ''.''" "t \<noteq> ''..''" by linarith
  then show ?case
  proof cases
    case 3
    then have "s \<in> set (norm_segs toks (butlast st))" using Cons.prems by simp
    from Cons.IH[OF this] show ?thesis using in_set_butlastD[of s st] by auto
  next
    case 4
    then have "s \<in> set (norm_segs toks (st @ [t]))" using Cons.prems by simp
    from Cons.IH[OF this] show ?thesis using 4 by auto
  qed (use Cons.prems Cons.IH[of st] in auto)
qed simp

definition joined :: "cstr list \<Rightarrow> nat" where
  "joined ss = length (concat (map (\<lambda>s. CHR ''/'' # s) ss))"

lemma joined_simps [simp]: "joined [] = 0" "joined (s # ss) = Suc (length s) + joined ss" "joined (ss @ ts) = joined ss + joined ts"
  by (simp_all add: joined_def)

lemma joined_butlast: "joined (butlast ss) \<le> joined ss"
  by (cases ss rule: rev_cases) simp_all

lemma norm_segs_length: "joined (norm_segs toks st) \<le> joined st + joined toks"
proof (induction toks arbitrary: st)
  case (Cons tok toks)
  show ?case
    using Cons.IH[of st] Cons.IH[of "butlast st"] Cons.IH[of "st @ [tok]"] joined_butlast[of st] by simp
qed simp

lemma norm_segs_many: "length (norm_segs toks st) \<le> max 128 (length st)"
proof (induction toks arbitrary: st)
  case (Cons tok toks)
  have "length st < 128 \<Longrightarrow> length (norm_segs toks (st @ [tok])) \<le> 128"
    "length st < 128 \<Longrightarrow> length (norm_segs toks st) \<le> 128"
    "length st < 128 \<Longrightarrow> length (norm_segs toks (butlast st)) \<le> 128"
    using Cons.IH[of st] Cons.IH[of "butlast st"] Cons.IH[of "st @ [tok]"] by simp_all
  then show ?case by (cases "length st < 128") simp_all
qed simp

lemma segs_length: "joined (segs p) \<le> length p + (if p \<noteq> [] \<and> hd p = CHR ''/'' then 0 else 1)"
proof (induction "length p" arbitrary: p rule: less_induct)
  case less
  consider "p = []" | p' where "p = CHR ''/'' # p'" | "p \<noteq> []" "hd p \<noteq> CHR ''/''" by (cases p) auto
  then show ?case
  proof cases
    case (2 p')
    then show ?thesis using less[of p'] by (simp split: if_splits)
  next
    case 3
    let ?P = "\<lambda>x. x \<noteq> CHR ''/''"
    let ?r = "dropWhile ?P p"
    have l: "length p = length (takeWhile ?P p) + length ?r" by (metis length_append takeWhile_dropWhile_id)
    have "takeWhile ?P p \<noteq> []" using 3 by (cases p) auto
    then have "length ?r < length p" using l by simp
    from less[OF this] have IH: "joined (segs ?r) \<le> length ?r + (if ?r \<noteq> [] \<and> hd ?r = CHR ''/'' then 0 else 1)" .
    have "joined (segs ?r) \<le> length ?r"
    proof (cases "?r = []")
      case False
      then have "hd ?r = CHR ''/''" using hd_dropWhile[of ?P p] by blast
      with IH False show ?thesis by (simp only: simp_thms if_True)
    qed (simp only: segs_simps joined_simps)
    moreover have "joined (segs p) = Suc (length (takeWhile ?P p)) + joined (segs ?r)"
      unfolding segs_def by (subst strtok_all_word[OF 3]) simp
    ultimately show ?thesis using l 3 by simp
  qed simp
qed

text \<open>C37: \<^verbatim>\<open>normalize_path\<close>. The result is an absolute path with no empty, dot or dot-dot name; resolving it again
  changes nothing; for an absolute path it is never longer than the input, so it is safe to write it back in place;
  and with at most 128 names it is exactly the lexical resolution of the input.\<close>

theorem normalize_path_canonical:
  "hd (normalize_path p) = CHR ''/'' \<and>
   set (segs (normalize_path p)) \<inter> {[], ''.'', ''..''} = {} \<and>
   normalize_path (normalize_path p) = normalize_path p \<and>
   (p \<noteq> [] \<and> hd p = CHR ''/'' \<longrightarrow> length (normalize_path p) \<le> length p) \<and>
   (length (segs p) \<le> 128 \<longrightarrow> normalize_path p = join_segs (lexical p))"
proof -
  let ?n = "norm_segs (segs p) []"
  have words: "s \<noteq> [] \<and> CHR ''/'' \<notin> set s \<and> s \<noteq> ''.'' \<and> s \<noteq> ''..''" if "s \<in> set ?n" for s
    using norm_segs_sub[OF that] segs_words[of s p] by auto
  then have "segs (concat (map (\<lambda>s. CHR ''/'' # s) ?n)) = ?n" using segs_join[of ?n] by blast
  then have segs_n: "segs (normalize_path p) = ?n"
    unfolding normalize_path_def segs_def[symmetric, of p] join_segs_def by simp
  have "foldl enter st ss = st @ ss" if "set ss \<inter> {''.'', ''..''} = {}" for st ss
    using that by (induction ss arbitrary: st) (auto simp: enter_def)
  moreover have "set ?n \<inter> {''.'', ''..''} = {}" "length ?n \<le> 128" using words norm_segs_many[of "segs p" "[]"] by auto
  ultimately have again: "norm_segs ?n [] = ?n" using norm_segs_enter[of "[]" ?n] by simp
  have "normalize_path q = join_segs (norm_segs (segs q) [])" for q by (simp add: normalize_path_def segs_def)
  from this[of "normalize_path p"] have "normalize_path (normalize_path p) = join_segs ?n"
    unfolding segs_n by (subst (asm) again)
  then have idem: "normalize_path (normalize_path p) = normalize_path p"
    unfolding normalize_path_def[of p] segs_def[symmetric, of p] .
  have "hd (join_segs ss) = CHR ''/''" for ss by (cases ss) (simp_all add: join_segs_def)
  then have slash: "hd (normalize_path p) = CHR ''/''" by (simp add: normalize_path_def)
  have len: "length (join_segs ss) = max 1 (joined ss)" for ss by (cases ss) (simp_all add: join_segs_def joined_def)
  have "joined ?n \<le> joined (segs p)" using norm_segs_length[of "segs p" "[]"] by simp
  then have "length (normalize_path p) \<le> length p" if "p \<noteq> []" "hd p = CHR ''/''"
    using that segs_length[of p] by (cases p) (simp_all add: normalize_path_def len segs_def)
  moreover have "normalize_path p = join_segs (lexical p)" if "length (segs p) \<le> 128"
    using that norm_segs_enter[of "[]" "segs p"] by (simp add: normalize_path_def lexical_def segs_def)
  moreover have "set (segs (normalize_path p)) \<inter> {[], ''.'', ''..''} = {}" using words segs_n by auto
  ultimately show ?thesis using slash idem by blast
qed

definition demo_path :: cstr where "demo_path = ''/etc/../run//systemd/./x''"

theorem normalize_path_canonical_witness:
  "length (normalize_path demo_path) \<le> 24 \<and> normalize_path demo_path = join_segs (lexical demo_path) \<and>
   join_segs (lexical demo_path) = ''/run/systemd/x''"
proof -
  have "demo_path \<noteq> []" "hd demo_path = CHR ''/''" "length demo_path \<le> 24" "length (segs demo_path) \<le> 128"
    "join_segs (lexical demo_path) = ''/run/systemd/x''" by code_simp+
  then show ?thesis using normalize_path_canonical[of demo_path] by (meson le_trans)
qed

end
