(* ===== verification/Mount_Claims.thy ===== *)
theory Mount_Claims
  imports Jail_Mounts Path_Claims
begin

text \<open>
  What the mounts of a cell amount to. \<open>mtab\<close> replays a log of calls into a mount table, newest first: a successful
  mount is put on top, a successful remount sets the read-only flag of the topmost mount of that point, as mount(2)
  documents. A recursive bind is one entry with \<open>m_rec\<close>: the mounts below its source come along with the flags they
  have on the host, and a remount does not reach them. \<open>seen\<close> is the mount a path resolves to: the newest one at or above it.
\<close>

record mnt =
  m_src :: "cstr option"
  m_dst :: cstr
  m_fs :: "cstr option"
  m_ro :: bool
  m_rec :: bool

fun mark_top :: "cstr \<Rightarrow> bool \<Rightarrow> mnt list \<Rightarrow> mnt list" where
  "mark_top d ro [] = []"
| "mark_top d ro (m # ms) = (if m_dst m = d then m\<lparr>m_ro := ro\<rparr> # ms else m # mark_top d ro ms)"

fun mtab_step :: "mnt list \<Rightarrow> call \<times> int \<Rightarrow> mnt list" where
  "mtab_step ms (Mount src dst fs fl opts, r) =
     (if r < 0 \<or> MS_PRIVATE \<in> set fl then ms
      else if MS_REMOUNT \<in> set fl then mark_top dst (MS_RDONLY \<in> set fl) ms
      else \<lparr>m_src = src, m_dst = dst, m_fs = fs, m_ro = MS_RDONLY \<in> set fl, m_rec = MS_REC \<in> set fl\<rparr> # ms)"
| "mtab_step ms (c, r) = ms"

definition mtab :: "log \<Rightarrow> mnt list" where
  "mtab l = foldl mtab_step [] l"

definition seen :: "mnt list \<Rightarrow> cstr \<Rightarrow> mnt option" where
  "seen ms p = List.find (\<lambda>m. beneath (m_dst m) p) ms"

fun not_mount :: "call \<Rightarrow> bool" where
  "not_mount (Mount src dst fs fl opts) = False"
| "not_mount c = True"

lemma mtab_step_other [simp]: "not_mount c \<Longrightarrow> mtab_step ms (c, r) = ms"
  by (cases c) auto

subsection \<open>Which host directories a cell can write\<close>

text \<open>The binds of host files that are not made read-only, each with its source, its place and whether it is recursive: those the
  options ask for (the workspace, the \<^verbatim>\<open>--rw\<close> directories and the \<^verbatim>\<open>--bind\<close> mounts), the five device nodes, and
  \<^verbatim>\<open>/run/systemd\<close> with the network of the host.\<close>

definition requested_binds :: "cstr \<Rightarrow> cfg \<Rightarrow> (cstr \<times> cstr \<times> bool) list" where
  "requested_binds nr C =
     (if workdir_size C > 0 then [] else [(workdir C, NR nr ''/home/agent'', False)]) @
     map (\<lambda>d. (d, mnt_dst nr d, True)) (rw_dirs C) @
     map (\<lambda>b. (b_src b, NR nr (b_dst b), True)) (List.filter (\<lambda>b. \<not> b_ro b) (binds C))"

definition device_binds :: "cstr \<Rightarrow> (cstr \<times> cstr \<times> bool) list" where
  "device_binds nr = map (\<lambda>d. (''/dev/'' @ d, dev_dst nr d, False)) devs"

definition systemd_bind :: "cstr \<Rightarrow> cfg \<Rightarrow> (cstr \<times> cstr \<times> bool) list" where
  "systemd_bind nr C = (if netmode C = NET_HOST then [(''/run/systemd'', NR nr ''/run/systemd'', True)] else [])"

abbreviation writable_binds :: "cstr \<Rightarrow> cfg \<Rightarrow> (cstr \<times> cstr \<times> bool) list" where
  "writable_binds nr C \<equiv> requested_binds nr C @ device_binds nr @ systemd_bind nr C"

lemmas writable_binds_def = requested_binds_def device_binds_def systemd_bind_def

definition accounted :: "cstr \<Rightarrow> cfg \<Rightarrow> log \<Rightarrow> mnt \<Rightarrow> bool" where
  "accounted nr C l m \<longleftrightarrow>
     m_fs m \<noteq> None \<or> m_ro m \<or>
     (\<exists>s. m_src m = Some s \<and> (s, m_dst m, m_rec m) \<in> set (writable_binds nr C)) \<or>
     (netmode C = NET_VETH \<and> m_src m = Some RESOLV_UP \<and> \<not> m_rec m) \<or>
     (\<exists>fl r. (Mount None (m_dst m) None fl None, r) \<in> set l \<and> MS_REMOUNT \<in> set fl \<and> MS_RDONLY \<in> set fl \<and> r < 0)"

text \<open>The shape of the calls: anything but a mount, a new file system, a declared bind, or a bind whose next call
  is the read-only remount.\<close>

definition chunk :: "cstr \<Rightarrow> cfg \<Rightarrow> log \<Rightarrow> bool" where
  "chunk nr C l \<longleftrightarrow>
     (\<exists>c r. l = [(c, r)] \<and> not_mount c) \<or>
     (\<exists>r. l = [(Mount None ''/'' None [MS_REC, MS_PRIVATE] None, r)]) \<or>
     (\<exists>src dst fs fl opts r. l = [(Mount src dst (Some fs) fl opts, r)] \<and> MS_REMOUNT \<notin> set fl \<and> MS_PRIVATE \<notin> set fl) \<or>
     (\<exists>src dst fl r. l = [(Mount (Some src) dst None fl None, r)] \<and> MS_REMOUNT \<notin> set fl \<and> MS_PRIVATE \<notin> set fl \<and>
        (r < 0 \<or> (src, dst, MS_REC \<in> set fl) \<in> set (writable_binds nr C) \<or> (netmode C = NET_VETH \<and> src = RESOLV_UP \<and> MS_REC \<notin> set fl))) \<or>
     (\<exists>src dst fl fl' r r'. l = [(Mount (Some src) dst None fl None, r), (Mount None dst None fl' None, r')] \<and>
        MS_REMOUNT \<notin> set fl \<and> MS_PRIVATE \<notin> set fl \<and> MS_REMOUNT \<in> set fl' \<and> MS_RDONLY \<in> set fl' \<and> MS_PRIVATE \<notin> set fl')"

lemma chunk_other: "not_mount c \<Longrightarrow> chunk nr C [(c, r)]"
  by (simp add: chunk_def)

lemma chunk_fs: "MS_REMOUNT \<notin> set fl \<Longrightarrow> MS_PRIVATE \<notin> set fl \<Longrightarrow> chunk nr C [(Mount src dst (Some fs) fl opts, r)]"
  by (simp add: chunk_def)

lemma chunk_bind:
  "(src, dst, MS_REC \<in> set fl) \<in> set (writable_binds nr C) \<or> (netmode C = NET_VETH \<and> src = RESOLV_UP \<and> MS_REC \<notin> set fl) \<Longrightarrow>
   MS_REMOUNT \<notin> set fl \<Longrightarrow> MS_PRIVATE \<notin> set fl \<Longrightarrow> chunk nr C [(Mount (Some src) dst None fl None, r)]"
  unfolding chunk_def by blast

lemma accounted_mono: "accounted nr C l m \<Longrightarrow> set l \<subseteq> set l' \<Longrightarrow> accounted nr C l' m"
  unfolding accounted_def by blast

lemma mark_top_accounted: "list_all (accounted nr C l) ms \<Longrightarrow> list_all (accounted nr C l) (mark_top d True ms)"
proof (induction ms)
  case (Cons m ms)
  have "accounted nr C l (m\<lparr>m_ro := True\<rparr>)" by (simp add: accounted_def)
  then show ?case using Cons by simp
qed simp

lemma chunk_accounted:
  assumes "chunk nr C c" "set c \<subseteq> set l" "list_all (accounted nr C l) ms"
  shows "list_all (accounted nr C l) (foldl mtab_step ms c)"
  using assms(1)
proof (unfold chunk_def, elim disjE exE conjE, goal_cases)
  case (7 src dst fl fl' r r')
  show ?case
  proof (cases "r < 0 \<or> r' \<ge> 0")
    case True
    then show ?thesis using 7 assms(3) mark_top_accounted[OF assms(3), of dst] by (auto simp: accounted_def)
  next
    case False
    then have "(Mount None dst None fl' None, r') \<in> set l" "r' < 0" using 7 assms(2) by auto
    then show ?thesis using 7 False assms(3) by (auto simp: accounted_def)
  qed
qed (use assms(3) in \<open>auto simp: accounted_def\<close>)

lemma chunks_accounted:
  assumes "list_all (chunk nr C) cs"
  shows "list_all (accounted nr C (concat cs)) (mtab (concat cs))"
proof -
  have "list_all (accounted nr C l) ms \<Longrightarrow> set (concat cs) \<subseteq> set l \<Longrightarrow>
      list_all (accounted nr C l) (foldl mtab_step ms (concat cs))" for l ms
    using assms
  proof (induction cs arbitrary: ms)
    case (Cons c cs)
    have "list_all (accounted nr C l) (foldl mtab_step ms c)" using Cons.prems by (intro chunk_accounted) auto
    then show ?case using Cons.IH Cons.prems by simp
  qed simp
  from this[of "concat cs" "[]"] show ?thesis by (simp add: mtab_def)
qed

lemma emits_bind_mount_ro [acts]: "emits (chunk nr C) (bind_mount K src dst True rec)"
proof (rule emitsI)
  fix w :: "'a world"
  let ?b = "Mount (Some src) dst None (MS_BIND # (if rec then [MS_REC] else [])) None"
  let ?m = "Mount None dst None ([MS_BIND, MS_REMOUNT, MS_RDONLY] @ (if rec then [MS_REC] else [])) None"
  obtain r h where b: "k_call K ?b (snd w) = (r, h)" by (rule prod.exhaust)
  obtain r' h' where m: "k_call K ?m h = (r', h')" by (rule prod.exhaust)
  let ?c = "if r < 0 then [(?b, r)] else [(?b, r), (?m, r')]"
  have "fst (snd (bind_mount K src dst True rec w)) = fst w @ ?c"
    using b m by (simp add: bind_mount_def must_def attempt_def do_call_def)
  moreover have "chunk nr C ?c" by (auto simp: chunk_def)
  ultimately have "fst (snd (bind_mount K src dst True rec w)) = fst w @ concat [?c] \<and> list_all (chunk nr C) [?c]" by simp
  then show "\<exists>cs. fst (snd (bind_mount K src dst True rec w)) = fst w @ concat cs \<and> list_all (chunk nr C) cs" by blast
qed

lemma emits_bind_mount_rw [acts]:
  "(src, dst, rec) \<in> set (writable_binds nr C) \<or> (netmode C = NET_VETH \<and> src = RESOLV_UP \<and> \<not> rec) \<Longrightarrow>
   emits (chunk nr C) (bind_mount K src dst False rec)"
  unfolding bind_mount_def by (intro emits_run_acts) (cases rec; simp add: chunk_bind emits_must)

lemma emits_tmpfs [acts]: "emits (chunk nr C) (tmpfs_mount K dst opts)"
  unfolding tmpfs_mount_def by (intro emits_must chunk_fs) simp_all

lemma emits_dirs [acts]: "emits (chunk nr C) (mmkdir K p m)" "emits (chunk nr C) (mmkdir_p K p m)"
  by (simp_all add: emits_mmkdir emits_mmkdir_p chunk_other)

lemma mirror_top_cases:
  obtains (bind) "mirror_top K nr C p w = run_acts [mmkdir K (NR nr p) m0755, bind_mount K (os_src PATH_MAX C p) (NR nr p) True True] w"
  | (none) "mirror_top K nr C p w = (None, w)"
  | (link) t where "mirror_top K nr C p w = must_exist K (Symlink t (NR nr p)) p w"
proof (cases "k_lstat K (snd w) (os_src PATH_MAX C p)")
  case None
  then show thesis using none by (simp add: mirror_top_def)
next
  case (Some t)
  show thesis
  proof (cases t)
    case FOther
    then show thesis using Some bind by (simp add: mirror_top_def Let_def del: run_acts.simps)
  next
    case FLink
    show thesis
    proof (cases "k_readlink K (snd w) (os_src PATH_MAX C p) \<in> {None, Some []}")
      case True
      then show thesis using Some FLink none by (auto simp: mirror_top_def Let_def)
    next
      case False
      then show thesis using Some FLink link by (auto simp: mirror_top_def Let_def)
    qed
  qed
qed

lemma emits_mirror_top_gen:
  assumes "\<And>s x. emits Q (run_acts [mmkdir K x m0755, bind_mount K s x True True])" "\<And>t p r. Q [(Symlink t p, r)]"
  shows "emits Q (mirror_top K nr C p)"
proof (rule emits_look)
  fix w :: "'a world"
  show "\<exists>a. emits Q a \<and> mirror_top K nr C p w = a w"
  proof (cases rule: mirror_top_cases[of K nr C p w])
    case bind
    then show ?thesis using assms(1) by blast
  next
    case none
    then show ?thesis by (intro exI[of _ "\<lambda>w. (None, w)"]) (simp add: emits_nothing)
  next
    case (link t)
    have "emits Q (must_exist K (Symlink t (NR nr p)) p)" by (rule emits_must_exist) (rule assms(2))
    with link show ?thesis by blast
  qed
qed

lemma emits_bind_os_ro_gen:
  assumes "\<And>s x. emits Q (run_acts [mmkdir K x m0755, bind_mount K s x True True])"
  shows "emits Q (bind_os_ro K nr C p b)"
proof (rule emits_look)
  fix w :: "'a world"
  let ?s = "os_src PATH_MAX C p"
  show "\<exists>a. emits Q a \<and> bind_os_ro K nr C p b w = a w"
  proof (cases "k_lstat K (snd w) ?s")
    case None
    then show ?thesis
      by (intro exI[of _ "\<lambda>w. (if b then Some ?s else None, w)"]) (simp add: bind_os_ro_def Let_def emits_nothing)
  next
    case (Some t)
    then show ?thesis
      by (intro exI[of _ "run_acts [mmkdir K (NR nr p) m0755, bind_mount K ?s (NR nr p) True True]"])
        (simp add: bind_os_ro_def Let_def assms del: run_acts.simps)
  qed
qed

lemma emits_mount_resolv_gen:
  assumes "\<And>x y. emits Q (run_acts [mmkdir_p K x m0755, attempt K (OpenCreate y m0644), bind_mount K RESOLV_UP y False False])"
  shows "emits Q (mount_resolv K nr)"
proof (rule emits_look)
  fix w :: "'a world"
  let ?d = "snprintf_s PATH_MAX (nr @ resolv_target (k_readlink K (snd w) ''/etc/resolv.conf''))"
  let ?a = "if k_stat K (snd w) RESOLV_UP then
      run_acts [mmkdir_p K (dirname_of ?d) m0755, attempt K (OpenCreate ?d m0644), bind_mount K RESOLV_UP ?d False False]
    else (\<lambda>w. (None, w))"
  have "emits Q ?a" by (simp add: emits_nothing assms del: run_acts.simps)
  moreover have "mount_resolv K nr w = ?a w" by (simp add: mount_resolv_def Let_def del: run_acts.simps)
  ultimately show "\<exists>a. emits Q a \<and> mount_resolv K nr w = a w" by blast
qed

lemma emits_chunk_pair: "emits (chunk nr C) (run_acts [mmkdir K x m0755, bind_mount K s x True True])"
  by (rule emits_run_acts) (simp add: emits_dirs emits_bind_mount_ro)

lemma emits_mirror_top [acts]: "emits (chunk nr C) (mirror_top K nr' C' path)"
  by (rule emits_mirror_top_gen[OF emits_chunk_pair]) (simp add: chunk_other)

lemma emits_bind_os_ro [acts]: "emits (chunk nr C) (bind_os_ro K nr' C' path req)"
  by (rule emits_bind_os_ro_gen[OF emits_chunk_pair])

lemma emits_mount_resolv [acts]: "netmode C = NET_VETH \<Longrightarrow> emits (chunk nr C) (mount_resolv K nr')"
  by (intro emits_mount_resolv_gen emits_run_acts)
    (simp add: emits_dirs emits_bind_mount_rw emits_attempt chunk_other)

lemma emits_bind_dev_gen:
  assumes "\<And>p m r. Q [(OpenCreate p m, r)]" "\<And>p r. Q [(Unlink p, r)]"
    "\<And>r. Q [(Mount (Some (snprintf_s 64 (''/dev/'' @ d))) (dev_dst nr d) None [MS_BIND] None, r)]"
  shows "emits Q (bind_dev K nr d)"
proof (rule emitsI)
  fix w :: "'a world"
  let ?b = "Mount (Some (snprintf_s 64 (''/dev/'' @ d))) (dev_dst nr d) None [MS_BIND] None"
  let ?o = "OpenCreate (dev_dst nr d) m0666" and ?u = "Unlink (dev_dst nr d)"
  obtain r1 h1 where o: "k_call K ?o (snd w) = (r1, h1)" by (rule prod.exhaust)
  obtain r2 h2 where b: "k_call K ?b h1 = (r2, h2)" by (rule prod.exhaust)
  obtain r3 h3 where u: "k_call K ?u h2 = (r3, h3)" by (rule prod.exhaust)
  let ?cs = "[[(?o, r1)], [(?b, r2)]] @ (if r2 < 0 then [[(?u, r3)]] else [])"
  have "fst (snd (bind_dev K nr d w)) = fst w @ concat ?cs"
    using o b u by (simp add: bind_dev_def do_call_def Let_def)
  moreover have "list_all Q ?cs" using assms by simp
  ultimately show "\<exists>cs. fst (snd (bind_dev K nr d w)) = fst w @ concat cs \<and> list_all Q cs" by blast
qed

lemma emits_bind_dev [acts]: "d \<in> set devs \<Longrightarrow> emits (chunk nr C) (bind_dev K nr d)"
proof (rule emits_bind_dev_gen)
  fix r
  assume "d \<in> set devs"
  moreover from this have "length d \<le> 7" by (auto simp: devs_def)
  then have "snprintf_s 64 (''/dev/'' @ d) = ''/dev/'' @ d" by (simp add: snprintf_s_def)
  ultimately have "(snprintf_s 64 (''/dev/'' @ d), dev_dst nr d, False) \<in> set (writable_binds nr C)"
    by (simp add: writable_binds_def)
  then show "chunk nr C [(Mount (Some (snprintf_s 64 (''/dev/'' @ d))) (dev_dst nr d) None [MS_BIND] None, r)]"
    by (simp add: chunk_bind)
qed (simp_all add: chunk_other)

lemma emits_concat_map: "(\<And>x. x \<in> set xs \<Longrightarrow> list_all (emits Q) (f x)) \<Longrightarrow> list_all (emits Q) (concat (map f xs))"
  by (auto simp: list_all_iff)

lemma emits_mount_os: "list_all (emits (chunk nr C)) (mount_os K nr C)"
  by (simp add: mount_os_def emits_bind_os_ro emits_mirror_top)

lemma emits_mount_workspace: "list_all (emits (chunk nr C)) (mount_workspace K nr C)"
  by (auto simp: mount_workspace_def Let_def writable_binds_def intro!: emits_dirs emits_tmpfs emits_bind_mount_rw)

lemma emits_mount_extra: "list_all (emits (chunk nr C)) (mount_extra K nr C)"
proof -
  have "emits (chunk nr C) (bind_mount K d (mnt_dst nr d) False True)" if "d \<in> set (rw_dirs C)" for d
    using that by (intro emits_bind_mount_rw) (simp add: writable_binds_def)
  moreover have "emits (chunk nr C) (bind_mount K (b_src b) (NR nr (b_dst b)) (b_ro b) True)" if "b \<in> set (binds C)" for b
    using that by (cases "b_ro b") (auto intro!: emits_bind_mount_ro emits_bind_mount_rw simp: writable_binds_def)
  ultimately show ?thesis
    by (simp add: mount_extra_def emits_concat_map emits_dirs emits_bind_mount_ro)
qed

lemma emits_rest:
  "list_all (emits (chunk nr C)) (mount_root K nr')" "list_all (emits (chunk nr C)) (mount_tmp K nr')"
  "list_all (emits (chunk nr C)) (mount_overlay K nr' i d)" "list_all (emits (chunk nr C)) (mount_scratch K nr')"
  "list_all (emits (chunk nr C)) (place_secret K nr' s)" "list_all (emits (chunk nr C)) (mount_kernfs K nr')"
  "list_all (emits (chunk nr C)) (mount_dev K nr)"
  "netmode C = NET_HOST \<Longrightarrow> list_all (emits (chunk nr C)) (mount_host_net K nr)"
proof -
  show "list_all (emits (chunk nr C)) (mount_root K nr')"
    by (auto simp: mount_root_def chunk_def intro!: emits_must)
  show "netmode C = NET_HOST \<Longrightarrow> list_all (emits (chunk nr C)) (mount_host_net K nr)"
    by (auto simp: mount_host_net_def chunk_def writable_binds_def intro!: emits_attempt emits_dirs)
  show "list_all (emits (chunk nr C)) (mount_dev K nr)"
    by (auto simp: mount_dev_def list_all_iff intro!: emits_dirs emits_tmpfs emits_bind_dev emits_must_exist chunk_other)
qed (auto simp: mount_tmp_def mount_overlay_def mount_scratch_def place_secret_def mount_kernfs_def Let_def chunk_fs chunk_other
  intro!: emits_dirs emits_tmpfs emits_must emits_attempt)

lemma emits_mounts_after_tmp: "list_all (emits (chunk nr C)) (mounts_after_tmp K nr C)"
proof -
  have "list_all (emits (chunk nr C)) (concat (map (\<lambda>(i, d). mount_overlay K nr i d) (enumerate 0 (ov_dirs C))))"
    "list_all (emits (chunk nr C)) (concat (map (place_secret K nr) (secrets C)))"
    by (intro emits_concat_map; simp add: emits_rest split: prod.split)+
  then show ?thesis by (simp add: mounts_after_tmp_def emits_rest emits_mount_resolv emits_dirs)
qed

lemma emits_do_mounts: "emits (chunk nr C) (do_mounts K nr C)"
  unfolding do_mounts_def mounts_before_tmp_def
  by (intro emits_run_acts) (simp add: emits_mount_os emits_mount_workspace emits_mount_extra emits_rest emits_mounts_after_tmp)

text \<open>C4: the host files a cell can write. Whatever the kernel answers, every mount that \<^verbatim>\<open>do_mounts\<close> itself leaves is a new file
  system, or a bind that is read-only, or a bind the options ask to be writable (the workspace, not recursive; \<^verbatim>\<open>--rw\<close> and
  \<^verbatim>\<open>--bind\<close>, recursive), or one of the five device nodes, or \<^verbatim>\<open>/run/systemd\<close> with the network of the host, or the
  resolver file of veth mode, or a bind whose read-only remount the kernel refused (which \<^verbatim>\<open>bind_mount\<close> only reports). The
  mounts that lie below the source of a recursive bind come along as they are on the host, also below a read-only one.\<close>

theorem host_binds_accounted:
  "list_all (accounted nr C (fst (snd (do_mounts K nr C ([], h))))) (mtab (fst (snd (do_mounts K nr C ([], h)))))"
proof -
  obtain cs where "fst (snd (do_mounts K nr C ([], h))) = concat cs" "list_all (chunk nr C) cs"
    using emits_do_mounts[of nr C K] unfolding emits_def by (metis append_Nil fst_conv)
  then show ?thesis using chunks_accounted by simp
qed

subsection \<open>Scratch space\<close>

text \<open>Calls that leave the mount of \<open>p\<close> alone, and no secret.\<close>

fun away :: "cstr \<Rightarrow> call \<Rightarrow> bool" where
  "away p (Mount src dst fs fl opts) \<longleftrightarrow> \<not> beneath dst p"
| "away p c \<longleftrightarrow> True"

fun no_secret :: "call \<Rightarrow> bool" where
  "no_secret (WriteSecret p d) = False"
| "no_secret c = True"

definition calls :: "(call \<Rightarrow> bool) \<Rightarrow> log \<Rightarrow> bool" where
  "calls P l = list_all (P \<circ> fst) l"

lemma calls_simps [simp]: "calls P []" "calls P ((c, r) # l) = (P c \<and> calls P l)" "calls P (l @ l') = (calls P l \<and> calls P l')"
  by (auto simp: calls_def)

lemma calls_concat: "list_all (calls P) cs \<Longrightarrow> calls P (concat cs)"
  by (induction cs) auto

lemma away_not_mount: "not_mount c \<Longrightarrow> away p c"
  by (cases c) auto

lemma find_mark_top:
  "\<not> beneath d p \<Longrightarrow> List.find (\<lambda>m. beneath (m_dst m) p) (mark_top d ro ms) = List.find (\<lambda>m. beneath (m_dst m) p) ms"
  by (induction ms) auto

lemma seen_away: "calls (away p) l \<Longrightarrow> seen (foldl mtab_step ms l) p = seen ms p"
proof (induction l arbitrary: ms)
  case (Cons e l)
  obtain c r where e: "e = (c, r)" by (rule prod.exhaust)
  have "seen (mtab_step ms (c, r)) p = seen ms p"
    using Cons.prems e by (cases c) (auto simp: seen_def find_mark_top)
  then show ?case using Cons e by simp
qed simp

lemma not_beneath: "segs d = a @ x # r \<Longrightarrow> segs p = a @ y # r' \<Longrightarrow> x \<noteq> y \<Longrightarrow> \<not> beneath d p"
  by (auto simp: beneath_def)

text \<open>\<open>nr\<close> is short: it is the 26 characters of \<^verbatim>\<open>/tmp/agentcell-root.XXXXXX\<close>.\<close>

lemma segs_NR: "length nr + length x \<le> 100 \<Longrightarrow> segs (NR nr (CHR ''/'' # x)) = segs nr @ segs x"
  by (simp add: NR_def snprintf_s_def PATH_MAX_def)

lemma segs_below:
  "segs (CHR ''m'' # CHR ''n'' # CHR ''t'' # CHR ''/'' # x) = ''mnt'' # segs x"
  "segs (CHR ''d'' # CHR ''e'' # CHR ''v'' # CHR ''/'' # x) = ''dev'' # segs x"
  using segs_simps(3)[of "''mnt''" x] segs_simps(3)[of "''dev''" x] segs_word[of "''mnt''"] segs_word[of "''dev''"] by simp_all

lemma segs_mnt: "length nr \<le> 64 \<Longrightarrow> \<exists>r. segs (mnt_dst nr d) = segs nr @ ''mnt'' # r"
proof -
  assume "length nr \<le> 64"
  then have "mnt_dst nr d = nr @ CHR ''/'' # ''mnt'' @ CHR ''/'' # take (4090 - length nr) (basename_of d)"
    by (simp add: mnt_dst_def snprintf_s_def PATH_MAX_def take_Cons')
  then show ?thesis by (simp add: segs_below)
qed

lemma segs_dirs:
  "segs ''tmp'' = [''tmp'']" "segs ''run'' = [''run'']" "segs ''var/tmp'' = [''var'', ''tmp'']"
  "segs ''run/systemd'' = [''run'', ''systemd'']" "segs ''proc'' = [''proc'']" "segs ''sys'' = [''sys'']"
  "segs ''sys/fs/cgroup'' = [''sys'', ''fs'', ''cgroup'']" "segs ''dev'' = [''dev'']"
  unfolding segs_def by code_simp+

lemma not_beneath_NR:
  assumes "length nr \<le> 64" "length x \<le> 20" "segs x = z # zs" "segs p = segs nr @ y # r" "y \<noteq> z"
  shows "\<not> beneath (NR nr (CHR ''/'' # x)) p"
  using assms not_beneath[of "NR nr (CHR ''/'' # x)" "segs nr" z zs p y r] by (simp add: segs_NR)

lemma not_beneath_dirs:
  assumes "length nr \<le> 64" "segs p = segs nr @ y # r"
  shows "y \<noteq> ''proc'' \<Longrightarrow> \<not> beneath (NR nr ''/proc'') p" "y \<noteq> ''sys'' \<Longrightarrow> \<not> beneath (NR nr ''/sys'') p"
    "y \<noteq> ''dev'' \<Longrightarrow> \<not> beneath (NR nr ''/dev'') p" "y \<noteq> ''run'' \<Longrightarrow> \<not> beneath (NR nr ''/run'') p"
    "y \<noteq> ''run'' \<Longrightarrow> \<not> beneath (NR nr ''/run/systemd'') p" "y \<noteq> ''var'' \<Longrightarrow> \<not> beneath (NR nr ''/var/tmp'') p"
    "y \<noteq> ''tmp'' \<Longrightarrow> \<not> beneath (NR nr ''/tmp'') p"
  by (rule not_beneath_NR[OF assms(1) _ _ assms(2)]; simp add: segs_dirs)+

lemma away_fs: "\<not> beneath dst p \<Longrightarrow> emits (calls (away p)) (tmpfs_mount K dst opts)"
  unfolding tmpfs_mount_def by (rule emits_must) simp

lemma emits_calls_dirs:
  "(\<And>p m. P (Mkdir p m)) \<Longrightarrow> emits (calls P) (mmkdir K p m)" "(\<And>p m. P (Mkdir p m)) \<Longrightarrow> emits (calls P) (mmkdir_p K p m)"
  by (simp_all add: emits_mmkdir emits_mmkdir_p)

lemma away_kernfs:
  assumes "length nr \<le> 64" "segs p = segs nr @ y # r" "y \<notin> {''proc'', ''sys''}"
  shows "list_all (emits (calls (away p))) (mount_kernfs K nr)"
proof -
  have q: "segs (snprintf_s PATH_MAX (NR nr ''/sys'' @ ''/fs/cgroup'')) = segs nr @ ''sys'' # [''fs'', ''cgroup'']"
    using assms(1) segs_dirs by (simp add: NR_def snprintf_s_def PATH_MAX_def)
  have "\<not> beneath (NR nr ''/proc'') p" "\<not> beneath (NR nr ''/sys'') p"
    using assms(3) not_beneath_dirs[OF assms(1,2)] by simp_all
  moreover have "\<not> beneath (snprintf_s PATH_MAX (NR nr ''/sys'' @ ''/fs/cgroup'')) p"
    using assms(3) by (intro not_beneath[OF q assms(2)]) auto
  ultimately show ?thesis by (simp add: mount_kernfs_def Let_def emits_calls_dirs emits_attempt)
qed

lemma away_dev:
  assumes "length nr \<le> 64" "segs p = segs nr @ y # r" "y \<noteq> ''dev''"
  shows "list_all (emits (calls (away p))) (mount_dev K nr)"
proof -
  have d: "segs (dev_dst nr x) = segs nr @ ''dev'' # segs x" if "length x \<le> 7" for x
    using that assms(1) by (simp add: dev_dst_def snprintf_s_def PATH_MAX_def segs_below)
  have "\<not> beneath (NR nr ''/dev'') p" using assms(3) not_beneath_dirs[OF assms(1,2)] by simp
  moreover have "\<not> beneath (dev_dst nr x) p" if "x \<in> set devs" for x
  proof (rule not_beneath[OF d assms(2)])
    show "length x \<le> 7" using that by (auto simp: devs_def)
  qed (use assms(3) in simp)
  ultimately show ?thesis
    by (auto simp: mount_dev_def list_all_iff emits_calls_dirs away_fs away_not_mount
        intro!: emits_bind_dev_gen emits_must_exist)
qed

lemma away_overlays:
  assumes "length nr \<le> 64" "segs p = segs nr @ y # r" "y \<noteq> ''mnt''"
  shows "list_all (emits (calls (away p))) (mount_overlay K nr i d)"
proof -
  obtain q where "segs (mnt_dst nr d) = segs nr @ ''mnt'' # q" using segs_mnt[OF assms(1)] by blast
  from not_beneath[OF this assms(2)] have "\<not> beneath (mnt_dst nr d) p" using assms(3) by blast
  then show ?thesis by (simp add: mount_overlay_def Let_def emits_calls_dirs emits_must)
qed

definition ram :: "cstr \<Rightarrow> mnt" where
  "ram d = \<lparr>m_src = Some ''tmpfs'', m_dst = d, m_fs = Some ''tmpfs'', m_ro = False, m_rec = False\<rparr>"

lemma emits_calls_log: "emits (calls P) a \<Longrightarrow> a w = (m, w') \<Longrightarrow> \<exists>l. fst w' = fst w @ l \<and> calls P l"
  using emits_log[of "calls P" a w m w'] calls_concat by blast

lemma ram_stays:
  assumes "run_acts (xs @ tmpfs_mount K d opts # ys) w = (None, w')" "list_all (emits (calls (away p))) ys" "beneath d p"
  shows "seen (mtab (fst w')) p = Some (ram d)"
proof -
  obtain v where "run_acts (tmpfs_mount K d opts # ys) v = (None, w')" using assms(1) by (rule run_acts_split)
  then obtain u where u: "tmpfs_mount K d opts v = (None, u)" "run_acts ys u = (None, w')"
    by (auto split: prod.splits option.splits)
  then obtain r where "r \<ge> 0" "fst u = fst v @ [(Mount (Some ''tmpfs'') d (Some ''tmpfs'') [MS_NOSUID, MS_NODEV] (Some opts), r)]"
    using must_ok unfolding tmpfs_mount_def by blast
  then have "mtab (fst u) = ram d # mtab (fst v)" by (simp add: mtab_def ram_def)
  then have "seen (mtab (fst u)) p = Some (ram d)" using assms(3) by (simp add: seen_def ram_def)
  moreover obtain l where "fst w' = fst u @ l" "calls (away p) l"
    using emits_calls_log[OF emits_run_acts[OF assms(2)] u(2)] by blast
  ultimately show ?thesis using seen_away[of p l "mtab (fst u)"] by (simp add: mtab_def)
qed

definition overlays :: "'h kern \<Rightarrow> cstr \<Rightarrow> cfg \<Rightarrow> 'h act list" where
  "overlays K nr C = concat (map (\<lambda>(i, d). mount_overlay K nr i d) (enumerate 0 (ov_dirs C)))"

lemma away_overlays_all:
  "length nr \<le> 64 \<Longrightarrow> segs p = segs nr @ y # r \<Longrightarrow> y \<noteq> ''mnt'' \<Longrightarrow> list_all (emits (calls (away p))) (overlays K nr C)"
  unfolding overlays_def by (rule emits_concat_map) (auto simp: away_overlays)

lemma away_scratch:
  "length nr \<le> 64 \<Longrightarrow> segs p = segs nr @ y # r \<Longrightarrow> y \<notin> {''var'', ''run''} \<Longrightarrow> list_all (emits (calls (away p))) (mount_scratch K nr)"
  using not_beneath_dirs[of nr p y r] by (simp add: mount_scratch_def emits_calls_dirs away_fs)

lemma away_secrets: "list_all (emits (calls (away p))) (concat (map (place_secret K nr) ss))"
  by (rule emits_concat_map) (auto simp: place_secret_def Let_def emits_calls_dirs emits_attempt)

lemma away_after_tmp:
  assumes "length nr \<le> 64" "segs p = segs nr @ ''tmp'' # r" "netmode C \<noteq> NET_VETH"
  shows "list_all (emits (calls (away p))) (mounts_after_tmp K nr C)"
proof -
  have "list_all (emits (calls (away p))) (mount_host_net K nr)"
    using not_beneath_dirs[OF assms(1,2)] by (simp add: mount_host_net_def emits_calls_dirs emits_attempt)
  then show ?thesis
    unfolding mounts_after_tmp_def overlays_def[symmetric]
    using assms by (simp add: away_overlays_all away_scratch away_secrets away_kernfs away_dev emits_calls_dirs)
qed

text \<open>\<^verbatim>\<open>/tmp\<close> is always fresh memory. When \<^verbatim>\<open>do_mounts\<close> succeeds (without the veth resolver file), everything at or
  below \<^verbatim>\<open>/tmp\<close> of the cell belongs to the new tmpfs, whatever the options mount: a \<^verbatim>\<open>--bind\<close> whose destination
  lies below \<^verbatim>\<open>/tmp\<close> was mounted before the tmpfs and is hidden by it.\<close>

theorem tmp_hides_binds:
  assumes "do_mounts K nr C ([], h) = (None, (l, h'))" "netmode C \<noteq> NET_VETH" "length nr \<le> 64"
  shows "seen (mtab l) (nr @ ''/tmp/'' @ x) = Some (ram (NR nr ''/tmp''))"
proof -
  have p: "segs (nr @ ''/tmp/'' @ x) = segs nr @ ''tmp'' # segs x"
    using segs_simps(3)[of "''tmp''" x] segs_dirs(1) by simp
  then have "beneath (NR nr ''/tmp'') (nr @ ''/tmp/'' @ x)"
    using assms(3) by (simp add: beneath_def segs_NR segs_dirs)
  with away_after_tmp[OF assms(3) p assms(2)] show ?thesis
    using assms(1) ram_stays[of "mounts_before_tmp K nr C @ [mmkdir K (NR nr ''/tmp'') m1777]" K "NR nr ''/tmp''"]
    by (fastforce simp: do_mounts_def mount_tmp_def)
qed

text \<open>A kernel that lets everything through, with a cell that binds a directory below \<^verbatim>\<open>/tmp\<close>.\<close>

definition demo_kern :: "unit kern" where
  "demo_kern = \<lparr>k_call = (\<lambda>c h. (0, h)), k_lstat = (\<lambda>h p. Some FOther), k_stat = (\<lambda>h p. True), k_readlink = (\<lambda>h p. None),
     k_read = (\<lambda>h p. None), k_dev = (\<lambda>h p. None), k_realpath = (\<lambda>h p. Some p), k_ifup = (\<lambda>h i. Some False)\<rparr>"

definition demo_bind :: cfg where
  "demo_bind = cfg_init\<lparr>workdir := ''/w'', binds := [\<lparr>b_src = ''/data'', b_dst = ''/tmp/data'', b_ro = False\<rparr>],
     secrets := [(''/run/key'', ''k'')]\<rparr>"

lemma goes_bind_mount: "willing K \<Longrightarrow> goes (bind_mount K src dst ro rec)"
  unfolding bind_mount_def by (rule goes_run_acts) (simp add: goes_calls)

lemma goes_dev: "willing K \<Longrightarrow> goes (bind_dev K nr d)"
proof -
  assume "willing K"
  then have "\<not> unmounting c \<Longrightarrow> \<not> fst (k_call K c h) < 0" for c h by (simp add: willing_def not_less)
  then show ?thesis by (simp add: goes_def bind_dev_def do_call_def case_prod_beta Let_def)
qed

lemma goes_look: "(\<And>w. \<exists>a. goes a \<and> f w = a w) \<Longrightarrow> goes f"
  unfolding goes_def by metis

lemma goes_looks:
  assumes "willing K"
  shows "goes (mirror_top K nr C p)" "goes (bind_os_ro K nr C p b)" "goes (mount_resolv K nr)"
proof -
  have os: "goes (run_acts [mmkdir K x m0755, bind_mount K s x True True])" for x s
    by (rule goes_run_acts) (simp add: assms goes_calls goes_bind_mount)
  have none: "goes (\<lambda>w. (None, w))" by (simp add: goes_def)
  have some: "\<exists>t. k_lstat K h q = Some t" for h q using assms by (simp add: willing_def)
  show "goes (bind_os_ro K nr C p b)"
  proof (rule goes_look)
    fix w :: "'a world"
    obtain t where "k_lstat K (snd w) (os_src PATH_MAX C p) = Some t" using some by blast
    then have "bind_os_ro K nr C p b w =
        run_acts [mmkdir K (NR nr p) m0755, bind_mount K (os_src PATH_MAX C p) (NR nr p) True True] w"
      by (simp add: bind_os_ro_def Let_def del: run_acts.simps)
    then show "\<exists>a. goes a \<and> bind_os_ro K nr C p b w = a w" using os by metis
  qed
  show "goes (mirror_top K nr C p)"
  proof (rule goes_look)
    fix w :: "'a world"
    show "\<exists>a. goes a \<and> mirror_top K nr C p w = a w"
      by (cases rule: mirror_top_cases[of K nr C p w]) (use os none goes_calls(3)[OF assms] unmounting.simps in \<open>metis+\<close>)
  qed
  have "goes (run_acts [mmkdir_p K x m0755, attempt K (OpenCreate y m0644), bind_mount K RESOLV_UP y False False])" for x y
    by (rule goes_run_acts) (simp add: assms goes_calls goes_bind_mount)
  then show "goes (mount_resolv K nr)"
    using none unfolding goes_def mount_resolv_def Let_def by (simp del: run_acts.simps)
qed

lemma goes_concat_map: "(\<And>x. x \<in> set xs \<Longrightarrow> list_all goes (f x)) \<Longrightarrow> list_all goes (concat (map f xs))"
  by (auto simp: list_all_iff)

lemma goes_do_mounts: "willing K \<Longrightarrow> goes (do_mounts K nr C)"
proof -
  assume K: "willing K"
  have "list_all goes (map (bind_dev K nr) devs)" by (simp add: list_all_iff goes_dev[OF K])
  then have "list_all goes (mount_dev K nr)" by (simp add: mount_dev_def tmpfs_mount_def goes_calls[OF K])
  moreover have "list_all goes (mount_root K nr)" "list_all goes (mount_os K nr C)" "list_all goes (mount_workspace K nr C)"
    "list_all goes (mount_tmp K nr)" "list_all goes (mount_scratch K nr)" "list_all goes (mount_host_net K nr)"
    "list_all goes (mount_kernfs K nr)"
    by (simp_all add: mount_root_def mount_os_def mount_workspace_def mount_tmp_def mount_scratch_def mount_host_net_def
        mount_kernfs_def tmpfs_mount_def Let_def goes_calls[OF K] goes_bind_mount[OF K] goes_looks[OF K])
  moreover have "list_all goes (mount_extra K nr C)"
    by (simp add: mount_extra_def goes_concat_map goes_calls[OF K] goes_bind_mount[OF K])
  moreover have "list_all goes (concat (map (\<lambda>(i, d). mount_overlay K nr i d) (enumerate 0 (ov_dirs C))))"
    by (rule goes_concat_map) (auto simp: mount_overlay_def Let_def goes_calls[OF K])
  moreover have "list_all goes (concat (map (place_secret K nr) (secrets C)))"
    by (rule goes_concat_map) (simp add: place_secret_def Let_def goes_calls[OF K])
  ultimately show ?thesis
    unfolding do_mounts_def mounts_before_tmp_def mounts_after_tmp_def
    by (intro goes_run_acts) (simp add: goes_calls[OF K] goes_looks[OF K])
qed

lemma demo_run: "fst (do_mounts demo_kern nr C ([], ())) = None"
  using goes_do_mounts[of demo_kern nr C] by (simp add: goes_def willing_def demo_kern_def)

theorem tmp_hides_binds_witness:
  "\<exists>l. do_mounts demo_kern ''/r'' demo_bind ([], ()) = (None, (l, ())) \<and>
     (\<exists>b\<in>set (binds demo_bind). b_dst b = ''/tmp/'' @ ''data'') \<and>
     seen (mtab l) (''/r'' @ ''/tmp/'' @ ''data'') = Some (ram (NR ''/r'' ''/tmp''))"
proof -
  obtain l u where l: "do_mounts demo_kern ''/r'' demo_bind ([], ()) = (None, (l, u))"
    using demo_run by (metis prod.collapse)
  have "netmode demo_bind \<noteq> NET_VETH" by (simp add: demo_bind_def cfg_init_def cfg_zero_def)
  from tmp_hides_binds[OF l this, of "''data''"]
  have "seen (mtab l) (''/r'' @ ''/tmp/'' @ ''data'') = Some (ram (NR ''/r'' ''/tmp''))" by simp
  moreover have "\<exists>b\<in>set (binds demo_bind). b_dst b = ''/tmp/'' @ ''data''" by (simp add: demo_bind_def)
  ultimately show ?thesis using l by (metis unit.exhaust)
qed

subsection \<open>The phases of \<^verbatim>\<open>do_mounts\<close>\<close>

text \<open>The kinds of calls a phase makes, for a predicate that holds of the calls on the file system.\<close>

definition covers :: "(call \<Rightarrow> bool) \<Rightarrow> bool" where
  "covers P \<longleftrightarrow> (\<forall>p m. P (Mkdir p m)) \<and> (\<forall>s d f fl x. P (Mount s d f fl x)) \<and> (\<forall>t p. P (Symlink t p)) \<and>
     (\<forall>p m. P (OpenCreate p m)) \<and> (\<forall>p. P (Unlink p))"

lemma quiet_bind_mount: "covers P \<Longrightarrow> emits (calls P) (bind_mount K src dst ro rec)"
  unfolding bind_mount_def by (rule emits_run_acts) (simp add: emits_must emits_attempt covers_def)

lemma quiet_dirs: "covers P \<Longrightarrow> emits (calls P) (mmkdir K p m)" "covers P \<Longrightarrow> emits (calls P) (mmkdir_p K p m)"
  by (simp_all add: covers_def emits_calls_dirs)

lemma quiet_pair: "covers P \<Longrightarrow> emits (calls P) (run_acts [mmkdir K x m0755, bind_mount K s x True True])"
  by (rule emits_run_acts) (simp add: quiet_bind_mount quiet_dirs)

lemma quiet_looks:
  assumes "covers P"
  shows "emits (calls P) (bind_os_ro K nr C p b)" "emits (calls P) (mirror_top K nr C p)" "emits (calls P) (mount_resolv K nr)"
proof -
  show "emits (calls P) (bind_os_ro K nr C p b)" by (rule emits_bind_os_ro_gen[OF quiet_pair[OF assms]])
  show "emits (calls P) (mirror_top K nr C p)"
    by (rule emits_mirror_top_gen[OF quiet_pair[OF assms]]) (use assms in \<open>simp add: covers_def\<close>)
  have "P (OpenCreate y m)" for y m using assms by (simp add: covers_def)
  then show "emits (calls P) (mount_resolv K nr)"
    by (intro emits_mount_resolv_gen emits_run_acts) (simp add: quiet_bind_mount quiet_dirs emits_attempt assms)
qed

lemma quiet_mounts: "covers P \<Longrightarrow> emits (calls P) (must K (Mount s d f fl x) msg)" "covers P \<Longrightarrow> emits (calls P) (attempt K (Mount s d f fl x))"
  "covers P \<Longrightarrow> emits (calls P) (must_exist K (Symlink t p) msg)"
  by (simp_all add: covers_def emits_must emits_attempt emits_must_exist)

lemma quiet_before: "covers P \<Longrightarrow> list_all (emits (calls P)) (mounts_before_tmp K nr C @ mount_tmp K nr)"
proof -
  assume P: "covers P"
  have "list_all (emits (calls P)) (mount_extra K nr C)"
    by (simp add: mount_extra_def emits_concat_map quiet_dirs[OF P] quiet_bind_mount[OF P])
  then show ?thesis
    by (simp add: mounts_before_tmp_def mount_root_def mount_os_def mount_workspace_def mount_tmp_def tmpfs_mount_def Let_def
        quiet_looks[OF P] quiet_bind_mount[OF P] quiet_dirs[OF P] quiet_mounts[OF P])
qed

lemma quiet_overlays: "covers P \<Longrightarrow> list_all (emits (calls P)) (overlays K nr C @ mount_scratch K nr)"
proof -
  assume P: "covers P"
  have "list_all (emits (calls P)) (overlays K nr C)"
    unfolding overlays_def by (rule emits_concat_map) (auto simp: mount_overlay_def Let_def quiet_dirs[OF P] quiet_mounts[OF P])
  then show ?thesis by (simp add: mount_scratch_def tmpfs_mount_def quiet_dirs[OF P] quiet_mounts[OF P])
qed

definition mounts_late :: "'h kern \<Rightarrow> cstr \<Rightarrow> cfg \<Rightarrow> 'h act list" where
  "mounts_late K nr C =
     (if netmode C = NET_HOST then mount_host_net K nr else []) @
     (if netmode C = NET_VETH then [mount_resolv K nr] else []) @
     mount_kernfs K nr @ mount_dev K nr @ [mmkdir K (NR nr ''/.put_old'') m0755]"

lemma quiet_late: "covers P \<Longrightarrow> list_all (emits (calls P)) (mounts_late K nr C)"
proof -
  assume P: "covers P"
  have "emits (calls P) (bind_dev K nr d)" for d using P by (intro emits_bind_dev_gen) (simp_all add: covers_def)
  then have "list_all (emits (calls P)) (map (bind_dev K nr) devs)" by (simp add: list_all_iff)
  then show ?thesis
    by (simp add: mounts_late_def mount_host_net_def mount_kernfs_def mount_dev_def tmpfs_mount_def Let_def
        quiet_looks[OF P] quiet_dirs[OF P] quiet_mounts[OF P])
qed

definition mounts_first :: "'h kern \<Rightarrow> cstr \<Rightarrow> cfg \<Rightarrow> 'h act list" where
  "mounts_first K nr C = mounts_before_tmp K nr C @ mount_tmp K nr @ overlays K nr C @ mount_scratch K nr"

lemma do_mounts_phases:
  "do_mounts K nr C = run_acts (mounts_first K nr C @ concat (map (place_secret K nr) (secrets C)) @ mounts_late K nr C)"
  unfolding do_mounts_def mounts_first_def mounts_after_tmp_def mounts_late_def overlays_def by simp

lemma emits_do_mounts_calls:
  assumes "covers P" "\<And>p d. P (WriteSecret p d)"
  shows "emits (calls P) (do_mounts K nr C)"
proof -
  have "list_all (emits (calls P)) (concat (map (place_secret K nr) (secrets C)))"
    by (rule emits_concat_map) (use assms(2) in \<open>simp add: place_secret_def Let_def quiet_dirs[OF assms(1)] emits_attempt\<close>)
  then show ?thesis
    unfolding do_mounts_phases mounts_first_def
    using quiet_before[OF assms(1), of K nr C] quiet_overlays[OF assms(1), of K nr C] quiet_late[OF assms(1), of K nr C]
    by (intro emits_run_acts) simp
qed

subsection \<open>The mounts that are always made\<close>

text \<open>The mounts without which \<^verbatim>\<open>do_mounts\<close> does not return. The others are looked for first (\<^verbatim>\<open>/opt\<close>, \<^verbatim>\<open>/bin\<close> and the like) or
  may fail with a warning: \<^verbatim>\<open>/proc\<close>, \<^verbatim>\<open>/sys\<close>, \<^verbatim>\<open>/sys/fs/cgroup\<close>, \<^verbatim>\<open>/run/systemd\<close> and every read-only remount.\<close>

definition bind_call :: "cstr \<Rightarrow> cstr \<Rightarrow> bool \<Rightarrow> call" where
  "bind_call src dst rec = Mount (Some src) dst None (MS_BIND # (if rec then [MS_REC] else [])) None"

abbreviation "tmpfs_call dst opts \<equiv> Mount (Some ''tmpfs'') dst (Some ''tmpfs'') [MS_NOSUID, MS_NODEV] (Some opts)"

definition overlay_call :: "cstr \<Rightarrow> nat \<Rightarrow> cstr \<Rightarrow> call" where
  "overlay_call nr i d = Mount (Some ''overlay'') (mnt_dst nr d) (Some ''overlay'') []
     (Some (snprintf_s (3 * PATH_MAX) (''lowerdir='' @ d @ '',upperdir='' @ snprintf_s PATH_MAX (nr @ ''/tmp/.ovl/'' @ dec i @ ''.up'') @
        '',workdir='' @ snprintf_s PATH_MAX (nr @ ''/tmp/.ovl/'' @ dec i @ ''.wk''))))"

definition required_mounts :: "cstr \<Rightarrow> cfg \<Rightarrow> call list" where
  "required_mounts nr C =
     [Mount None ''/'' None [MS_REC, MS_PRIVATE] None,
      Mount (Some ''tmpfs'') nr (Some ''tmpfs'') [MS_NOSUID] (Some ''size=16m,mode=0755'')] @
     map (\<lambda>p. bind_call (os_src PATH_MAX C p) (NR nr p) True) [''/usr'', ''/etc''] @
     [if workdir_size C > 0 then tmpfs_call (NR nr ''/home/agent'') (snprintf_s 64 (''size='' @ dec_int (workdir_size C) @ '',mode=0755''))
      else bind_call (workdir C) (NR nr ''/home/agent'') False] @
     map (\<lambda>d. bind_call d (mnt_dst nr d) True) (ro_dirs C @ rw_dirs C) @
     map (\<lambda>b. bind_call (b_src b) (NR nr (b_dst b)) True) (binds C) @
     [tmpfs_call (NR nr ''/tmp'') ''size=1g,mode=1777''] @
     map (\<lambda>(i, d). overlay_call nr i d) (enumerate 0 (ov_dirs C)) @
     [tmpfs_call (NR nr ''/var/tmp'') ''size=128m,mode=1777'', tmpfs_call (NR nr ''/run'') ''size=64m,mode=755'',
      tmpfs_call (NR nr ''/dev'') ''size=1m,mode=755''] @
     map (\<lambda>d. bind_call (''/dev/'' @ d) (dev_dst nr d) False) devs"

definition secures :: "call \<Rightarrow> 'h act \<Rightarrow> bool" where
  "secures c a \<longleftrightarrow> (\<forall>w w'. a w = (None, w') \<longrightarrow> (\<exists>r\<ge>0. (c, r) \<in> set (fst w')))"

definition secured :: "'h act list \<Rightarrow> call \<Rightarrow> bool" where
  "secured xs c \<longleftrightarrow> (\<exists>a \<in> set xs. secures c a)"

lemma secured_simps [simp]: "secured (a # xs) c \<longleftrightarrow> secures c a \<or> secured xs c" "secured (xs @ ys) c \<longleftrightarrow> secured xs c \<or> secured ys c"
  by (auto simp: secured_def)

lemma secured_concat: "x \<in> set xs \<Longrightarrow> secured (f x) c \<Longrightarrow> secured (concat (map f xs)) c"
  by (auto simp: secured_def)

lemma secured_map: "x \<in> set xs \<Longrightarrow> secures c (f x) \<Longrightarrow> secured (map f xs) c"
  by (auto simp: secured_def)

lemma secures_must [simp]: "secures c (must K c msg)"
  unfolding secures_def using must_ok by fastforce

lemma secures_run:
  assumes "secured xs c" "list_all (emits (calls P)) xs" "run_acts xs w = (None, w')"
  shows "\<exists>r\<ge>0. (c, r) \<in> set (fst w')"
proof -
  obtain ys a zs where a: "secures c a" "xs = ys @ a # zs" using assms(1) unfolding secured_def by (metis split_list)
  obtain v where "run_acts (a # zs) v = (None, w')" using assms(3) unfolding a(2) by (rule run_acts_split)
  then obtain u where u: "a v = (None, u)" "run_acts zs u = (None, w')" by (auto split: prod.splits option.splits)
  obtain l where "fst w' = fst u @ l" using emits_calls_log[OF emits_run_acts u(2), of P] assms(2) unfolding a(2) by auto
  moreover obtain r where "r \<ge> 0" "(c, r) \<in> set (fst u)" using a(1) u(1) unfolding secures_def by blast
  ultimately show ?thesis by (intro exI[of _ r]) simp
qed

lemma emits_any: "emits (calls (\<lambda>c. True)) (bind_mount K src dst ro rec)" "emits (calls (\<lambda>c. True)) (mmkdir K p m)"
  by (simp_all add: quiet_bind_mount quiet_dirs covers_def)

lemma secures_bind_mount [simp]: "secures (bind_call src dst rec) (bind_mount K src dst ro rec)"
proof -
  have "\<exists>r\<ge>0. (bind_call src dst rec, r) \<in> set (fst w')" if "bind_mount K src dst ro rec w = (None, w')" for w w'
    using that unfolding bind_mount_def bind_call_def[symmetric]
    by (rule secures_run[where P = "\<lambda>c. True", rotated 2]) (simp_all add: emits_must emits_attempt)
  then show ?thesis by (simp add: secures_def)
qed

lemma secures_bind_os [simp]: "secures (bind_call (os_src PATH_MAX C p) (NR nr p) True) (bind_os_ro K nr C p True)"
proof -
  have "\<exists>r\<ge>0. (bind_call (os_src PATH_MAX C p) (NR nr p) True, r) \<in> set (fst w')" if b: "bind_os_ro K nr C p True w = (None, w')" for w w'
  proof -
    have "run_acts [mmkdir K (NR nr p) m0755, bind_mount K (os_src PATH_MAX C p) (NR nr p) True True] w = (None, w')"
      using b by (auto simp: bind_os_ro_def Let_def simp del: run_acts.simps split: option.splits)
    then show ?thesis by (rule secures_run[where P = "\<lambda>c. True", rotated 2]) (simp_all add: emits_any)
  qed
  then show ?thesis by (simp add: secures_def)
qed

lemma secures_bind_dev: "d \<in> set devs \<Longrightarrow> secures (bind_call (''/dev/'' @ d) (dev_dst nr d) False) (bind_dev K nr d)"
proof -
  assume "d \<in> set devs"
  then have "length d \<le> 7" by (auto simp: devs_def)
  then have "snprintf_s 64 (''/dev/'' @ d) = ''/dev/'' @ d" by (simp add: snprintf_s_def)
  then show ?thesis by (fastforce simp: secures_def bind_dev_def bind_call_def do_call_def Let_def case_prod_beta not_less split: if_splits)
qed

lemma secured_extra:
  assumes "d \<in> set (ro_dirs C @ rw_dirs C)"
  shows "secured (mount_extra K nr C) (bind_call d (mnt_dst nr d) True)"
proof -
  have "secured (concat (map (\<lambda>d. [mmkdir_p K (mnt_dst nr d) m0755, bind_mount K d (mnt_dst nr d) b True]) ds)) (bind_call d (mnt_dst nr d) True)"
    if "d \<in> set ds" for ds b by (rule secured_concat[OF that]) simp
  then show ?thesis using assms unfolding mount_extra_def secured_simps set_append Un_iff by blast
qed

lemma secured_binds: "b \<in> set (binds C) \<Longrightarrow> secured (mount_extra K nr C) (bind_call (b_src b) (NR nr (b_dst b)) True)"
  unfolding mount_extra_def secured_simps by (intro disjI2) (rule secured_concat, assumption, simp)

lemma secured_overlays: "(i, d) \<in> set (enumerate 0 (ov_dirs C)) \<Longrightarrow> secured (overlays K nr C) (overlay_call nr i d)"
  unfolding overlays_def by (rule secured_concat, assumption) (simp add: mount_overlay_def overlay_call_def Let_def)

lemma secured_dev:
  "secured (mount_dev K nr) (tmpfs_call (NR nr ''/dev'') ''size=1m,mode=755'')"
  "d \<in> set devs \<Longrightarrow> secured (mount_dev K nr) (bind_call (''/dev/'' @ d) (dev_dst nr d) False)"
proof -
  show "secured (mount_dev K nr) (tmpfs_call (NR nr ''/dev'') ''size=1m,mode=755'')" unfolding mount_dev_def tmpfs_mount_def by simp
  assume d: "d \<in> set devs"
  show "secured (mount_dev K nr) (bind_call (''/dev/'' @ d) (dev_dst nr d) False)"
    using secured_map[where f = "bind_dev K nr", OF d secures_bind_dev[OF d]] unfolding mount_dev_def secured_simps by blast
qed

lemma required_secured: "list_all (secured (mounts_before_tmp K nr C @ mount_tmp K nr @ mounts_after_tmp K nr C)) (required_mounts nr C)"
proof -
  have "list_all (secured (mount_root K nr)) [Mount None ''/'' None [MS_REC, MS_PRIVATE] None,
      Mount (Some ''tmpfs'') nr (Some ''tmpfs'') [MS_NOSUID] (Some ''size=16m,mode=0755'')]"
    by (simp add: mount_root_def)
  moreover have "list_all (secured (mount_os K nr C)) (map (\<lambda>p. bind_call (os_src PATH_MAX C p) (NR nr p) True) [''/usr'', ''/etc''])"
    by (simp add: mount_os_def)
  moreover have "secured (mount_workspace K nr C) (if workdir_size C > 0
      then tmpfs_call (NR nr ''/home/agent'') (snprintf_s 64 (''size='' @ dec_int (workdir_size C) @ '',mode=0755''))
      else bind_call (workdir C) (NR nr ''/home/agent'') False)"
    by (simp add: mount_workspace_def tmpfs_mount_def Let_def)
  moreover have "secured (mount_tmp K nr) (tmpfs_call (NR nr ''/tmp'') ''size=1g,mode=1777'')"
    "secured (mount_scratch K nr) (tmpfs_call (NR nr ''/var/tmp'') ''size=128m,mode=1777'')"
    "secured (mount_scratch K nr) (tmpfs_call (NR nr ''/run'') ''size=64m,mode=755'')"
    by (simp_all add: mount_tmp_def mount_scratch_def tmpfs_mount_def)
  ultimately show ?thesis
    unfolding required_mounts_def mounts_before_tmp_def mounts_after_tmp_def overlays_def[symmetric] list_all_append list.pred_inject list.pred_map
      secured_simps comp_def
    using secured_extra[where C = C and K = K and nr = nr] secured_binds[where C = C and K = K and nr = nr] secured_overlays[where C = C and K = K and nr = nr] secured_dev[where K = K and nr = nr]
    by (simp only: list_all_iff) auto
qed

lemma do_mounts_requires:
  assumes "do_mounts K nr C w = (None, w')" "c \<in> set (required_mounts nr C)"
  shows "\<exists>r\<ge>0. (c, r) \<in> set (fst w')"
proof -
  have P: "covers (\<lambda>c. True)" by (simp add: covers_def)
  have "list_all (emits (calls (\<lambda>c. True))) (mounts_before_tmp K nr C @ mount_tmp K nr @ mounts_after_tmp K nr C)"
    using quiet_before[OF P, of K nr C] quiet_overlays[OF P, of K nr C] quiet_late[OF P, of K nr C]
      emits_concat_map[of "secrets C" "calls (\<lambda>c. True)" "place_secret K nr"]
    by (simp add: mounts_after_tmp_def mounts_late_def overlays_def place_secret_def Let_def quiet_dirs[OF P] emits_attempt)
  then show ?thesis using secures_run[of _ c] required_secured[of K nr C] assms unfolding do_mounts_def list_all_iff by blast
qed

end
