(* ===== verification/Secret_Claims.thy ===== *)
theory Secret_Claims
  imports Mount_Claims Sand_Client
begin

text \<open>
  Where the copies that \<^verbatim>\<open>--secret\<close> asks for end: the destinations \<^verbatim>\<open>secret_add\<close> accepts, followed through
  \<^verbatim>\<open>do_mounts\<close> to the call that writes the file.
\<close>

lemma covers_no_secret: "covers no_secret"
  by (simp add: covers_def)

text \<open>The calls of the secrets' section: directories, and files at the places the options name.\<close>

fun placing :: "cstr \<Rightarrow> cfg \<Rightarrow> call \<Rightarrow> bool" where
  "placing nr C (Mkdir p m) = True"
| "placing nr C (WriteSecret f d) = list_ex (\<lambda>s. f = snprintf_s PATH_MAX (nr @ fst s) \<and> d = snd s) (secrets C)"
| "placing nr C c = False"

lemma placing_secrets: "list_all (emits (calls (placing nr C))) (concat (map (place_secret K nr) (secrets C)))"
proof (rule emits_concat_map)
  fix s
  assume "s \<in> set (secrets C)"
  then have "placing nr C (WriteSecret (snprintf_s PATH_MAX (nr @ fst s)) (snd s))" by (auto simp: list_ex_iff)
  then show "list_all (emits (calls (placing nr C))) (place_secret K nr s)"
    by (simp add: place_secret_def Let_def emits_calls_dirs emits_attempt del: placing.simps(2))
qed

lemma placing_not_mount: "placing nr C c \<Longrightarrow> not_mount c"
  by (cases c) auto

lemma mtab_placing: "calls (placing nr C) l \<Longrightarrow> foldl mtab_step ms l = ms"
  by (induction l arbitrary: ms) (auto simp: placing_not_mount)

lemma split_middle:
  assumes "A @ S @ R = l1 @ x # l2" "x \<notin> set A" "x \<notin> set R"
  obtains s1 s2 where "S = s1 @ x # s2" "l1 = A @ s1"
proof -
  have A: "length A \<le> length l1"
  proof (rule ccontr)
    assume "\<not> ?thesis"
    then have "(A @ S @ R) ! length l1 = A ! length l1" "length l1 < length A" by (simp_all add: nth_append)
    then show False using assms(1,2) by (metis nth_append_length nth_mem)
  qed
  then obtain s1 where s1: "l1 = A @ s1" "S @ R = s1 @ x # l2"
    using assms(1) by (metis append_assoc append_eq_append_conv_if append_take_drop_id same_append_eq)
  have "length s1 < length S"
  proof (rule ccontr)
    assume n: "\<not> ?thesis"
    have "length s1 < length (S @ R)" using s1(2) by simp
    then have "(S @ R) ! length s1 \<in> set R" using n by (auto simp: nth_append)
    then show False using s1(2) assms(3) by (metis nth_append_length)
  qed
  then have "S = s1 @ x # take (length S - length s1 - 1) l2"
    using arg_cong[OF s1(2), of "take (length S)"] by (auto simp: take_Cons' split: if_splits)
  then show thesis using that s1(1) by blast
qed

lemma secret_call_phase:
  assumes "do_mounts K nr C ([], h) = (res, (l, h'))" "l = l1 @ (WriteSecret full data, r) # l2"
  obtains v where "run_acts (mounts_first K nr C) ([], h) = (None, v)" "mtab l1 = mtab (fst v)"
    "\<exists>s\<in>set (secrets C). full = snprintf_s PATH_MAX (nr @ fst s) \<and> data = snd s"
proof -
  let ?A = "mounts_first K nr C" and ?S = "concat (map (place_secret K nr) (secrets C))" and ?R = "mounts_late K nr C"
  have qA: "list_all (emits (calls no_secret)) ?A" using quiet_before[OF covers_no_secret, of K nr C] quiet_overlays[OF covers_no_secret, of K nr C] by (simp add: mounts_first_def)
  obtain ma va where A: "run_acts ?A ([], h) = (ma, va)" by (rule prod.exhaust)
  obtain ms vs where S: "run_acts ?S va = (ms, vs)" by (rule prod.exhaust)
  obtain mr vr where R: "run_acts ?R vs = (mr, vr)" by (rule prod.exhaust)
  obtain LA where LA: "fst va = LA" "calls no_secret LA" using emits_calls_log[OF emits_run_acts[OF qA] A] by auto
  obtain LS where LS: "fst vs = LA @ LS" "calls (placing nr C) LS"
    using emits_calls_log[OF emits_run_acts[OF placing_secrets] S] LA by auto
  obtain LR where LR: "fst vr = LA @ LS @ LR" "calls no_secret LR"
    using emits_calls_log[OF emits_run_acts[OF quiet_late[OF covers_no_secret]] R] LS by auto
  have ns: "(WriteSecret full data, r) \<notin> set L" if "calls no_secret L" for L
    using that by (fastforce simp: calls_def list_all_iff)
  have "l = LA \<and> ma \<noteq> None \<or> ma = None \<and> (l = LA @ LS \<or> l = LA @ LS @ LR)"
    using assms(1) A S R LA(1) LS(1) LR(1) by (auto simp: do_mounts_phases run_acts_append split: option.splits prod.splits)
  then consider "l = LA" | "ma = None" "LA @ LS @ [] = l1 @ (WriteSecret full data, r) # l2"
    | "ma = None" "LA @ LS @ LR = l1 @ (WriteSecret full data, r) # l2" using assms(2) by auto
  then obtain s1 s2 where "ma = None" and s: "LS = s1 @ (WriteSecret full data, r) # s2" "l1 = LA @ s1"
  proof cases
    case 1
    then show thesis using ns[OF LA(2)] assms(2) by auto
  next
    case 2
    then show thesis using split_middle[OF 2(2) ns[OF LA(2)]] that by (metis empty_iff list.set(1))
  next
    case 3
    then show thesis using split_middle[OF 3(2) ns[OF LA(2)] ns[OF LR(2)]] that by metis
  qed
  moreover have "mtab l1 = mtab (fst va)" using s LS(2) LA(1) mtab_placing[of nr C s1] by (simp add: mtab_def)
  ultimately show thesis using A LS(2) by (intro that[of va]) (auto simp: list_ex_iff)
qed

definition secret_dirs :: "cstr list" where
  "secret_dirs = [''/tmp'', ''/run'', ''/var/tmp'']"

lemma secret_add_dst:
  "list_all (\<lambda>s. list_ex (\<lambda>d. starts (d @ ''/'') (fst s)) secret_dirs) (secrets C) \<Longrightarrow>
   list_all (\<lambda>s. list_ex (\<lambda>d. starts (d @ ''/'') (fst s)) secret_dirs) (secrets (snd (secret_add fs spec C)))"
  by (auto simp: secret_add_def Let_def secret_dirs_def split: option.split)

lemma secret_adds_dst:
  "secrets C = [] \<Longrightarrow> list_all (\<lambda>s. list_ex (\<lambda>d. starts (d @ ''/'') (fst s)) secret_dirs)
     (secrets (foldl (\<lambda>C spec. snd (secret_add fs spec C)) C specs))"
proof (induction specs rule: rev_induct)
  case (snoc s specs)
  then show ?case using secret_add_dst by simp
qed simp

lemma starts_split: "starts k s \<Longrightarrow> \<exists>x. s = k @ x"
  by (metis append_take_drop_id starts_def)

lemma secret_path:
  assumes "length nr \<le> 64" "starts (d @ ''/'') dst" "d \<in> set secret_dirs"
  shows "\<exists>x. snprintf_s PATH_MAX (nr @ dst) = nr @ d @ ''/'' @ x"
proof -
  obtain x where "dst = d @ ''/'' @ x" using starts_split[OF assms(2)] by auto
  moreover have "length d \<le> 8" using assms(3) by (auto simp: secret_dirs_def)
  ultimately have "snprintf_s PATH_MAX (nr @ dst) = nr @ d @ ''/'' @ take (4094 - length nr - length d) x"
    using assms(1) by (simp add: snprintf_s_def PATH_MAX_def take_Cons')
  then show ?thesis by blast
qed

lemma ram_after_first:
  assumes "run_acts (mounts_first K nr C) ([], h) = (None, v)" "length nr \<le> 64" "d \<in> set secret_dirs"
  shows "seen (mtab (fst v)) (nr @ d @ ''/'' @ x) = Some (ram (NR nr d))"
proof -
  have tmp: "segs (nr @ ''/tmp'' @ ''/'' @ x) = segs nr @ ''tmp'' # segs x"
    and run: "segs (nr @ ''/run'' @ ''/'' @ x) = segs nr @ ''run'' # segs x"
    and var: "segs (nr @ ''/var/tmp'' @ ''/'' @ x) = segs nr @ ''var'' # ''tmp'' # segs x"
    using segs_simps(3)[of "''tmp''" x] segs_simps(3)[of "''run''" x] segs_simps(3)[of "''var/tmp''" x] segs_dirs by simp_all
  have below: "beneath (NR nr d) (nr @ d @ ''/'' @ x)"
    using assms(2,3) tmp run var segs_dirs by (auto simp: secret_dirs_def beneath_def segs_NR)
  consider "d = ''/tmp''" | "d = ''/run''" | "d = ''/var/tmp''" using assms(3) by (auto simp: secret_dirs_def)
  then show ?thesis
  proof cases
    case 1
    have "list_all (emits (calls (away (nr @ d @ ''/'' @ x)))) (overlays K nr C @ mount_scratch K nr)"
      using 1 tmp assms(2) by (simp add: away_overlays_all away_scratch)
    then show ?thesis
      using 1 below assms(1) ram_stays[of "mounts_before_tmp K nr C @ [mmkdir K (NR nr ''/tmp'') m1777]" K "NR nr d"]
      by (fastforce simp: mounts_first_def mount_tmp_def)
  next
    case 2
    then show ?thesis
      using below assms(1) ram_stays[of "mounts_before_tmp K nr C @ mount_tmp K nr @ overlays K nr C @
        [mmkdir_p K (NR nr ''/var/tmp'') m1777, tmpfs_mount K (NR nr ''/var/tmp'') ''size=128m,mode=1777'', mmkdir K (NR nr ''/run'') m0755]" K "NR nr d" _ "[]"]
      by (fastforce simp: mounts_first_def mount_scratch_def)
  next
    case 3
    have "list_all (emits (calls (away (nr @ d @ ''/'' @ x)))) [mmkdir K (NR nr ''/run'') m0755, tmpfs_mount K (NR nr ''/run'') ''size=64m,mode=755'']"
      using 3 var not_beneath_dirs(4)[OF assms(2) var] by (simp add: emits_calls_dirs away_fs)
    then show ?thesis
      using 3 below assms(1) ram_stays[of "mounts_before_tmp K nr C @ mount_tmp K nr @ overlays K nr C @
        [mmkdir_p K (NR nr ''/var/tmp'') m1777]" K "NR nr d"]
      by (fastforce simp: mounts_first_def mount_scratch_def)
  qed
qed

text \<open>C18: secrets stay in memory. Of the \<^verbatim>\<open>--secret\<close> options that \<^verbatim>\<open>secret_add\<close> accepts, every file \<^verbatim>\<open>do_mounts\<close> writes
  is at a path that, at the time of the write, belongs to one of the cell's new tmpfs mounts, whatever the kernel answers
  and whatever else the options mount.\<close>

theorem secrets_in_ram:
  assumes "secrets C0 = []" "secrets C = secrets (foldl (\<lambda>C spec. snd (secret_add fs spec C)) C0 specs)"
    "do_mounts K nr C ([], h) = (res, (l, h'))" "length nr \<le> 64" "l = l1 @ (WriteSecret full data, r) # l2"
  shows "\<exists>d\<in>set secret_dirs. seen (mtab l1) full = Some (ram (NR nr d))"
proof -
  from secret_call_phase[OF assms(3,5)] obtain v s where v: "run_acts (mounts_first K nr C) ([], h) = (None, v)"
    "mtab l1 = mtab (fst v)" and s: "s \<in> set (secrets C)" "full = snprintf_s PATH_MAX (nr @ fst s)" by blast
  obtain d where d: "d \<in> set secret_dirs" "starts (d @ ''/'') (fst s)"
    using secret_adds_dst[OF assms(1), of fs specs] s(1) assms(2) by (auto simp: list_all_iff list_ex_iff)
  obtain x where "full = nr @ d @ ''/'' @ x" using secret_path[OF assms(4) d(2,1)] s(2) by blast
  then have "seen (mtab l1) full = Some (ram (NR nr d))" using ram_after_first[OF v(1) assms(4) d(1)] v(2) by simp
  then show ?thesis using d(1) by blast
qed

definition demo_secret :: cfg where
  "demo_secret = snd (secret_add (\<lambda>f. Some ''key'') ''/run/id=/home/u/id'' cfg_init)"

lemma demo_secret_secrets: "secrets demo_secret = [(''/run/id'', ''key'')]"
  by (simp add: demo_secret_def secret_add_def cfg_init_def cfg_zero_def MAX_SECRET_def PATH_MAX_def starts_def Let_def)

theorem secrets_in_ram_witness:
  "\<exists>l1 full data r l2. fst (snd (do_mounts demo_kern ''/r'' demo_secret ([], ()))) = l1 @ (WriteSecret full data, r) # l2 \<and>
     (\<exists>d\<in>set secret_dirs. seen (mtab l1) full = Some (ram (NR ''/r'' d)))"
proof -
  let ?C = demo_secret
  obtain l u where run: "do_mounts demo_kern ''/r'' ?C ([], ()) = (None, (l, u))" using demo_run by (metis prod.collapse)
  have "\<exists>pre f. place_secret demo_kern ''/r'' s = pre @ [attempt demo_kern (WriteSecret f (snd s))]" for s
    unfolding place_secret_def Let_def by blast
  then obtain pre f where "place_secret demo_kern ''/r'' (''/run/id'', ''key'') = pre @ [attempt demo_kern (WriteSecret f ''key'')]"
    by (metis snd_conv)
  then have "do_mounts demo_kern ''/r'' ?C = run_acts ((mounts_first demo_kern ''/r'' ?C @ pre) @
      attempt demo_kern (WriteSecret f ''key'') # mounts_late demo_kern ''/r'' ?C)"
    unfolding do_mounts_phases by (simp add: demo_secret_secrets)
  from run[unfolded this] obtain l1 r l2 where l: "l = l1 @ (WriteSecret f ''key'', r) # l2"
    using attempted[OF _ quiet_late[OF covers_no_secret]] by (metis fst_conv)
  have "\<exists>d\<in>set secret_dirs. seen (mtab l1) f = Some (ram (NR ''/r'' d))"
  proof (rule secrets_in_ram[OF _ _ run _ l])
    show "secrets cfg_init = []" by (simp add: cfg_init_def cfg_zero_def)
    show "secrets ?C = secrets (foldl (\<lambda>C spec. snd (secret_add (\<lambda>f. Some ''key'') spec C)) cfg_init [''/run/id=/home/u/id''])"
      by (simp add: demo_secret_def)
  qed simp
  then show ?thesis using run l by (metis fst_conv snd_conv)
qed

text \<open>The test of \<^verbatim>\<open>secret_add\<close> is on the text of the destination. A destination with dot-dot names passes it and
  resolves outside the tmpfs mounts, here into the workspace, which is a host directory.\<close>

lemma secret_dotdot_accepted:
  "fst (secret_add (\<lambda>f. Some ''key'') ''/tmp/../home/agent/id=/home/u/id'' cfg_init) = 0 \<and>
   fst (hd (secrets (snd (secret_add (\<lambda>f. Some ''key'') ''/tmp/../home/agent/id=/home/u/id'' cfg_init)))) = ''/tmp/../home/agent/id'' \<and>
   normalize_path ''/tmp/../home/agent/id'' = ''/home/agent/id''"
proof -
  have "normalize_path ''/tmp/../home/agent/id'' = ''/home/agent/id''" by code_simp
  then show ?thesis by (simp add: secret_add_def cfg_init_def cfg_zero_def MAX_SECRET_def PATH_MAX_def starts_def Let_def)
qed

end
