(* ===== verification/Landlock.thy ===== *)
theory Landlock
  imports Jail_Mounts
begin

unbundle bit_operations_syntax

text \<open>
  The Landlock layer: \<^verbatim>\<open>ll_allow\<close> and \<^verbatim>\<open>landlock_apply\<close> of \<^verbatim>\<open>src/sand.c\<close>. Three access rights depend on the kernel
  headers of the build (\<^verbatim>\<open>#ifndef\<close> in the source), so they are a record \<open>ll_hdr\<close>: \<open>new_hdr\<close> are the values of current
  headers, \<open>old_hdr\<close> the fallbacks the source defines. \<open>sz\<close> is \<^verbatim>\<open>sizeof attr\<close>.
\<close>

record ll_hdr =
  FS_REFER :: u64
  FS_TRUNCATE :: u64
  FS_IOCTL_DEV :: u64

definition old_hdr :: ll_hdr where
  "old_hdr = \<lparr>FS_REFER = push_bit 11 1, FS_TRUNCATE = push_bit 14 1, FS_IOCTL_DEV = push_bit 16 1\<rparr>"

definition new_hdr :: ll_hdr where
  "new_hdr = \<lparr>FS_REFER = push_bit 13 1, FS_TRUNCATE = push_bit 14 1, FS_IOCTL_DEV = push_bit 15 1\<rparr>"

definition "FS_EXECUTE = (push_bit 0 1 :: u64)"
definition "FS_WRITE_FILE = (push_bit 1 1 :: u64)"
definition "FS_READ_FILE = (push_bit 2 1 :: u64)"
definition "FS_READ_DIR = (push_bit 3 1 :: u64)"
definition "FS_REMOVE_DIR = (push_bit 4 1 :: u64)"
definition "FS_REMOVE_FILE = (push_bit 5 1 :: u64)"
definition "FS_MAKE_CHAR = (push_bit 6 1 :: u64)"
definition "FS_MAKE_DIR = (push_bit 7 1 :: u64)"
definition "FS_MAKE_REG = (push_bit 8 1 :: u64)"
definition "FS_MAKE_SOCK = (push_bit 9 1 :: u64)"
definition "FS_MAKE_FIFO = (push_bit 10 1 :: u64)"
definition "FS_MAKE_BLOCK = (push_bit 11 1 :: u64)"
definition "FS_MAKE_SYM = (push_bit 12 1 :: u64)"

lemmas fs_bits = FS_EXECUTE_def FS_WRITE_FILE_def FS_READ_FILE_def FS_READ_DIR_def FS_REMOVE_DIR_def FS_REMOVE_FILE_def
  FS_MAKE_CHAR_def FS_MAKE_DIR_def FS_MAKE_REG_def FS_MAKE_SOCK_def FS_MAKE_FIFO_def FS_MAKE_BLOCK_def FS_MAKE_SYM_def

definition ll_ro :: u64 where
  "ll_ro = FS_EXECUTE OR FS_READ_FILE OR FS_READ_DIR"

definition ll_rw :: "ll_hdr \<Rightarrow> int \<Rightarrow> u64" where
  "ll_rw H abi =
     (let rw = ll_ro OR FS_WRITE_FILE OR FS_REMOVE_DIR OR FS_REMOVE_FILE OR FS_MAKE_CHAR OR FS_MAKE_DIR OR FS_MAKE_REG OR
            FS_MAKE_SOCK OR FS_MAKE_FIFO OR FS_MAKE_SYM OR FS_MAKE_BLOCK;
          rw = (if abi \<ge> 2 then rw OR FS_REFER H else rw);
          rw = (if abi \<ge> 3 then rw OR FS_TRUNCATE H else rw)
      in if abi \<ge> 5 then rw OR FS_IOCTL_DEV H else rw)"

definition ll_small :: u64 where
  "ll_small = FS_EXECUTE OR FS_READ_FILE OR FS_READ_DIR OR FS_WRITE_FILE OR FS_REMOVE_DIR OR FS_REMOVE_FILE OR FS_MAKE_REG OR
     FS_MAKE_DIR"

text \<open>\<^verbatim>\<open>ll_allow\<close>: a path that does not open or a rule that is refused is reported and left out.\<close>

definition ll_allow :: "'h kern \<Rightarrow> cstr \<Rightarrow> u64 \<Rightarrow> 'h act" where
  "ll_allow K path access w =
     (if k_stat K (snd w) path then attempt K (LandlockRule path access) w else (None, w))"

fun try_create :: "'h kern \<Rightarrow> u64 \<Rightarrow> nat list \<Rightarrow> 'h world \<Rightarrow> int \<times> 'h world" where
  "try_create K handled [] w = (-1, w)"
| "try_create K handled (n # ns) w =
     (let (fd, w) = do_call K (LandlockCreate handled n) w in if fd < 0 then try_create K handled ns w else (fd, w))"

text \<open>The rules in the order of the source; \<open>rw\<close> is the variable of that name.\<close>

definition mnt_path :: "cstr \<Rightarrow> cstr" where
  "mnt_path d = snprintf_s PATH_MAX (''/mnt/'' @ basename_of d)"

definition ll_rules :: "cfg \<Rightarrow> u64 \<Rightarrow> (cstr \<times> u64) list" where
  "ll_rules C rw =
     map (\<lambda>p. (p, ll_ro)) [''/'', ''/usr'', ''/etc'', ''/opt'', ''/proc'', ''/sys''] @
     map (\<lambda>p. (p, rw)) [''/tmp'', ''/var/tmp'', ''/run'', ''/dev'', ''/home/agent''] @
     map (\<lambda>d. (mnt_path d, ll_ro)) (ro_dirs C) @ map (\<lambda>d. (mnt_path d, rw)) (rw_dirs C) @
     map (\<lambda>d. (mnt_path d, rw)) (ov_dirs C) @ map (\<lambda>b. (b_dst b, if b_ro b then ll_ro else rw)) (binds C)"

definition ll_enforce :: "'h kern \<Rightarrow> cfg \<Rightarrow> u64 \<Rightarrow> 'h act" where
  "ll_enforce K C rw =
     run_acts (map (\<lambda>(p, a). ll_allow K p a) (ll_rules C rw) @
       [must K NoNewPrivs ''no_new_privs'', attempt K LandlockRestrict])"

definition landlock_apply :: "'h kern \<Rightarrow> ll_hdr \<Rightarrow> nat \<Rightarrow> cfg \<Rightarrow> 'h act" where
  "landlock_apply K H sz C w =
     (let (abi, w) = do_call K LandlockAbi w in
      if abi < 0 then (None, w)
      else
        let rw = ll_rw H abi; handled = rw;
            (fd, w) = try_create K handled [8, 16, 24, sz] w;
            (fd, w, rw) = (if fd < 0 then (let (fd, w) = do_call K (LandlockCreate ll_small 8) w in (fd, w, ll_small)) else (fd, w, rw))
        in if fd < 0 then (None, w) else ll_enforce K C rw w)"

end
