(* ===== verification/Jail_Init.thy ===== *)
theory Jail_Init
  imports Landlock Seccomp Sand_Client "HOL-Library.AList"
begin

text \<open>
  The first process of a cell, \<^verbatim>\<open>child_main\<close> of \<^verbatim>\<open>src/sand.c\<close>, from the message on the sync pipe to \<^verbatim>\<open>execvp\<close>,
  with \<^verbatim>\<open>net_lo_up\<close>, \<^verbatim>\<open>net_veth_up\<close> and the environment it builds. Every layer is an act on the log of calls, so that
  the order of the layers is the order of the log.
\<close>

subsection \<open>Network\<close>

definition net_lo_up :: "'h kern \<Rightarrow> 'h act" where
  "net_lo_up K w =
     (let (s, w) = do_call K (Net Socket) w in
      if s < 0 then (None, w)
      else if k_ifup K (snd w) ''lo'' = Some False then attempt K (Net (IfUp ''lo'')) w
      else (None, w))"

text \<open>The steps of \<^verbatim>\<open>net_veth_up\<close>; the first that fails jumps to \<^verbatim>\<open>out\<close>, and none is fatal.\<close>

fun run_until :: "'h kern \<Rightarrow> ('h \<Rightarrow> bool \<times> call option) list \<Rightarrow> 'h world \<Rightarrow> 'h world" where
  "run_until K [] w = w"
| "run_until K (f # fs) w =
     (case f (snd w) of
        (False, _) \<Rightarrow> w
      | (True, None) \<Rightarrow> run_until K fs w
      | (True, Some c) \<Rightarrow> let (r, w) = do_call K c w in if r < 0 then w else run_until K fs w)"

definition net_veth_up :: "'h kern \<Rightarrow> cfg \<Rightarrow> 'h act" where
  "net_veth_up K C w =
     (let i = snprintf_s 16 (veth_if C) in
      (None, run_until K
        [\<lambda>h. (True, Some (Net Socket)),
         \<lambda>h. (inet_pton4 (veth_ip C) \<noteq> None, Some (Net (IfAddr i (veth_ip C)))),
         \<lambda>h. (True, Some (Net (IfMask i ''255.255.255.252''))),
         \<lambda>h. (True, if k_ifup K h i = None then None else Some (Net (IfUp i))),
         \<lambda>h. (inet_pton4 (veth_gw C) \<noteq> None, Some (Net (AddRoute (veth_gw C) (veth_if C))))] w))"

subsection \<open>Environment\<close>

type_synonym environ = "(cstr \<times> cstr) list"

definition split_eq :: "cstr \<Rightarrow> cstr \<times> cstr" where
  "split_eq kv = (takeWhile (\<lambda>c. c \<noteq> CHR ''='') kv, drop 1 (dropWhile (\<lambda>c. c \<noteq> CHR ''='') kv))"

text \<open>\<^verbatim>\<open>setenv\<close> refuses an empty name; \<^verbatim>\<open>putenv\<close> of a string without an equals sign removes the variable.\<close>

definition setenv :: "cstr \<Rightarrow> cstr \<Rightarrow> environ \<Rightarrow> environ" where
  "setenv k v env = (if k = [] then env else AList.update k v env)"

definition putenv :: "cstr \<Rightarrow> environ \<Rightarrow> environ" where
  "putenv kv env =
     (if CHR ''='' \<in> set kv then (case split_eq kv of (k, v) \<Rightarrow> AList.update k v env) else AList.delete kv env)"

definition default_env :: environ where
  "default_env = [(''HOME'', ''/home/agent''), (''PATH'', ''/usr/bin:/bin''), (''TMPDIR'', ''/tmp''), (''SHELL'', ''/bin/bash''),
     (''LANG'', ''C.UTF-8''), (''TERM'', ''xterm-256color'')]"

definition jail_env :: "cstr list option \<Rightarrow> cfg \<Rightarrow> environ" where
  "jail_env envp C =
     (let base = (case envp of Some es \<Rightarrow> fold putenv es [] | None \<Rightarrow> fold (\<lambda>(k, v). setenv k v) default_env [])
      in fold (\<lambda>kv env. if CHR ''='' \<in> set kv then (case split_eq kv of (k, v) \<Rightarrow> setenv k v env) else env) (env_kv C) base)"

subsection \<open>The child\<close>

text \<open>What the child finds in the globals it inherits: the bytes on the sync pipe (none: the pipe was closed), the
  descriptors and environment of a library spawn, and whether it serves.\<close>

record child_in =
  sync_msg :: cstr
  spawn_fds :: "int \<times> int \<times> int"
  spawn_envp :: "cstr list option"
  serve :: bool

datatype child_end = Exit126 | Died cstr | Running

definition sync_veth :: "cstr \<Rightarrow> cfg \<Rightarrow> bool \<times> cfg" where
  "sync_veth msg C =
     (if netmode C = NET_VETH
      then let ws = fst (scan_words 3 (drop 1 (cut0 (take 159 msg)))) in (length ws = 3, put_veth ws C)
      else (False, C))"

definition swap_roots :: "'h kern \<Rightarrow> cstr \<Rightarrow> 'h act list" where
  "swap_roots K nr =
     [must K (Chdir nr) ''chdir newroot'', must K (PivotRoot ''.'' ''.put_old'') ''pivot_root'', must K (Chdir ''/'') ''chdir /'',
      attempt K (UmountDetach ''/.put_old''), attempt K (Rmdir ''/.put_old''),
      attempt K (Mount None ''/'' None [MS_BIND, MS_REMOUNT, MS_RDONLY] None)]"

definition seccomp_flags :: "bool \<Rightarrow> u64" where
  "seccomp_flags asking = (if asking then or SECCOMP_FILTER_FLAG_LOG SECCOMP_FILTER_FLAG_NEW_LISTENER else SECCOMP_FILTER_FLAG_LOG)"

definition jail_seccomp :: "'h kern \<Rightarrow> arch \<Rightarrow> cfg \<Rightarrow> 'h act list" where
  "jail_seccomp K a C =
     (let prog = seccomp_program a (ask C) in
      [must K NoNewPrivs ''no_new_privs'',
       must K (SeccompInstall (seccomp_flags (ask C)) (of_nat (length prog)) prog) ''seccomp install (--ask needs kernel >= 5.0)''])"

definition jail_stdio :: "'h kern \<Rightarrow> int \<times> int \<times> int \<Rightarrow> 'h act list" where
  "jail_stdio K fds =
     (case fds of (i, p, e) \<Rightarrow> if i \<ge> 0 then [attempt K (Dup2 i 0), attempt K (Dup2 p 1), attempt K (Dup2 e 2)] else [])"

definition jail_argv :: "cfg \<Rightarrow> cstr list" where
  "jail_argv C = (case argv C of Some av \<Rightarrow> av | None \<Rightarrow> [''/bin/bash''])"

definition jail_setup :: "'h kern \<Rightarrow> arch \<Rightarrow> ll_hdr \<Rightarrow> nat \<Rightarrow> cstr \<Rightarrow> child_in \<Rightarrow> cfg \<Rightarrow> bool \<Rightarrow> 'h act list" where
  "jail_setup K a H sz nr I C have_veth =
     [attempt K Unshare_cgroup, do_mounts K nr C] @ swap_roots K nr @
     (if no_landlock C then [] else [landlock_apply K H sz C]) @
     (if no_seccomp C then [] else jail_seccomp K a C @ (if ask C then [attempt K SendNotifyFd] else [])) @
     (if netmode C = NET_HOST then [] else net_lo_up K # (if have_veth then [net_veth_up K C] else [])) @
     [attempt K (Chdir ''/home/agent'')] @ jail_stdio K (spawn_fds I)"

definition child_main :: "'h kern \<Rightarrow> arch \<Rightarrow> ll_hdr \<Rightarrow> nat \<Rightarrow> cstr \<Rightarrow> child_in \<Rightarrow> cfg \<Rightarrow> 'h world \<Rightarrow> child_end \<times> 'h world" where
  "child_main K a H sz nr I C w =
     (let w = snd (do_call K Pdeathsig w) in
      if sync_msg I = [] then (Exit126, w)
      else
        let (have_veth, C) = sync_veth (sync_msg I) C in
        case run_acts (jail_setup K a H sz nr I C have_veth) w of
          (Some m, w) \<Rightarrow> (Died m, w)
        | (None, w) \<Rightarrow>
            if serve I then (Running, snd (do_call K JailServer w))
            else (case must K (Exec (jail_argv C) (jail_env (spawn_envp I) C)) ''execvp'' w of
                    (Some m, w) \<Rightarrow> (Died m, w)
                  | (None, w) \<Rightarrow> (Running, w)))"

text \<open>The two acts of the filter are \<^verbatim>\<open>seccomp_apply\<close> with the kernel's answers filled in.\<close>

lemma jail_seccomp_apply:
  "fst (run_acts (jail_seccomp K a C) w) =
     (case seccomp_apply a (ask C) (fst (do_call K NoNewPrivs w))
        (\<lambda>fl n prog. fst (do_call K (SeccompInstall fl n prog) (snd (do_call K NoNewPrivs w)))) of Inl m \<Rightarrow> Some m | Inr _ \<Rightarrow> None)"
  by (auto simp: jail_seccomp_def seccomp_apply_def seccomp_flags_def must_def Let_def case_prod_beta split: option.split prod.split)

end
