(* ===== verification/Cgroup.thy ===== *)
theory Cgroup
  imports Jail_Init
begin

text \<open>
  The resource limits of a cell: \<^verbatim>\<open>write_file\<close> and \<^verbatim>\<open>cgroup_setup\<close> of \<^verbatim>\<open>src/sand.c\<close>. \<open>pid\<close> is \<^verbatim>\<open>getpid()\<close>; the result
  is \<^verbatim>\<open>g_cgpath\<close> and \<^verbatim>\<open>g_have_cg\<close>.
\<close>

definition write_file :: "'h kern \<Rightarrow> cstr \<Rightarrow> cstr \<Rightarrow> 'h act" where
  "write_file K path v w =
     (let (fd, w) = do_call K (Sup (OpenWrite path)) w in
      if fd < 0 then (None, w) else attempt K (WriteFile path v) w)"

text \<open>\<^verbatim>\<open>fgets\<close> on a whole text with a buffer of \<open>Suc n\<close> bytes.\<close>

function fgets_n :: "nat \<Rightarrow> cstr \<Rightarrow> cstr list" where
  "fgets_n n s =
     (if s = [] \<or> n = 0 then []
      else let l = takeWhile (\<lambda>c. c \<noteq> CHR 0x0A) s;
               piece = take n (if length l < length s then l @ [CHR 0x0A] else l)
           in piece # fgets_n n (drop (length piece) s))"
  by pat_completeness auto
termination
proof (relation "measure (\<lambda>(n, s). length s)")
  fix n and s l piece :: cstr
  assume a: "\<not> (s = [] \<or> n = 0)" "l = takeWhile (\<lambda>c. c \<noteq> CHR 0x0A) s" "piece = take n (if length l < length s then l @ [CHR 0x0A] else l)"
  then have "0 < length piece" by (cases s) auto
  then show "((n, drop (length piece) s), n, s) \<in> measure (\<lambda>(n, s). length s)" using a(1) by auto
qed simp

declare fgets_n.simps [simp del]

text \<open>The last line that starts with \<^verbatim>\<open>0::\<close>, without its newline.\<close>

definition own_cgroup :: "cstr \<Rightarrow> cstr" where
  "own_cgroup text =
     foldl (\<lambda>self line. if starts ''0::'' line then takeWhile (\<lambda>c. c \<noteq> CHR 0x0A) (drop 3 line) else self) []
       (fgets_n 511 text)"

fun strstr :: "cstr \<Rightarrow> cstr \<Rightarrow> (cstr \<times> cstr) option" where
  "strstr pat s =
     (if starts pat s then Some ([], s)
      else case s of [] \<Rightarrow> None | c # s' \<Rightarrow> map_option (\<lambda>(a, b). (c # a, b)) (strstr pat s'))"

declare strstr.simps [simp del]

definition cgroup_base :: "cstr \<Rightarrow> cstr" where
  "cgroup_base base =
     (case strstr ''.service'' base of
        Some (pre, svc) \<Rightarrow>
          let after = drop 8 svc
          in if after \<noteq> [] \<and> hd after = CHR ''/'' then pre @ ''.service'' else base
      | None \<Rightarrow>
          (case strstr ''/user@'' base of
             Some (pre, usr) \<Rightarrow> pre @ take 1 usr @ takeWhile (\<lambda>c. c \<noteq> CHR ''/'') (drop 1 usr)
           | None \<Rightarrow> base))"

definition io_limits :: "nat \<times> nat \<Rightarrow> cfg \<Rightarrow> cstr" where
  "io_limits dev C =
     snprintf_s 64 (dec (fst dev) @ '':'' @ dec (snd dev) @
       (if io_rbps C \<noteq> 0 then '' rbps='' @ dec_int (io_rbps C) else []) @
       (if io_wbps C \<noteq> 0 then '' wbps='' @ dec_int (io_wbps C) else []))"

definition write_limits :: "'h kern \<Rightarrow> cstr \<Rightarrow> cfg \<Rightarrow> 'h act list" where
  "write_limits K cg C =
     [write_file K (snprintf_s PATH_MAX (cg @ ''/cpu.max'')) (cpu_max C),
      write_file K (snprintf_s PATH_MAX (cg @ ''/memory.max'')) (snprintf_s 64 (dec_int (mem_bytes C))),
      write_file K (snprintf_s PATH_MAX (cg @ ''/pids.max'')) (snprintf_s 64 (dec_int (pids C)))] @
     (if io_rbps C \<noteq> 0 \<or> io_wbps C \<noteq> 0
      then [\<lambda>w. case k_dev K (snd w) (workdir C) of
              None \<Rightarrow> (None, w)
            | Some dev \<Rightarrow> write_file K (snprintf_s PATH_MAX (cg @ ''/io.max'')) (io_limits dev C) w]
      else [])"

definition arm_controllers :: "'h kern \<Rightarrow> cstr \<Rightarrow> cfg \<Rightarrow> 'h act list" where
  "arm_controllers K base C =
     (let ctl = snprintf_s PATH_MAX (base @ ''/cgroup.subtree_control'')
      in [write_file K ctl ''+cpu +memory +pids''] @
         (if io_rbps C \<noteq> 0 \<or> io_wbps C \<noteq> 0 then [write_file K ctl ''+io''] else []))"

definition cgroup_make :: "'h kern \<Rightarrow> int \<Rightarrow> cfg \<Rightarrow> cstr \<Rightarrow> 'h world \<Rightarrow> (cstr \<times> bool) \<times> 'h world" where
  "cgroup_make K pid C base w =
     (let w = snd (run_acts (arm_controllers K base C) w);
          cg = snprintf_s PATH_MAX (base @ ''/agentcell-'' @ dec_int pid);
          (r, w) = do_call K (Mkdir cg m0755) w
      in if r < 0 then ((cg, False), w) else ((cg, True), snd (run_acts (write_limits K cg C) w)))"

definition cgroup_setup :: "'h kern \<Rightarrow> int \<Rightarrow> cfg \<Rightarrow> 'h world \<Rightarrow> (cstr \<times> bool) \<times> 'h world" where
  "cgroup_setup K pid C w =
     (case k_read K (snd w) ''/proc/self/cgroup'' of
        None \<Rightarrow> (([], False), w)
      | Some text \<Rightarrow>
          let self = own_cgroup text in
          if self = [] then (([], False), w)
          else cgroup_make K pid C (cgroup_base (snprintf_s PATH_MAX (''/sys/fs/cgroup'' @ self))) w)"

end

