(* ===== verification/Launch.thy ===== *)
theory Launch
  imports Cgroup Exec_Wire
begin

text \<open>
  The parent: \<^verbatim>\<open>write_uid_maps\<close> and the second half of \<^verbatim>\<open>main\<close> in \<^verbatim>\<open>src/sand.c\<close>, from the cell's root directory to the
  message that releases the child, and the loops that wait for it. The daemon's answers are arguments
  (\<open>daemon_in\<close>); a request to it is noted in the log with its outcome.
\<close>

record daemon_in =
  d_fs :: "cstr \<Rightarrow> cstr option"
  d_talk :: "cstr \<Rightarrow> cstr option"
  d_cgid :: "u64 option"
  d_up :: bool
  d_reps :: "cstr option list"

definition log_note :: "sup_call \<Rightarrow> int \<Rightarrow> 'h world \<Rightarrow> 'h world" where
  "log_note c r w = (fst w @ [(Sup c, r)], snd w)"

definition proc_path :: "int \<Rightarrow> cstr \<Rightarrow> cstr" where
  "proc_path pid f = snprintf_s 128 (''/proc/'' @ dec_int pid @ f)"

definition id_map :: "int \<Rightarrow> cstr" where
  "id_map i = snprintf_s 128 (''0 '' @ dec_int i @ '' 1'' @ [CHR 0x0A])"

definition write_uid_maps :: "'h kern \<Rightarrow> int \<Rightarrow> int \<Rightarrow> int \<Rightarrow> 'h act list" where
  "write_uid_maps K uid gid pid =
     [write_file K (proc_path pid ''/setgroups'') ''deny'',
      must K (Sup (OpenWrite (proc_path pid ''/uid_map''))) ''open uid_map'',
      must K (WriteFile (proc_path pid ''/uid_map'') (id_map uid)) ''write uid_map'',
      must K (Sup (OpenWrite (proc_path pid ''/gid_map''))) ''open gid_map'',
      must K (WriteFile (proc_path pid ''/gid_map'') (id_map gid)) ''write gid_map'']"

definition park :: "'h kern \<Rightarrow> cstr \<times> bool \<Rightarrow> int \<Rightarrow> 'h act list" where
  "park K cg pid =
     (if snd cg then [write_file K (snprintf_s PATH_MAX (fst cg @ ''/cgroup.procs'')) (snprintf_s 32 (dec_int pid))] else [])"

text \<open>The registrations. \<open>lsm_on\<close> is \<^verbatim>\<open>g_lsm_on\<close>.\<close>

definition register_lsm :: "daemon_in \<Rightarrow> cfg \<Rightarrow> cstr \<times> bool \<Rightarrow> 'h world \<Rightarrow> bool \<times> 'h world" where
  "register_lsm D C cg w =
     (if secure C \<and> snd cg
      then let on = snd (lsm_register (d_cgid D) (d_up D) (d_reps D) C)
           in (on, log_note (LsmAdds (case d_cgid D of Some c \<Rightarrow> c | None \<Rightarrow> 0)) (if on then 0 else - 1) w)
      else (False, w))"

definition unregister_lsm :: "daemon_in \<Rightarrow> bool \<Rightarrow> 'h world \<Rightarrow> 'h world" where
  "unregister_lsm D lsm_on w =
     (case lsm_unregister lsm_on (case d_cgid D of Some c \<Rightarrow> c | None \<Rightarrow> 0) of
        (Some cmd, _) \<Rightarrow> log_note (sup_call.LsmClr (case d_cgid D of Some c \<Rightarrow> c | None \<Rightarrow> 0)) 0 w
      | (None, _) \<Rightarrow> w)"

definition register_veth :: "daemon_in \<Rightarrow> int \<Rightarrow> cfg \<Rightarrow> 'h world \<Rightarrow> int \<times> cfg \<times> 'h world" where
  "register_veth D pid C w =
     (if netmode C = NET_VETH
      then let (vr, C) = net_veth_register (d_fs D) (d_talk D) pid C in (vr, C, log_note (NetUp pid) vr w)
      else (0, C, w))"

definition sync_text :: "nat \<Rightarrow> cfg \<Rightarrow> cstr" where
  "sync_text n C =
     (if veth_on C then snprintf_s n (''x '' @ veth_if C @ '' '' @ veth_ip C @ '' '' @ veth_gw C) else ''x'')"

definition give_up :: "'h kern \<Rightarrow> daemon_in \<Rightarrow> int \<Rightarrow> cfg \<Rightarrow> cstr \<times> bool \<Rightarrow> bool \<Rightarrow> 'h world \<Rightarrow> 'h world" where
  "give_up K D pid C cg lsm_on w =
     (let w = snd (do_call K (Sup (Kill pid)) w);
          w = snd (do_call K (Sup (WaitFor pid)) w);
          w = (if secure C \<and> snd cg then unregister_lsm D lsm_on w else w);
          w = (if snd cg then snd (do_call K (Rmdir (fst cg)) w) else w)
      in log_note (Exit 127) 0 w)"

datatype launch_end = LDied cstr | LExit int | LStarted int cfg "cstr \<times> bool" bool

text \<open>From \<^verbatim>\<open>mkdtemp\<close> to the clone.\<close>

definition launch_prepare :: "'h kern \<Rightarrow> bool \<Rightarrow> cfg \<Rightarrow> 'h act list" where
  "launch_prepare K serving C =
     [must K (Sup Pipe) ''pipe''] @ (if serving then [must K (Sup SocketPair) ''socketpair''] else []) @
     (if ask C then [must K (Sup SocketPair) ''socketpair''] else [])"

text \<open>From the clone to the release; \<open>strict\<close> says whether an unconfirmed allowlist ends the cell.\<close>

definition release_child :: "'h kern \<Rightarrow> daemon_in \<Rightarrow> nat \<Rightarrow> int \<Rightarrow> int \<Rightarrow> bool \<Rightarrow> int \<Rightarrow> cfg \<Rightarrow> cstr \<times> bool \<Rightarrow> 'h world \<Rightarrow> launch_end \<times> 'h world" where
  "release_child K D n uid gid strict pid C cg w =
     (case run_acts (write_uid_maps K uid gid pid @ park K cg pid) w of
        (Some m, w) \<Rightarrow> (LDied m, w)
      | (None, w) \<Rightarrow>
          let (lsm_on, w) = register_lsm D C cg w;
              (vr, C, w) = register_veth D pid C w
          in if strict \<and> vr = - 2 then (LExit 127, give_up K D pid C cg lsm_on w)
             else (LStarted pid C cg lsm_on, snd (do_call K (Sup (SyncChild (sync_text n C))) w)))"

definition launch :: "'h kern \<Rightarrow> daemon_in \<Rightarrow> int \<Rightarrow> int \<Rightarrow> int \<Rightarrow> bool \<Rightarrow> cfg \<Rightarrow> 'h world \<Rightarrow> launch_end \<times> 'h world" where
  "launch K D self uid gid serving C w =
     (case must K (Sup (Mkdtemp ''/tmp/agentcell-root.XXXXXX'')) ''mkdtemp'' w of
        (Some m, w) \<Rightarrow> (LDied m, w)
      | (None, w) \<Rightarrow>
          let (cg, w) = cgroup_setup K self C w in
          case run_acts (launch_prepare K serving C) w of
            (Some m, w) \<Rightarrow> (LDied m, w)
          | (None, w) \<Rightarrow>
              let (pid, w) = do_call K (Sup (Clone (netmode C \<noteq> NET_HOST))) w
              in if pid < 0 then (LDied ''clone (userns disabled? sysctl kernel.unprivileged_userns_clone)'', w)
                 else case release_child K D 160 uid gid True pid C cg w of
                   (LStarted p C cg on, w) \<Rightarrow>
                     (LStarted p C cg on, if ask C then snd (do_call K (Sup RecvListener) w) else w)
                 | r \<Rightarrow> r)"

subsection \<open>Waiting\<close>

text \<open>\<open>alive i\<close> says whether the payload still runs at the \<open>i\<close>-th look. The loop of \<^verbatim>\<open>--timeout\<close>: whether it killed, and how
  many seconds it slept.\<close>

function wait_timeout :: "(nat \<Rightarrow> bool) \<Rightarrow> int \<Rightarrow> nat \<Rightarrow> bool \<times> nat" where
  "wait_timeout alive left i =
     (if \<not> alive i then (False, i)
      else if left \<le> 0 then (True, i)
      else wait_timeout alive (left - 1) (Suc i))"
  by pat_completeness auto
termination by (relation "measure (\<lambda>(alive, left, i). nat left)") auto

declare wait_timeout.simps [simp del]

text \<open>The loop of \<^verbatim>\<open>--ask\<close>: \<open>clock i\<close> is \<^verbatim>\<open>time(NULL)\<close> at the \<open>i\<close>-th look. It has no bound of its own.\<close>

partial_function (option) wait_ask :: "(nat \<Rightarrow> bool) \<Rightarrow> (nat \<Rightarrow> int) \<Rightarrow> int \<Rightarrow> int \<Rightarrow> nat \<Rightarrow> (bool \<times> nat) option" where
  "wait_ask alive clock t0 limit i =
     (if \<not> alive i then Some (False, i)
      else if limit > 0 \<and> clock i - t0 \<ge> limit then Some (True, i)
      else wait_ask alive clock t0 limit (Suc i))"

definition exit_status :: "wstatus \<Rightarrow> int" where
  "exit_status st = (case st of Exited c \<Rightarrow> int (unat c) | Signaled s \<Rightarrow> 128 + int s | Stopped \<Rightarrow> 128)"

text \<open>What is undone when the payload has ended.\<close>

definition clean_up :: "'h kern \<Rightarrow> daemon_in \<Rightarrow> cstr \<Rightarrow> int \<Rightarrow> cfg \<Rightarrow> cstr \<times> bool \<Rightarrow> bool \<Rightarrow> 'h world \<Rightarrow> 'h world" where
  "clean_up K D nr pid C cg lsm_on w =
     (let w = (if snd cg then snd (do_call K (Rmdir (fst cg)) w) else w);
          w = unregister_lsm D lsm_on w;
          w = (case net_veth_unregister pid C of (Some cmd, _) \<Rightarrow> log_note (NetDown pid) 0 w | (None, _) \<Rightarrow> w)
      in snd (do_call K (Rmdir nr) w))"

end
