(* ===== verification/Options.thy ===== *)
theory Options
  imports Launch
begin

text \<open>
  The command line of \<^verbatim>\<open>sand\<close>: the first half of \<^verbatim>\<open>main\<close> in \<^verbatim>\<open>src/sand.c\<close>, from the subcommand to the launch.
  \<open>next_opt\<close> is \<^verbatim>\<open>getopt_long\<close> for the option string \<^verbatim>\<open>"+"\<close>, which has no short options and stops at the first
  operand. What the process is given is a record \<open>opt_env\<close>; the two floating-point computations are functions in it.
\<close>

subsection \<open>Long options\<close>

datatype opt =
    OMem | OCpu | OPids | ONet | ORootfs | OSock | OWorkdir | ORo | ORw | OOverlay | OBind | OBindRo | OTimeout | OIoR | OIoW
  | OEgress | OEnv | OEnvFile | OSecret | OWorkdirSize | OCapabilities | OAsk | OSecure | ODeny | ONoLandlock | ONoSeccomp | OHelp

text \<open>A name, whether an argument is required, and what is returned or set.\<close>

definition opts :: "(cstr \<times> bool \<times> opt) list" where
  "opts =
    [(''mem'', True, OMem), (''cpu'', True, OCpu), (''pids'', True, OPids), (''net'', True, ONet), (''rootfs'', True, ORootfs),
     (''sock'', True, OSock), (''workdir'', True, OWorkdir), (''ro'', True, ORo), (''rw'', True, ORw), (''overlay'', True, OOverlay),
     (''bind'', True, OBind), (''bind-ro'', True, OBindRo), (''timeout'', True, OTimeout), (''overlay'', True, OOverlay),
     (''io-rbps'', True, OIoR), (''io-wbps'', True, OIoW), (''egress'', True, OEgress), (''env'', True, OEnv),
     (''env-file'', True, OEnvFile), (''secret'', True, OSecret), (''workdir-size'', True, OWorkdirSize),
     (''capabilities'', False, OCapabilities), (''ask'', False, OAsk), (''secure'', False, OSecure), (''deny'', True, ODeny),
     (''no-landlock'', False, ONoLandlock), (''no-seccomp'', False, ONoSeccomp), (''help'', False, OHelp)]"

text \<open>An exact name wins; otherwise the name may be cut short as long as all candidates mean the same.\<close>

definition match_opt :: "cstr \<Rightarrow> (bool \<times> opt) option" where
  "match_opt name =
     (case filter (\<lambda>e. fst e = name) opts of
        e # _ \<Rightarrow> Some (snd e)
      | [] \<Rightarrow> (case remdups (map snd (filter (\<lambda>e. starts name (fst e)) opts)) of [v] \<Rightarrow> Some v | _ \<Rightarrow> None))"

datatype getopt = GEnd "cstr list" | GBad | GOpt opt cstr "cstr list"

fun next_opt :: "cstr list \<Rightarrow> getopt" where
  "next_opt [] = GEnd []"
| "next_opt (a # rest) =
     (if a = ''--'' then GEnd rest
      else if \<not> starts ''-'' a \<or> a = ''-'' then GEnd (a # rest)
      else if \<not> starts ''--'' a then GBad
      else
        let body = drop 2 a; name = takeWhile (\<lambda>c. c \<noteq> CHR ''='') body; given = length name < length body
        in case match_opt name of
             None \<Rightarrow> GBad
           | Some (True, v) \<Rightarrow>
               if given then GOpt v (drop (Suc (length name)) body) rest
               else (case rest of [] \<Rightarrow> GBad | b # rest' \<Rightarrow> GOpt v b rest')
           | Some (False, v) \<Rightarrow> if given then GBad else GOpt v [] rest)"

subsection \<open>The switch\<close>

record opt_env =
  oe_home :: "cstr option"
  oe_cwd :: "cstr option"
  oe_isdir :: "cstr \<Rightarrow> bool"
  oe_quota :: "cstr \<Rightarrow> int option"
  oe_frac :: "int \<Rightarrow> int"

text \<open>\<open>oe_quota\<close> is \<^verbatim>\<open>(long)(atof(s) * 100000)\<close>, or \<open>None\<close> where \<^verbatim>\<open>atof(s) <= 0\<close>; \<open>oe_frac\<close> is the share of the memory.
  An option goes on, ends the program with a status, or calls \<^verbatim>\<open>die\<close>.\<close>

datatype opt_res = Go cfg | Quit int | Dies cstr

definition mem_opt :: "cstr \<Rightarrow> (int \<Rightarrow> cfg) \<Rightarrow> opt_res" where
  "mem_opt s upd =
     (case parse_mem s of
        Some v \<Rightarrow> Go (upd v)
      | None \<Rightarrow> Dies (if strtol s = None then ''bad --mem value'' else ''bad --mem suffix''))"

definition path_opt :: "'h kern \<Rightarrow> 'h \<Rightarrow> cstr \<Rightarrow> (cstr \<Rightarrow> cfg) \<Rightarrow> opt_res" where
  "path_opt K h s upd = (case k_realpath K h s of Some r \<Rightarrow> Go (upd r) | None \<Rightarrow> Dies s)"

definition add_max :: "cstr \<Rightarrow> cstr list \<Rightarrow> cstr list" where
  "add_max s l = (if length l < MAXBIND then l @ [s] else l)"

definition cpu_opt :: "opt_env \<Rightarrow> cstr \<Rightarrow> cstr" where
  "cpu_opt E s = snprintf_s 64 (case oe_quota E s of None \<Rightarrow> ''max 100000'' | Some q \<Rightarrow> dec_int q @ '' 100000'')"

definition net_opt :: "cstr \<Rightarrow> cfg \<Rightarrow> opt_res" where
  "net_opt s C =
     (if s = ''host'' then Go (C\<lparr>netmode := NET_HOST\<rparr>)
      else if s = ''veth'' then Go (C\<lparr>netmode := NET_VETH\<rparr>)
      else if s = ''none'' then Go C else Quit 2)"

text \<open>Trailing slashes go, but never the first character.\<close>

definition strip_slashes :: "cstr \<Rightarrow> cstr" where
  "strip_slashes d = take 1 d @ rev (dropWhile (\<lambda>c. c = CHR ''/'') (rev (drop 1 d)))"

definition bind_opt :: "'h kern \<Rightarrow> 'h \<Rightarrow> bool \<Rightarrow> cstr \<Rightarrow> cfg \<Rightarrow> opt_res" where
  "bind_opt K h ro s C =
     (if length (binds C) \<ge> MAXBIND then Go C
      else
        let src = takeWhile (\<lambda>c. c \<noteq> CHR '':'') s; dst = drop (Suc (length src)) s
        in if CHR '':'' \<notin> set s \<or> src = [] \<or> \<not> starts ''/'' dst then Quit 2
           else path_opt K h src
             (\<lambda>r. C\<lparr>binds := binds C @ [\<lparr>b_src = r, b_dst = strip_slashes (snprintf_s PATH_MAX dst), b_ro = ro\<rparr>]\<rparr>))"

definition sock_opt :: "opt_env \<Rightarrow> cstr \<Rightarrow> cfg \<Rightarrow> opt_res" where
  "sock_opt E s C =
     (if starts ''/'' s then Go (C\<lparr>sock := snprintf_s PATH_MAX s\<rparr>)
      else case oe_cwd E of None \<Rightarrow> Dies ''getcwd''
           | Some cwd \<Rightarrow> Go (C\<lparr>sock := snprintf_s PATH_MAX (cwd @ ''/'' @ s)\<rparr>))"

definition deny_opt :: "cstr \<Rightarrow> cfg \<Rightarrow> cfg" where
  "deny_opt s C = C\<lparr>deny_pfx := add_max (snprintf_s 256 s) (deny_pfx C), secure := True\<rparr>"

definition checked :: "int \<Rightarrow> int \<times> cfg \<Rightarrow> opt_res" where
  "checked n r = (if fst r \<noteq> 0 then Quit n else Go (snd r))"

fun apply_opt :: "'h kern \<Rightarrow> 'h \<Rightarrow> opt_env \<Rightarrow> opt \<Rightarrow> cstr \<Rightarrow> cfg \<Rightarrow> opt_res" where
  "apply_opt K h E OMem s C = mem_opt s (\<lambda>n. C\<lparr>mem_bytes := n\<rparr>)"
| "apply_opt K h E OCpu s C = Go (C\<lparr>cpu_max := cpu_opt E s\<rparr>)"
| "apply_opt K h E OPids s C = Go (C\<lparr>pids := sint (atoi s)\<rparr>)"
| "apply_opt K h E ONet s C = net_opt s C"
| "apply_opt K h E OWorkdir s C = path_opt K h s (\<lambda>r. C\<lparr>workdir := r\<rparr>)"
| "apply_opt K h E ORo s C = Go (C\<lparr>ro_dirs := add_max s (ro_dirs C)\<rparr>)"
| "apply_opt K h E ORw s C = Go (C\<lparr>rw_dirs := add_max s (rw_dirs C)\<rparr>)"
| "apply_opt K h E OOverlay s C = Go (C\<lparr>ov_dirs := add_max s (ov_dirs C)\<rparr>)"
| "apply_opt K h E OBind s C = bind_opt K h False s C"
| "apply_opt K h E OBindRo s C = bind_opt K h True s C"
| "apply_opt K h E OTimeout s C = Go (C\<lparr>timeout := sint (atoi s)\<rparr>)"
| "apply_opt K h E OIoR s C = mem_opt s (\<lambda>n. C\<lparr>io_rbps := n\<rparr>)"
| "apply_opt K h E OIoW s C = mem_opt s (\<lambda>n. C\<lparr>io_wbps := n\<rparr>)"
| "apply_opt K h E ORootfs s C = path_opt K h s (\<lambda>r. C\<lparr>rootfs := r\<rparr>)"
| "apply_opt K h E OSock s C = sock_opt E s C"
| "apply_opt K h E OEgress s C = checked 2 (egress_add s C)"
| "apply_opt K h E OEnv s C = Go (env_add s C)"
| "apply_opt K h E OEnvFile s C = (let (rc, C) = env_file_load (k_read K h) s C in if rc \<noteq> 0 then Dies s else Go C)"
| "apply_opt K h E OSecret s C = checked 2 (secret_add (k_read K h) s C)"
| "apply_opt K h E OWorkdirSize s C = mem_opt s (\<lambda>n. C\<lparr>workdir_size := n\<rparr>)"
| "apply_opt K h E OCapabilities s C = Quit 0"
| "apply_opt K h E ODeny s C = Go (deny_opt s C)"
| "apply_opt K h E OHelp s C = Quit 0"
| "apply_opt K h E OAsk s C = Go (C\<lparr>ask := True\<rparr>)"
| "apply_opt K h E OSecure s C = Go (C\<lparr>secure := True\<rparr>)"
| "apply_opt K h E ONoLandlock s C = Go (C\<lparr>no_landlock := True\<rparr>)"
| "apply_opt K h E ONoSeccomp s C = Go (C\<lparr>no_seccomp := True\<rparr>)"

lemma next_opt_shorter: "next_opt args = GOpt v s rest \<Longrightarrow> length rest < length args"
  by (cases args) (auto simp: Let_def split: if_splits option.splits prod.splits bool.splits list.splits)

text \<open>The loop: the operands that are left, and the configuration.\<close>

function parse_opts :: "'h kern \<Rightarrow> 'h \<Rightarrow> opt_env \<Rightarrow> cstr list \<Rightarrow> cfg \<Rightarrow> cstr list \<times> opt_res" where
  "parse_opts K h E args C =
     (case next_opt args of
        GEnd rest \<Rightarrow> (rest, Go C)
      | GBad \<Rightarrow> ([], Quit 2)
      | GOpt v s rest \<Rightarrow> (case apply_opt K h E v s C of Go C \<Rightarrow> parse_opts K h E rest C | r \<Rightarrow> ([], r)))"
  by pat_completeness auto
termination by (relation "measure (\<lambda>(K, h, E, args, C). length args)") (auto simp: next_opt_shorter)

declare parse_opts.simps [simp del]

subsection \<open>After the loop\<close>

definition check_opts :: "opt_env \<Rightarrow> bool \<Rightarrow> cstr list \<Rightarrow> cfg \<Rightarrow> opt_res" where
  "check_opts E serving rest C =
     (if serving \<and> ask C then Quit 2
      else
        let C = (if ask C \<and> no_seccomp C then C\<lparr>ask := False\<rparr> else C)
        in if rootfs C \<noteq> [] \<and> \<not> oe_isdir E (rootfs C) then Quit 2
           else Go (if rest = [] then C else C\<lparr>argv := Some rest\<rparr>))"

definition default_workdir :: "'h kern \<Rightarrow> opt_env \<Rightarrow> cfg \<Rightarrow> 'h world \<Rightarrow> opt_res \<times> 'h world" where
  "default_workdir K E C w =
     (let def = snprintf_s PATH_MAX ((case oe_home E of Some d \<Rightarrow> d | None \<Rightarrow> ''/tmp'') @ ''/agent-work'') in
      case mmkdir_p K def m0755 w of
        (Some m, w) \<Rightarrow> (Dies m, w)
      | (None, w) \<Rightarrow> (path_opt K (snd w) def (\<lambda>r. C\<lparr>workdir := r\<rparr>), w))"

fun resolve_all :: "(cstr \<Rightarrow> cstr option) \<Rightarrow> cstr list \<Rightarrow> cstr + cstr list" where
  "resolve_all f [] = Inr []"
| "resolve_all f (d # ds) =
     (case f d of None \<Rightarrow> Inl d | Some r \<Rightarrow> (case resolve_all f ds of Inl e \<Rightarrow> Inl e | Inr rs \<Rightarrow> Inr (r # rs)))"

definition resolve_dirs :: "(cstr \<Rightarrow> cstr option) \<Rightarrow> cfg \<Rightarrow> opt_res" where
  "resolve_dirs f C =
     (case resolve_all f (ro_dirs C) of Inl e \<Rightarrow> Dies e | Inr ro \<Rightarrow>
      case resolve_all f (rw_dirs C) of Inl e \<Rightarrow> Dies e | Inr rw \<Rightarrow>
      case resolve_all f (ov_dirs C) of Inl e \<Rightarrow> Dies e | Inr ov \<Rightarrow>
        Go (C\<lparr>ro_dirs := ro, rw_dirs := rw, ov_dirs := ov\<rparr>))"

text \<open>The scan of \<^verbatim>\<open>/proc/meminfo\<close> with \<^verbatim>\<open>"%63s %ld kB"\<close>: whether the line was found, and the last number read.\<close>

definition skip_kB :: "cstr \<Rightarrow> cstr" where
  "skip_kB s =
     (case dropWhile isspace s of
        c # r \<Rightarrow> if c \<noteq> CHR ''k'' then c # r else (case r of d # r' \<Rightarrow> if d = CHR ''B'' then r' else r | [] \<Rightarrow> [])
      | [] \<Rightarrow> [])"

lemma skip_kB_length: "length (skip_kB s) \<le> length s"
  using length_dropWhile_le[of isspace s] by (auto simp: skip_kB_def split: list.split)

lemma scan_s_length: "scan_s n s = Some (k, r) \<Longrightarrow> length r < length s"
proof -
  assume a: "scan_s n s = Some (k, r)"
  then have "k \<noteq> []" "k = take n (takeWhile (\<lambda>c. \<not> isspace c) (dropWhile isspace s))" "r = drop (length k) (dropWhile isspace s)"
    by (auto simp: scan_s_def Let_def split: if_splits)
  then show ?thesis using length_dropWhile_le[of isspace s] by (cases "dropWhile isspace s") auto
qed

lemma scan_ld_length: "scan_ld s = Some (v, r) \<Longrightarrow> length r \<le> length s"
proof -
  assume a: "scan_ld s = Some (v, r)"
  let ?s1 = "dropWhile isspace s"
  have "r = dropWhile isdigit ?s1 \<or> r = dropWhile isdigit (tl ?s1)"
    using a by (cases ?s1) (auto simp: scan_ld_def strtol_def scan_num_def Let_def split: if_splits)
  then show ?thesis
    using length_dropWhile_le[of isdigit ?s1] length_dropWhile_le[of isdigit "tl ?s1"] length_dropWhile_le[of isspace s] by auto
qed

function mem_scan :: "int \<Rightarrow> cstr \<Rightarrow> bool \<times> int" where
  "mem_scan v s =
     (case scan_s 63 s of
        None \<Rightarrow> (False, v)
      | Some (k, s1) \<Rightarrow>
          (case scan_ld s1 of
             None \<Rightarrow> (False, v)
           | Some (v', s2) \<Rightarrow> if k = ''MemTotal:'' then (True, v') else mem_scan v' (skip_kB s2)))"
  by pat_completeness auto
termination
proof (relation "measure (\<lambda>(v, s). length s)")
  fix s :: cstr and x :: "cstr \<times> cstr" and k s1 and y :: "int \<times> cstr" and v v' s2
  assume "scan_s 63 s = Some x" "(k, s1) = x" "scan_ld s1 = Some y" "(v', s2) = y"
  then show "((v', skip_kB s2), v, s) \<in> measure (\<lambda>(v, s). length s)"
    using scan_s_length[of 63 s k s1] scan_ld_length[of s1 v' s2] skip_kB_length[of s2] by auto
qed simp

declare mem_scan.simps [simp del]

definition default_mem :: "'h kern \<Rightarrow> 'h \<Rightarrow> opt_env \<Rightarrow> cfg \<Rightarrow> cfg" where
  "default_mem K h E C =
     (case k_read K h ''/proc/meminfo'' of
        None \<Rightarrow> C
      | Some text \<Rightarrow> let (found, v) = mem_scan 0 text in if found then C\<lparr>mem_bytes := oe_frac E v\<rparr> else C)"

datatype command = CmdExec "cstr list" | CmdCells | CmdTop "cstr option" | CmdLsm "cstr list" | CmdRun bool "cstr list"

fun subcommand :: "cstr list \<Rightarrow> command" where
  "subcommand [] = CmdRun False []"
| "subcommand (a # rest) =
     (if a = ''exec'' then CmdExec rest
      else if a = ''cells'' then CmdCells
      else if a = ''top'' then CmdTop (case rest of [] \<Rightarrow> None | s # _ \<Rightarrow> Some s)
      else if a = ''lsm'' then CmdLsm rest
      else if a = ''serve'' then CmdRun True rest
      else CmdRun False (a # rest))"

text \<open>The options as a whole, and the start of a cell from its command line.\<close>

definition configure :: "'h kern \<Rightarrow> opt_env \<Rightarrow> bool \<Rightarrow> cstr list \<Rightarrow> 'h world \<Rightarrow> opt_res \<times> 'h world" where
  "configure K E serving args w =
     (let (rest, r) = parse_opts K (snd w) E args (default_mem K (snd w) E cfg_init) in
      case r of Go C \<Rightarrow>
        (case check_opts E serving rest C of
           Go C \<Rightarrow>
             (case (if workdir C = [] then default_workdir K E C w else (Go C, w)) of
                (Go C, w) \<Rightarrow> (resolve_dirs (k_realpath K (snd w)) C, w)
              | r \<Rightarrow> r)
         | r \<Rightarrow> (r, w))
      | r \<Rightarrow> (r, w))"

definition start_cell :: "'h kern \<Rightarrow> daemon_in \<Rightarrow> opt_env \<Rightarrow> int \<Rightarrow> int \<Rightarrow> int \<Rightarrow> bool \<Rightarrow> cstr list \<Rightarrow> 'h world \<Rightarrow> launch_end \<times> 'h world" where
  "start_cell K D E self uid gid serving args w =
     (case configure K E serving args w of
        (Go C, w) \<Rightarrow> launch K D self uid gid serving C w
      | (Quit n, w) \<Rightarrow> (LExit n, w)
      | (Dies m, w) \<Rightarrow> (LDied m, w))"

end
