(* ===== verification/Library.thy ===== *)
theory Library
  imports Options
begin

text \<open>
  The library interface, \<^verbatim>\<open>src/libagentcell.c\<close>: \<^verbatim>\<open>agentcell_spawn\<close> starts a cell with the functions of \<^verbatim>\<open>sand.c\<close> and keeps a
  record for it in \<^verbatim>\<open>g_recs\<close>, \<^verbatim>\<open>agentcell_release\<close> undoes it. \<^verbatim>\<open>die\<close> returns to the caller (\<open>SpawnDied\<close>). \<open>nr\<close> is the name
  \<^verbatim>\<open>mkdtemp\<close> makes; the allocation of the child's stack is taken to succeed.
\<close>

record cell_rec =
  cr_pid :: int
  cr_have_cg :: bool
  cr_cgpath :: cstr
  cr_cgid :: u64
  cr_stack :: bool

definition rec_zero :: cell_rec where
  "rec_zero = \<lparr>cr_pid = 0, cr_have_cg = False, cr_cgpath = [], cr_cgid = 0, cr_stack = False\<rparr>"

definition lib_init :: "cell_rec list" where
  "lib_init = replicate 16 rec_zero"

text \<open>The first record with the given process id; a free one has 0.\<close>

definition find_rec :: "int \<Rightarrow> cell_rec list \<Rightarrow> nat option" where
  "find_rec pid rs = (case filter (\<lambda>i. cr_pid (rs ! i) = pid) [0..<length rs] of [] \<Rightarrow> None | i # _ \<Rightarrow> Some i)"

definition free_rec :: "cell_rec list \<Rightarrow> nat option" where
  "free_rec rs = find_rec 0 rs"

subsection \<open>The configuration\<close>

text \<open>\<open>ac_quota\<close> is \<^verbatim>\<open>(long)(cpu_cores * 100000)\<close> where \<^verbatim>\<open>cpu_cores > 0\<close>.\<close>

record api_cfg =
  ac_workdir :: "cstr option"
  ac_rootfs :: "cstr option"
  ac_mem :: u64
  ac_quota :: "int option"
  ac_pids :: "32 word"
  ac_net :: int
  ac_egress :: "cstr option"
  ac_secure :: bool
  ac_no_landlock :: bool
  ac_no_seccomp :: bool
  ac_egress_list :: "cstr list option"

definition mem_total_frac :: "'h kern \<Rightarrow> 'h \<Rightarrow> opt_env \<Rightarrow> int" where
  "mem_total_frac K h E = oe_frac E (case k_read K h ''/proc/meminfo'' of None \<Rightarrow> 0 | Some text \<Rightarrow> snd (mem_scan 0 text))"

definition lib_base :: "'h kern \<Rightarrow> 'h \<Rightarrow> opt_env \<Rightarrow> api_cfg \<Rightarrow> cstr list \<Rightarrow> cfg" where
  "lib_base K h E a av =
     cfg_zero\<lparr>mem_bytes := (if ac_mem a \<noteq> 0 then sint (ac_mem a) else mem_total_frac K h E),
       cpu_max := (case ac_quota a of Some q \<Rightarrow> snprintf_s 64 (dec_int q @ '' 100000'') | None \<Rightarrow> []),
       pids := (if ac_pids a \<noteq> 0 then sint (ac_pids a) else 256),
       netmode := (if ac_net a = 1 then NET_HOST else if ac_net a = 2 then NET_VETH else NET_NONE),
       secure := ac_secure a, no_landlock := ac_no_landlock a, no_seccomp := ac_no_seccomp a, argv := Some av\<rparr>"

definition lib_workdir :: "'h kern \<Rightarrow> opt_env \<Rightarrow> api_cfg \<Rightarrow> cfg \<Rightarrow> 'h world \<Rightarrow> opt_res \<times> 'h world" where
  "lib_workdir K E a C w =
     (case ac_workdir a of
        Some d \<Rightarrow> (case k_realpath K (snd w) d of Some r \<Rightarrow> (Go (C\<lparr>workdir := r\<rparr>), w) | None \<Rightarrow> (Dies ''workdir'', w))
      | None \<Rightarrow> default_workdir K E C w)"

definition lib_rootfs :: "'h kern \<Rightarrow> 'h \<Rightarrow> opt_env \<Rightarrow> api_cfg \<Rightarrow> cfg \<Rightarrow> opt_res" where
  "lib_rootfs K h E a C =
     (case ac_rootfs a of
        None \<Rightarrow> Go C
      | Some d \<Rightarrow> (case k_realpath K h d of
            Some r \<Rightarrow> if oe_isdir E r then Go (C\<lparr>rootfs := r\<rparr>) else Dies ''rootfs''
          | None \<Rightarrow> Dies ''rootfs''))"

fun egress_adds :: "cstr list \<Rightarrow> cfg \<Rightarrow> opt_res" where
  "egress_adds [] C = Go C"
| "egress_adds (e # es) C = (let (rc, C) = egress_add e C in if rc \<noteq> 0 then Dies ''--egress HOST[:PORT]'' else egress_adds es C)"

definition lib_egress :: "cstr list option \<Rightarrow> cfg \<Rightarrow> opt_res" where
  "lib_egress es C =
     (case es of None \<Rightarrow> Go C
      | Some l \<Rightarrow> (case egress_adds l C of Go C \<Rightarrow> Go (C\<lparr>netmode := NET_VETH\<rparr>) | r \<Rightarrow> r))"

definition lib_config :: "'h kern \<Rightarrow> opt_env \<Rightarrow> api_cfg \<Rightarrow> cstr list \<Rightarrow> 'h world \<Rightarrow> opt_res \<times> 'h world" where
  "lib_config K E a av w =
     (case lib_workdir K E a (lib_base K (snd w) E a av) w of
        (Go C, w) \<Rightarrow>
          (case lib_rootfs K (snd w) E a C of
             Go C \<Rightarrow>
               (case lib_egress (map_option (\<lambda>e. [e]) (ac_egress a)) C of
                  Go C \<Rightarrow> (lib_egress (ac_egress_list a) C, w)
                | r \<Rightarrow> (r, w))
           | r \<Rightarrow> (r, w))
      | r \<Rightarrow> r)"

subsection \<open>Spawning\<close>

text \<open>From \<^verbatim>\<open>mkdtemp\<close> to the message that releases the child: the outcome, the cgroup, and the root directory a failure removes.\<close>

definition root_template :: cstr where
  "root_template = ''/tmp/agentcell-root.XXXXXX''"

definition lib_launch :: "'h kern \<Rightarrow> daemon_in \<Rightarrow> cstr \<Rightarrow> int \<Rightarrow> int \<Rightarrow> int \<Rightarrow> cfg \<Rightarrow> 'h world \<Rightarrow>
    launch_end \<times> (cstr \<times> bool) \<times> cstr \<times> 'h world" where
  "lib_launch K D nr self uid gid C w =
     (case must K (Sup (Mkdtemp root_template)) ''mkdtemp'' w of
        (Some m, w) \<Rightarrow> (LDied m, ([], False), root_template, w)
      | (None, w) \<Rightarrow>
          let (cg, w) = cgroup_setup K self C w in
          case must K (Sup Pipe) ''pipe'' w of
            (Some m, w) \<Rightarrow> (LDied m, cg, nr, w)
          | (None, w) \<Rightarrow>
              let (pid, w) = do_call K (Sup (Clone (netmode C \<noteq> NET_HOST))) w
              in if pid < 0 then (LDied ''clone (userns disabled? sysctl kernel.unprivileged_userns_clone)'', cg, nr, w)
                 else let (res, w) = release_child K D 192 uid gid False pid C cg w in (res, cg, nr, w))"

definition lib_undo :: "'h kern \<Rightarrow> cstr \<times> bool \<Rightarrow> cstr \<Rightarrow> 'h world \<Rightarrow> 'h world" where
  "lib_undo K cg nr w =
     (let w = (if snd cg then snd (do_call K (Rmdir (fst cg)) w) else w) in snd (do_call K (Rmdir nr) w))"

definition EINVAL :: int where "EINVAL = 22"
definition EBUSY :: int where "EBUSY = 16"

datatype spawn_end = Spawned int | SpawnErr int | SpawnDied cstr

definition cell_id :: "daemon_in \<Rightarrow> cfg \<Rightarrow> cstr \<times> bool \<Rightarrow> u64" where
  "cell_id D C cg = (if secure C \<and> snd cg then (case d_cgid D of Some c \<Rightarrow> c | None \<Rightarrow> 0) else 0)"

definition agentcell_spawn :: "'h kern \<Rightarrow> daemon_in \<Rightarrow> opt_env \<Rightarrow> cstr \<Rightarrow> int \<Rightarrow> int \<Rightarrow> int \<Rightarrow> api_cfg \<Rightarrow> cstr list \<Rightarrow> int \<times> int \<times> int \<Rightarrow>
    cell_rec list \<Rightarrow> 'h world \<Rightarrow> spawn_end \<times> cell_rec list \<times> 'h world" where
  "agentcell_spawn K D E nr self uid gid a av fds rs w =
     (case fds of (i, p, e) \<Rightarrow>
      if av = [] \<or> i < - 1 \<or> p < - 1 \<or> e < - 1 then (SpawnErr (- EINVAL), rs, w)
      else case free_rec rs of
        None \<Rightarrow> (SpawnErr (- EBUSY), rs, w)
      | Some n \<Rightarrow>
          let rs = rs[n := (rs ! n)\<lparr>cr_pid := 0, cr_stack := False\<rparr>] in
          case lib_config K E a av w of
            (Go C, w) \<Rightarrow>
              (case lib_launch K D nr self uid gid C w of
                 (LStarted pid C' cg on, _, _, w) \<Rightarrow>
                   (Spawned pid,
                    rs[n := \<lparr>cr_pid = pid, cr_have_cg = snd cg, cr_cgpath = fst cg, cr_cgid = cell_id D C cg, cr_stack = False\<rparr>], w)
               | (LDied m, cg, r, w) \<Rightarrow> (SpawnDied m, rs, lib_undo K cg r w)
               | (LExit _, cg, r, w) \<Rightarrow> (SpawnDied [], rs, lib_undo K cg r w))
          | (Quit _, w) \<Rightarrow> (SpawnDied [], rs, lib_undo K ([], False) root_template w)
          | (Dies m, w) \<Rightarrow> (SpawnDied m, rs, lib_undo K ([], False) root_template w))"

subsection \<open>Releasing\<close>

definition undo_rec :: "'h kern \<Rightarrow> cell_rec \<Rightarrow> 'h world \<Rightarrow> 'h world" where
  "undo_rec K r w =
     (let w = log_note (NetDown (cr_pid r)) 0 w;
          w = (if cr_cgid r \<noteq> 0 then log_note (sup_call.LsmClr (cr_cgid r)) 0 w else w)
      in if cr_have_cg r then snd (do_call K (Rmdir (cr_cgpath r)) w) else w)"

definition agentcell_release :: "'h kern \<Rightarrow> int \<Rightarrow> cell_rec list \<Rightarrow> 'h world \<Rightarrow> int \<times> cell_rec list \<times> 'h world" where
  "agentcell_release K pid rs w =
     (if pid \<le> 0 then (- EINVAL, rs, w)
      else case find_rec pid rs of
        None \<Rightarrow> (0, rs, w)
      | Some n \<Rightarrow> (0, rs[n := rec_zero], undo_rec K (rs ! n) w))"

end
