(* ===== verification/Landlock_Claims.thy ===== *)
theory Landlock_Claims
  imports Landlock Mount_Claims
begin

unbundle bit_operations_syntax

text \<open>
  What the Landlock rules confine. The kernel's decision is a parameter: \<open>may p n\<close> says whether a confined process may
  use the access right of bit \<open>n\<close> at the path \<open>p\<close>. \<open>landlock_documented\<close> is the rule of landlock(7): once the ruleset is
  enforced, a handled right is granted exactly where a rule at the path or above it allows it.
\<close>

definition ll_handled :: "log \<Rightarrow> u64 option" where
  "ll_handled l = foldl (\<lambda>s (c, r). case c of LandlockCreate h n \<Rightarrow> if r < 0 then s else Some h | _ \<Rightarrow> s) None l"

definition ll_granted :: "log \<Rightarrow> cstr \<Rightarrow> u64 \<Rightarrow> bool" where
  "ll_granted l d a \<longleftrightarrow> (\<exists>r. (LandlockRule d a, r) \<in> set l \<and> 0 \<le> r)"

definition ll_on :: "log \<Rightarrow> bool" where
  "ll_on l \<longleftrightarrow> (\<exists>r. (LandlockRestrict, r) \<in> set l \<and> 0 \<le> r)"

definition landlock_documented :: "log \<Rightarrow> (cstr \<Rightarrow> nat \<Rightarrow> bool) \<Rightarrow> bool" where
  "landlock_documented l may \<longleftrightarrow>
     (\<forall>h p n. ll_on l \<and> ll_handled l = Some h \<and> bit h n \<longrightarrow>
        (may p n \<longleftrightarrow> (\<exists>d a. ll_granted l d a \<and> beneath d p \<and> bit a n)))"

text \<open>The rights to change files: write, remove a directory or a file, make a directory or a regular file.\<close>

definition write_rights :: "nat list" where "write_rights = [1, 4, 5, 7, 8]"

definition writable_places :: "cfg \<Rightarrow> cstr list" where
  "writable_places C =
     [''/tmp'', ''/var/tmp'', ''/run'', ''/dev'', ''/home/agent''] @ map mnt_path (rw_dirs C) @ map mnt_path (ov_dirs C) @
     map b_dst (List.filter (\<lambda>b. \<not> b_ro b) (binds C))"

lemma take_part: "take (length (a @ b)) s = a @ b \<Longrightarrow> take (length a) s = a"
  by (metis append.assoc append_eq_conv_conj append_take_drop_id)

subsection \<open>The calls\<close>

lemma rights:
  assumes "n \<in> set write_rights"
  shows "bit (ll_rw H abi) n" "bit ll_small n" "\<not> bit ll_ro n"
  using assms by (auto simp: write_rights_def ll_rw_def ll_small_def ll_ro_def fs_bits Let_def bit_simps)

fun ll_call :: "cfg \<Rightarrow> u64 \<Rightarrow> call \<Rightarrow> bool" where
  "ll_call C rw (LandlockRule p a) = ((p, a) \<in> set (ll_rules C rw))"
| "ll_call C rw NoNewPrivs = True"
| "ll_call C rw LandlockRestrict = True"
| "ll_call C rw c = False"

lemma emits_ll_allow: "P (LandlockRule p a) \<Longrightarrow> emits (calls P) (ll_allow K p a)"
proof (rule emits_look)
  fix w :: "'a world"
  assume "P (LandlockRule p a)"
  then have "emits (calls P) (attempt K (LandlockRule p a))" by (intro emits_attempt) simp
  then have "emits (calls P) (if k_stat K (snd w) p then attempt K (LandlockRule p a) else (\<lambda>w. (None, w)))"
    by (simp add: emits_nothing)
  moreover have "ll_allow K p a w = (if k_stat K (snd w) p then attempt K (LandlockRule p a) else (\<lambda>w. (None, w))) w"
    by (simp add: ll_allow_def)
  ultimately show "\<exists>f. emits (calls P) f \<and> ll_allow K p a w = f w" by blast
qed

lemma emits_ll_enforce: "emits (calls (ll_call C rw)) (ll_enforce K C rw)"
  unfolding ll_enforce_def
  by (rule emits_run_acts) (auto simp: list_all_iff intro!: emits_ll_allow emits_must emits_attempt)

fun ll_created :: "u64 \<Rightarrow> call \<Rightarrow> bool" where
  "ll_created h (LandlockCreate h' n) = (h = h')"
| "ll_created h c = False"

lemma try_create_log:
  "try_create K h ns w = (fd, w') \<Longrightarrow> \<exists>l. fst w' = fst w @ l \<and> calls (ll_created h) l \<and>
     (fd < 0 \<longrightarrow> list_all (\<lambda>(c, r). r < 0) l) \<and> (0 \<le> fd \<longrightarrow> (\<exists>l' n. l = l' @ [(LandlockCreate h n, fd)]))"
proof (induction ns arbitrary: w)
  case (Cons n ns)
  obtain r s where c: "k_call K (LandlockCreate h n) (snd w) = (r, s)" by (rule prod.exhaust)
  show ?case
  proof (cases "r < 0")
    case True
    then have "try_create K h ns (fst w @ [(LandlockCreate h n, r)], s) = (fd, w')" using Cons.prems c by (simp add: do_call_def)
    from Cons.IH[OF this] obtain l where "fst w' = fst w @ (LandlockCreate h n, r) # l" "calls (ll_created h) l"
      "fd < 0 \<longrightarrow> list_all (\<lambda>(c, r). r < 0) l" "0 \<le> fd \<longrightarrow> (\<exists>l' n. l = l' @ [(LandlockCreate h n, fd)])" by auto
    then show ?thesis using True by (intro exI[of _ "(LandlockCreate h n, r) # l"]) auto
  next
    case False
    then have "fst w' = fst w @ [(LandlockCreate h n, r)]" "fd = r" using Cons.prems c by (auto simp: do_call_def)
    then show ?thesis using False by (intro exI[of _ "[(LandlockCreate h n, r)]"]) auto
  qed
qed simp

lemma ll_handled_append:
  "ll_handled (l @ [(LandlockCreate h n, r)]) = (if r < 0 then ll_handled l else Some h)" "calls (ll_call C rw) m \<Longrightarrow> ll_handled (l @ m) = ll_handled l"
proof -
  show "ll_handled (l @ [(LandlockCreate h n, r)]) = (if r < 0 then ll_handled l else Some h)" by (simp add: ll_handled_def)
  show "calls (ll_call C rw) m \<Longrightarrow> ll_handled (l @ m) = ll_handled l"
  proof (induction m rule: rev_induct)
    case (snoc e m)
    obtain c r where "e = (c, r)" by (rule prod.exhaust)
    then show ?case using snoc by (cases c) (auto simp: ll_handled_def split: ll_call.splits)
  qed simp
qed

fun no_rule :: "call \<Rightarrow> bool" where
  "no_rule (LandlockRule p a) = False"
| "no_rule LandlockRestrict = False"
| "no_rule c = True"

lemma no_rule_created: "ll_created h c \<Longrightarrow> no_rule c"
  by (cases "(h, c)" rule: ll_created.cases) auto

lemma ll_enforce_log:
  assumes "ll_enforce K C rw (l0, s) = (res, (l, s'))" "ll_handled l0 = Some rw" "calls no_rule l0"
  shows "ll_handled l = Some rw \<and> (\<forall>d a. ll_granted l d a \<longrightarrow> (d, a) \<in> set (ll_rules C rw))"
proof -
  obtain m where m: "l = l0 @ m" "calls (ll_call C rw) m" using emits_calls_log[OF emits_ll_enforce assms(1)] by auto
  have "ll_call C rw (LandlockRule d a)" if "(LandlockRule d a, r) \<in> set l" for d a r
    using that m assms(3) by (fastforce simp: calls_def list_all_iff)
  then show ?thesis using m ll_handled_append(2)[OF m(2)] assms(2) by (auto simp: ll_granted_def)
qed

text \<open>Everything that happens up to the decision: the rights the ruleset handles and the rules come from one value.\<close>

lemma landlock_apply_log:
  assumes "landlock_apply K H sz C ([], h) = (res, (l, h'))" "ll_on l"
  obtains rw where "rw = ll_small \<or> (\<exists>abi. rw = ll_rw H abi)" "ll_handled l = Some rw"
    "\<And>d a. ll_granted l d a \<Longrightarrow> (d, a) \<in> set (ll_rules C rw)"
proof -
  obtain abi w1 where a: "do_call K LandlockAbi ([], h) = (abi, w1)" by (rule prod.exhaust)
  then have w1: "fst w1 = [(LandlockAbi, abi)]" by (auto simp: do_call_def case_prod_beta)
  have off: "\<not> ll_on m" if "calls no_rule m" for m using that by (fastforce simp: ll_on_def calls_def list_all_iff)
  have abi: "\<not> abi < 0" using assms a w1 off[of l] by (auto simp: landlock_apply_def)
  obtain fd w2 where c: "try_create K (ll_rw H abi) [8, 16, 24, sz] w1 = (fd, w2)" by (rule prod.exhaust)
  obtain m where m: "fst w2 = (LandlockAbi, abi) # m" "calls (ll_created (ll_rw H abi)) m"
    "0 \<le> fd \<longrightarrow> (\<exists>l' n. m = l' @ [(LandlockCreate (ll_rw H abi) n, fd)])"
    using try_create_log[OF c] w1 by auto
  have quiet: "calls no_rule (fst w2)" using m(1,2) no_rule_created by (auto simp: calls_def list_all_iff)
  show thesis
  proof (cases "fd < 0")
    case False
    then have e: "ll_enforce K C (ll_rw H abi) (fst w2, snd w2) = (res, (l, h'))"
      using assms(1) a abi c by (simp add: landlock_apply_def Let_def)
    have "ll_handled (fst w2) = Some (ll_rw H abi)"
    proof -
      obtain l' n where "fst w2 = ((LandlockAbi, abi) # l') @ [(LandlockCreate (ll_rw H abi) n, fd)]" using m False by auto
      then show ?thesis using False ll_handled_append(1) by metis
    qed
    from ll_enforce_log[OF e this quiet] show thesis using that by blast
  next
    case True
    obtain fd3 w3 where d: "do_call K (LandlockCreate ll_small 8) w2 = (fd3, w3)" by (rule prod.exhaust)
    then have w3: "fst w3 = fst w2 @ [(LandlockCreate ll_small 8, fd3)]" by (auto simp: do_call_def case_prod_beta)
    then have q3: "calls no_rule (fst w3)" using quiet by simp
    have r: "landlock_apply K H sz C ([], h) = (if fd3 < 0 then (None, w3) else ll_enforce K C ll_small w3)"
      using a abi c d True by (simp add: landlock_apply_def Let_def del: try_create.simps)
    then have "\<not> fd3 < 0" using assms off[OF q3] by auto
    then have "ll_enforce K C ll_small (fst w3, snd w3) = (res, (l, h'))" "ll_handled (fst w3) = Some ll_small"
      using r assms(1) by (simp, simp add: w3 ll_handled_append(1))
    from ll_enforce_log[OF this q3] show thesis using that by blast
  qed
qed

text \<open>C5: writes are confined. Once \<^verbatim>\<open>landlock_apply\<close> has enforced its ruleset, a confined process can write, remove or
  create a file or directory only at or below the scratch directories, \<^verbatim>\<open>/dev\<close>, the workspace, a \<^verbatim>\<open>--rw\<close> or
  \<^verbatim>\<open>--overlay\<close> directory or a writable \<^verbatim>\<open>--bind\<close>, for every ABI of the kernel and every answer it gives to the
  single rules.\<close>

theorem jail_writes_confined:
  assumes "landlock_apply K H sz C ([], h) = (res, (l, h'))" "ll_on l" "landlock_documented l may"
    "n \<in> set write_rights" "may p n"
  shows "\<exists>d\<in>set (writable_places C). beneath d p"
proof -
  obtain rw where rw: "rw = ll_small \<or> (\<exists>abi. rw = ll_rw H abi)" "ll_handled l = Some rw"
    "\<And>d a. ll_granted l d a \<Longrightarrow> (d, a) \<in> set (ll_rules C rw)" using landlock_apply_log[OF assms(1,2)] by metis
  have "bit rw n" using rw(1) rights[OF assms(4)] by auto
  then obtain d a where da: "ll_granted l d a" "beneath d p" "bit a n"
    using assms(2,3,5) rw(2) unfolding landlock_documented_def by blast
  have "d \<in> set (writable_places C)"
    using rw(3)[OF da(1)] da(3) rights(3)[OF assms(4)] by (auto simp: ll_rules_def writable_places_def split: if_splits)
  with da(2) show ?thesis by blast
qed

lemma workspace_granted:
  assumes "willing K" "\<And>s q. k_stat K s q" "landlock_apply K H sz C ([], h) = (res, (l, h'))"
  shows "ll_on l \<and> (\<exists>abi. ll_granted l ''/home/agent'' (ll_rw H abi))"
proof -
  have ok: "\<not> r < 0" if "do_call K c w = (r, w')" "\<not> unmounting c" for c w r w'
    using that assms(1) by (auto simp: willing_def do_call_def case_prod_beta not_less)
  obtain abi w1 where a: "do_call K LandlockAbi ([], h) = (abi, w1)" by (rule prod.exhaust)
  obtain fd w2 where c: "do_call K (LandlockCreate (ll_rw H abi) 8) w1 = (fd, w2)" by (rule prod.exhaust)
  let ?rw = "ll_rw H abi"
  let ?rest = "\<lambda>as. map (\<lambda>(p, a). ll_allow K p a) as @ [must K NoNewPrivs ''no_new_privs'', attempt K LandlockRestrict]"
  have run: "run_acts (?rest (ll_rules C ?rw)) w2 = (res, (l, h'))"
    using assms(3) a c ok[OF a] ok[OF c] by (simp add: landlock_apply_def Let_def ll_enforce_def)
  have allow: "ll_allow K q acc = attempt K (LandlockRule q acc)" for q acc using assms(2) by (simp add: ll_allow_def fun_eq_iff)
  have goes: "list_all goes (?rest as)" for as by (auto simp: list_all_iff allow goes_calls[OF assms(1)])
  have res: "res = None" using goes_run_acts[OF goes] run by (metis fst_conv goes_def)
  have em: "list_all (emits (\<lambda>_. True)) (?rest as)" for as
    by (auto simp: list_all_iff allow intro!: emits_attempt emits_must)
  define pre where "pre = map (\<lambda>p. (p, ll_ro)) [''/'', ''/usr'', ''/etc'', ''/opt'', ''/proc'', ''/sys''] @
    map (\<lambda>p. (p, ?rw)) [''/tmp'', ''/var/tmp'', ''/run'', ''/dev'']"
  obtain post where "ll_rules C ?rw = pre @ (''/home/agent'', ?rw) # post" unfolding ll_rules_def pre_def by simp
  then have "?rest (ll_rules C ?rw) =
      map (\<lambda>(p, a). ll_allow K p a) pre @ attempt K (LandlockRule ''/home/agent'' ?rw) # ?rest post"
    by (simp add: allow)
  from attempted[OF run[unfolded this res] em] obtain l1 s l2
    where "l = l1 @ (LandlockRule ''/home/agent'' ?rw, fst (k_call K (LandlockRule ''/home/agent'' ?rw) s)) # l2" by auto
  then have granted: "ll_granted l ''/home/agent'' ?rw" using assms(1) unfolding ll_granted_def willing_def by (metis in_set_conv_decomp unmounting.simps)
  have "run_acts ((map (\<lambda>(p, a). ll_allow K p a) (ll_rules C ?rw) @ [must K NoNewPrivs ''no_new_privs'']) @ attempt K LandlockRestrict # [])
      w2 = (None, (l, h'))" using run res by simp
  from attempted[OF this] obtain l1 s l2 where "l = l1 @ (LandlockRestrict, fst (k_call K LandlockRestrict s)) # l2" by auto
  then have on: "ll_on l" using assms(1) unfolding ll_on_def willing_def by (metis in_set_conv_decomp unmounting.simps)
  show ?thesis using on granted by blast
qed

text \<open>A read-only bind inside the workspace is not read-only for Landlock. The rule of the workspace covers
  everything below it, so a confined process may write below a \<^verbatim>\<open>--bind-ro\<close> whose destination lies there. Where the kernel
  refuses the read-only remount, which \<^verbatim>\<open>bind_mount\<close> tolerates because "Landlock still RO", nothing protects the host
  directory. (The kernel here accepts every rule.)\<close>

theorem ro_bind_in_workspace_writable:
  assumes "willing K" "\<And>s q. k_stat K s q" "landlock_apply K H sz C ([], h) = (res, (l, h'))" "landlock_documented l may"
    "b \<in> set (binds C)" "b_ro b" "b_dst b = ''/home/agent/'' @ x" "beneath (b_dst b) p" "n \<in> set write_rights"
  shows "may p n"
proof -
  obtain abi where on: "ll_on l" and granted: "ll_granted l ''/home/agent'' (ll_rw H abi)"
    using workspace_granted[OF assms(1-3)] by blast
  obtain rw where rw: "rw = ll_small \<or> (\<exists>abi. rw = ll_rw H abi)" "ll_handled l = Some rw"
    using landlock_apply_log[OF assms(3) on] by metis
  have "bit rw n" "bit (ll_rw H abi) n" using rw(1) rights[OF assms(9)] by auto
  moreover have "beneath ''/home/agent'' p"
  proof -
    have "segs (b_dst b) = segs ''/home/agent'' @ segs x" unfolding assms(7) using segs_simps(3)[of "''/home/agent''" x] by simp
    then show ?thesis using assms(8) take_part unfolding beneath_def by metis
  qed
  ultimately show ?thesis using assms(4) on rw(2) granted unfolding landlock_documented_def by blast
qed

text \<open>A kernel that accepts every rule and decides as documented.\<close>

definition ll_may :: "log \<Rightarrow> cstr \<Rightarrow> nat \<Rightarrow> bool" where
  "ll_may l p n \<longleftrightarrow> (\<exists>d a. ll_granted l d a \<and> beneath d p \<and> bit a n)"

lemma ll_may_documented: "landlock_documented l (ll_may l)"
  by (simp add: landlock_documented_def ll_may_def)

lemma demo_kern_willing: "willing demo_kern" "k_stat demo_kern s q"
  by (simp_all add: willing_def demo_kern_def)

definition demo_log :: log where
  "demo_log = fst (snd (landlock_apply demo_kern new_hdr 24 demo_bind ([], ())))"

lemma demo_log: "landlock_apply demo_kern new_hdr 24 C ([], ()) =
    (fst (landlock_apply demo_kern new_hdr 24 C ([], ())), (fst (snd (landlock_apply demo_kern new_hdr 24 C ([], ()))), ()))"
  by (metis prod.collapse unit.exhaust)

theorem jail_writes_confined_witness:
  "ll_may demo_log ''/home/agent/x'' 1 \<and> (\<exists>d\<in>set (writable_places demo_bind). beneath d ''/home/agent/x'')"
proof -
  note run = demo_log[of demo_bind, folded demo_log_def]
  obtain abi where g: "ll_on demo_log" "ll_granted demo_log ''/home/agent'' (ll_rw new_hdr abi)"
    using workspace_granted[OF demo_kern_willing run] by blast
  have "beneath ''/home/agent'' ''/home/agent/x''" unfolding beneath_def segs_def by code_simp
  moreover have w: "1 \<in> set write_rights" by (simp add: write_rights_def)
  ultimately have may: "ll_may demo_log ''/home/agent/x'' 1" using g(2) rights(1)[OF w] unfolding ll_may_def by blast
  from jail_writes_confined[OF run g(1) ll_may_documented w may] may show ?thesis by blast
qed

definition demo_inner :: cfg where
  "demo_inner = cfg_init\<lparr>binds := [\<lparr>b_src = ''/data'', b_dst = ''/home/agent/data'', b_ro = True\<rparr>]\<rparr>"

theorem ro_bind_in_workspace_writable_witness:
  "ll_may (fst (snd (landlock_apply demo_kern new_hdr 24 demo_inner ([], ())))) ''/home/agent/data/f'' 1"
proof (rule ro_bind_in_workspace_writable[OF demo_kern_willing demo_log ll_may_documented])
  show "\<lparr>b_src = ''/data'', b_dst = ''/home/agent/data'', b_ro = True\<rparr> \<in> set (binds demo_inner)" by (simp add: demo_inner_def)
  show "beneath (b_dst \<lparr>b_src = ''/data'', b_dst = ''/home/agent/data'', b_ro = True\<rparr>) ''/home/agent/data/f''"
    unfolding beneath_def segs_def by code_simp
  show "b_dst \<lparr>b_src = ''/data'', b_dst = ''/home/agent/data'', b_ro = True\<rparr> = ''/home/agent/'' @ ''data''" by simp
qed (simp_all add: write_rights_def)

subsection \<open>Headers older than the kernel\<close>

text \<open>With the fallback values of the source the right \<^verbatim>\<open>IOCTL_DEV\<close> is bit 16, which no kernel knows. A kernel of ABI 5
  or later rejects it, as documented, so that the smaller set is used, which leaves making sockets, pipes, symlinks and
  device nodes unrestricted.\<close>

lemma old_headers_small:
  assumes "5 \<le> abi"
  shows "bit (ll_rw old_hdr abi) 16 \<and> \<not> bit (ll_rw new_hdr abi) 16 \<and> bit (ll_rw new_hdr abi) 12 \<and> \<not> bit ll_small 12"
  using assms by (auto simp: ll_rw_def ll_small_def ll_ro_def fs_bits old_hdr_def new_hdr_def Let_def bit_simps)

end
