(* ===== verification/Jail_Claims.thy ===== *)
theory Jail_Claims
  imports Jail_Init Mount_Claims Landlock_Claims
begin

text \<open>
  The order of the layers: what has happened, and has succeeded, before the payload of a cell runs its first
  instruction.
\<close>

fun no_start :: "call \<Rightarrow> bool" where
  "no_start (Exec av env) = False"
| "no_start JailServer = False"
| "no_start c = True"

lemma emits_try_create: "try_create K h ns w = (fd, w') \<Longrightarrow> \<exists>l. fst w' = fst w @ l \<and> calls no_start l"
  using try_create_log[of K h ns w fd w'] by (fastforce simp: calls_def list_all_iff elim: ll_created.elims)

lemma emits_landlock_apply: "emits (calls no_start) (landlock_apply K H sz C)"
proof (rule emitsI)
  fix w :: "'a world"
  obtain abi w1 where a: "do_call K LandlockAbi w = (abi, w1)" by (rule prod.exhaust)
  obtain fd w2 where c: "try_create K (ll_rw H abi) [8, 16, 24, sz] w1 = (fd, w2)" by (rule prod.exhaust)
  obtain fd3 w3 where d: "do_call K (LandlockCreate ll_small 8) w2 = (fd3, w3)" by (rule prod.exhaust)
  have w1: "fst w1 = fst w @ [(LandlockAbi, abi)]" using a by (auto simp: do_call_def case_prod_beta)
  have w3: "fst w3 = fst w2 @ [(LandlockCreate ll_small 8, fd3)]" using d by (auto simp: do_call_def case_prod_beta)
  obtain l where l: "fst w2 = fst w1 @ l" "calls no_start l" using emits_try_create[OF c] by blast
  have e: "emits (calls no_start) (ll_enforce K C rw)" for rw
    unfolding ll_enforce_def by (rule emits_run_acts) (auto simp: list_all_iff intro!: emits_ll_allow emits_must emits_attempt)
  have grow: "\<exists>m. fst (snd (ll_enforce K C rw v)) = fst v @ m \<and> calls no_start m" for rw v
    using emits_calls_log[OF e surjective_pairing] .
  have "\<exists>m. fst (snd (landlock_apply K H sz C w)) = fst w @ m \<and> calls no_start m"
  proof -
    consider "abi < 0" | "\<not> abi < 0" "\<not> fd < 0" | "\<not> abi < 0" "fd < 0" "fd3 < 0" | "\<not> abi < 0" "fd < 0" "\<not> fd3 < 0" by blast
    then show ?thesis
    proof cases
      case 1
      then show ?thesis using a w1 by (simp add: landlock_apply_def)
    next
      case 2
      then have "landlock_apply K H sz C w = ll_enforce K C (ll_rw H abi) w2"
        using a c by (simp add: landlock_apply_def Let_def del: try_create.simps)
      then show ?thesis using grow[of "ll_rw H abi" w2] w1 l by auto
    next
      case 3
      then have "landlock_apply K H sz C w = (None, w3)"
        using a c d by (simp add: landlock_apply_def Let_def del: try_create.simps)
      then show ?thesis using w1 l w3 by auto
    next
      case 4
      then have "landlock_apply K H sz C w = ll_enforce K C ll_small w3"
        using a c d by (simp add: landlock_apply_def Let_def del: try_create.simps)
      then show ?thesis using grow[of ll_small w3] w1 l w3 by auto
    qed
  qed
  then obtain m where "fst (snd (landlock_apply K H sz C w)) = fst w @ concat [m] \<and> list_all (calls no_start) [m]" by auto
  then show "\<exists>cs. fst (snd (landlock_apply K H sz C w)) = fst w @ concat cs \<and> list_all (calls no_start) cs" by blast
qed

lemma run_until_log: "\<forall>f\<in>set fs. \<forall>h c. snd (f h) = Some c \<longrightarrow> P c \<Longrightarrow> \<exists>m. fst (run_until K fs w) = fst w @ m \<and> calls P m"
proof (induction fs arbitrary: w)
  case (Cons f fs)
  obtain b oc where f: "f (snd w) = (b, oc)" by (rule prod.exhaust)
  show ?case
  proof (cases "b \<and> oc \<noteq> None")
    case True
    have "snd (f (snd w)) = Some c \<Longrightarrow> P c" for c using Cons.prems by (meson list.set_intros(1))
    then obtain c where c: "oc = Some c" "P c" using True f by auto
    obtain r v where v: "do_call K c w = (r, v)" by (rule prod.exhaust)
    then have fv: "fst v = fst w @ [(c, r)]" by (auto simp: do_call_def case_prod_beta)
    obtain m where m: "fst (run_until K fs v) = fst v @ m" "calls P m" using Cons.IH[of v] Cons.prems by auto
    have "run_until K (f # fs) w = (if r < 0 then v else run_until K fs v)" using f True c v by simp
    then show ?thesis using fv m c by (cases "r < 0") auto
  next
    case False
    then show ?thesis using Cons.IH[of w] Cons.prems f by (cases b) auto
  qed
qed simp

lemma emits_net: "emits (calls no_start) (net_lo_up K)" "emits (calls no_start) (net_veth_up K C)"
proof -
  have until: "emits (calls no_start) (\<lambda>w. (None, run_until K fs w))"
    if ok: "\<forall>f\<in>set fs. \<forall>h c. snd (f h) = Some c \<longrightarrow> no_start c" for fs
  proof (rule emitsI)
    fix w
    obtain m where "fst (run_until K fs w) = fst w @ m" "calls no_start m" using run_until_log[OF ok] by metis
    then show "\<exists>cs. fst (snd (None, run_until K fs w)) = fst w @ concat cs \<and> list_all (calls no_start) cs"
      by (intro exI[of _ "[m]"]) simp
  qed
  show "emits (calls no_start) (net_veth_up K C)"
    unfolding net_veth_up_def Let_def by (rule until) auto
  show "emits (calls no_start) (net_lo_up K)"
  proof (rule emits_look)
    fix w
    let ?fs = "[\<lambda>h. (True, Some (Net Socket)), \<lambda>h. (True, if k_ifup K h ''lo'' = Some False then Some (Net (IfUp ''lo'')) else None)]"
    have "net_lo_up K w = (None, run_until K ?fs w)"
      by (auto simp: net_lo_up_def attempt_def Let_def case_prod_beta split: prod.split)
    then show "\<exists>a. emits (calls no_start) a \<and> net_lo_up K w = a w"
      by (intro exI[of _ "\<lambda>w. (None, run_until K ?fs w)"] conjI until) auto
  qed
qed

lemma emits_setup: "list_all (emits (calls no_start)) (jail_setup K a H sz nr I C v)"
proof -
  have "emits (calls no_start) (do_mounts K nr C)" by (rule emits_do_mounts_calls) (simp_all add: covers_def)
  then show ?thesis
    by (auto simp: jail_setup_def swap_roots_def jail_seccomp_def jail_stdio_def Let_def emits_landlock_apply emits_net
        intro!: emits_must emits_attempt split: prod.split)
qed

text \<open>A fatal call inside a sequence that returned, with the calls before it and after it.\<close>

lemma must_inside:
  assumes "run_acts (xs @ must K c msg # ys) w = (None, w')" "list_all (emits Q) ys"
  obtains v r l where "run_acts xs w = (None, v)" "0 \<le> r" "fst w' = fst v @ (c, r) # l"
    "run_acts ys (fst v @ [(c, r)], snd (k_call K c (snd v))) = (None, w')"
proof -
  obtain v where v: "run_acts xs w = (None, v)" "run_acts (must K c msg # ys) v = (None, w')"
    using assms(1) by (rule run_acts_split)
  obtain r h where k: "k_call K c (snd v) = (r, h)" by (rule prod.exhaust)
  have r: "\<not> r < 0" using v(2) k by (auto simp: must_def do_call_def)
  then have y: "run_acts ys (fst v @ [(c, r)], h) = (None, w')" using v(2) k by (simp add: must_def do_call_def)
  then show thesis using that[OF v(1), of r] emits_log[OF emits_run_acts[OF assms(2)] y] r k by force
qed

lemma sync_veth_fields:
  assumes "sync_veth msg C = (v, C')"
  shows "argv C' = argv C" "env_kv C' = env_kv C" "no_seccomp C' = no_seccomp C" "ask C' = ask C" "no_landlock C' = no_landlock C"
  using assms by (auto simp: sync_veth_def put_veth_def Let_def split: if_splits)

lemma required_mounts_frame:
  "required_mounts nr (C\<lparr>veth_if := x\<rparr>) = required_mounts nr C" "required_mounts nr (C\<lparr>veth_ip := x\<rparr>) = required_mounts nr C"
  "required_mounts nr (C\<lparr>veth_gw := x\<rparr>) = required_mounts nr C"
  unfolding required_mounts_def os_src_def by simp_all

lemma sync_veth_required: "sync_veth msg C = (v, C') \<Longrightarrow> required_mounts nr C' = required_mounts nr C"
  by (auto simp: sync_veth_def put_veth_def Let_def required_mounts_frame split: if_splits)

lemma exec_is_last:
  assumes "child_main K a H sz nr I C ([], h) = (res, (l, h'))" "(Exec av env, r) \<in> set l"
  obtains v C' w h0 where "sync_msg I \<noteq> []" "sync_veth (sync_msg I) C = (v, C')" "\<not> serve I"
    "run_acts (jail_setup K a H sz nr I C' v) ([(Pdeathsig, fst (k_call K Pdeathsig h))], h0) = (None, w)"
    "l = fst w @ [(Exec av env, r)]" "calls no_start (fst w)" "av = jail_argv C'" "env = jail_env (spawn_envp I) C'"
proof -
  obtain r0 h0 where k: "k_call K Pdeathsig h = (r0, h0)" by (rule prod.exhaust)
  obtain v C' where s: "sync_veth (sync_msg I) C = (v, C')" by (rule prod.exhaust)
  obtain m w where w: "run_acts (jail_setup K a H sz nr I C' v) ([(Pdeathsig, r0)], h0) = (m, w)" by (rule prod.exhaust)
  obtain lw where "fst w = (Pdeathsig, r0) # lw" "calls no_start lw" using emits_calls_log[OF emits_run_acts[OF emits_setup] w] by auto
  then have q: "calls no_start (fst w)" by simp
  have ns: "(Exec av env, r) \<notin> set L" if "calls no_start L" for L using that by (fastforce simp: calls_def list_all_iff)
  have ne: "sync_msg I \<noteq> []" using assms k ns[of "[(Pdeathsig, r0)]"] by (auto simp: child_main_def do_call_def)
  have "m = None" using assms k s w ne ns[OF q] by (cases m) (auto simp: child_main_def do_call_def)
  moreover have ns': "\<not> serve I"
  proof
    assume "serve I"
    then have "l = fst w @ [(JailServer, fst (k_call K JailServer (snd w)))]"
      using assms(1) k s w ne \<open>m = None\<close> by (auto simp: child_main_def do_call_def case_prod_beta)
    then show False using assms(2) ns[OF q] by auto
  qed
  moreover have "l = fst w @ [(Exec (jail_argv C') (jail_env (spawn_envp I) C'), fst (k_call K (Exec (jail_argv C') (jail_env (spawn_envp I) C')) (snd w)))]"
    using assms(1) k s w ne ns' \<open>m = None\<close>
    by (auto simp: child_main_def do_call_def must_def case_prod_beta split: if_splits)
  ultimately show thesis using that[OF ne s ns', of h0 w] w k q assms(2) ns[OF q] by auto
qed

definition after_pivot :: "'h kern \<Rightarrow> arch \<Rightarrow> ll_hdr \<Rightarrow> nat \<Rightarrow> child_in \<Rightarrow> cfg \<Rightarrow> bool \<Rightarrow> 'h act list" where
  "after_pivot K a H sz I C v =
     [must K (Chdir ''/'') ''chdir /'', attempt K (UmountDetach ''/.put_old''), attempt K (Rmdir ''/.put_old''),
      attempt K (Mount None ''/'' None [MS_BIND, MS_REMOUNT, MS_RDONLY] None)] @
     (if no_landlock C then [] else [landlock_apply K H sz C]) @
     (if no_seccomp C then [] else jail_seccomp K a C @ (if ask C then [attempt K SendNotifyFd] else [])) @
     (if netmode C = NET_HOST then [] else net_lo_up K # (if v then [net_veth_up K C] else [])) @
     [attempt K (Chdir ''/home/agent'')] @ jail_stdio K (spawn_fds I)"

lemma setup_pivot:
  "jail_setup K a H sz nr I C v = [attempt K Unshare_cgroup, do_mounts K nr C, must K (Chdir nr) ''chdir newroot''] @
     must K (PivotRoot ''.'' ''.put_old'') ''pivot_root'' # after_pivot K a H sz I C v"
  by (simp add: jail_setup_def swap_roots_def after_pivot_def)

lemma emits_after_pivot: "list_all (emits (calls no_start)) (after_pivot K a H sz I C v)"
  using emits_setup[of K a H sz "[]" I C v] by (simp add: setup_pivot)

lemma after_pivot_seccomp:
  assumes "\<not> no_seccomp C"
  obtains xs ys where "after_pivot K a H sz I C v = xs @ must K (SeccompInstall (seccomp_flags (ask C))
      (of_nat (length (seccomp_program a (ask C)))) (seccomp_program a (ask C))) ''seccomp install (--ask needs kernel >= 5.0)'' # ys"
proof -
  have "after_pivot K a H sz I C v =
     ([must K (Chdir ''/'') ''chdir /'', attempt K (UmountDetach ''/.put_old''), attempt K (Rmdir ''/.put_old''),
      attempt K (Mount None ''/'' None [MS_BIND, MS_REMOUNT, MS_RDONLY] None)] @
     (if no_landlock C then [] else [landlock_apply K H sz C]) @ [must K NoNewPrivs ''no_new_privs'']) @
     must K (SeccompInstall (seccomp_flags (ask C)) (of_nat (length (seccomp_program a (ask C)))) (seccomp_program a (ask C)))
       ''seccomp install (--ask needs kernel >= 5.0)'' #
     ((if ask C then [attempt K SendNotifyFd] else []) @
     (if netmode C = NET_HOST then [] else net_lo_up K # (if v then [net_veth_up K C] else [])) @
     [attempt K (Chdir ''/home/agent'')] @ jail_stdio K (spawn_fds I))"
    using assms unfolding after_pivot_def jail_seccomp_def Let_def by (simp only: append.assoc append_Cons append_Nil if_False)
  then show thesis by (rule that)
qed

lemma setup_mounts:
  assumes "run_acts [attempt K Unshare_cgroup, do_mounts K nr C, must K (Chdir nr) ''chdir newroot''] w = (None, v)"
  obtains w0 w1 m0 where "do_mounts K nr C w0 = (None, w1)" "fst v = fst w1 @ m0"
proof -
  obtain w1 where "do_mounts K nr C (snd (do_call K Unshare_cgroup w)) = (None, w1)" "must K (Chdir nr) ''chdir newroot'' w1 = (None, v)"
    using assms by (auto simp: attempt_def split: prod.splits option.splits)
  then show thesis using that must_ok by blast
qed

text \<open>C1: the payload starts confined. When the first process of a cell calls \<^verbatim>\<open>execvp\<close>, it is its last call, it passes the
  configured command and an environment made of the options only, and before it, in this order: the parent released it,
  \<^verbatim>\<open>do_mounts\<close> returned after every mount of \<open>required_mounts\<close> had succeeded, the root was swapped successfully, and, unless
  \<^verbatim>\<open>--no-seccomp\<close> was given, the deny-list filter was installed successfully, which decides every system call as its
  specification says. Not required to succeed are the mounts of \<^verbatim>\<open>/proc\<close>, \<^verbatim>\<open>/sys\<close>, \<^verbatim>\<open>/sys/fs/cgroup\<close> and \<^verbatim>\<open>/run/systemd\<close>, the
  read-only remounts, and detaching the old root.\<close>

theorem payload_confined:
  assumes "child_main K a H sz nr I C ([], h) = (res, (l, h'))" "(Exec av env, r) \<in> set l" "wf_arch a"
  shows "sync_msg I \<noteq> [] \<and> av = jail_argv C \<and> env = jail_env (spawn_envp I) C \<and>
    (\<exists>w0 w1 m0 r1 l1. do_mounts K nr (snd (sync_veth (sync_msg I) C)) w0 = (None, w1) \<and>
       list_all (\<lambda>c. \<exists>r\<ge>0. (c, r) \<in> set (fst w1)) (required_mounts nr C) \<and>
       l = fst w1 @ m0 @ (PivotRoot ''.'' ''.put_old'', r1) # l1 @ [(Exec av env, r)] \<and> 0 \<le> r1 \<and>
       calls no_start (fst w1 @ m0 @ l1) \<and>
       (\<not> no_seccomp C \<longrightarrow> (\<exists>m1 m2 prog r2. l1 = m1 @ (SeccompInstall (seccomp_flags (ask C)) (of_nat (length prog)) prog, r2) # m2 \<and>
          0 \<le> r2 \<and> (\<forall>d. length (sd_args d) = 6 \<longrightarrow> bpf_run prog 0 d = Some (seccomp_spec a (ask C) d)))))"
proof -
  obtain v C' w h0 where e: "sync_msg I \<noteq> []" "sync_veth (sync_msg I) C = (v, C')" "\<not> serve I"
    "run_acts (jail_setup K a H sz nr I C' v) ([(Pdeathsig, fst (k_call K Pdeathsig h))], h0) = (None, w)"
    "l = fst w @ [(Exec av env, r)]" "calls no_start (fst w)" "av = jail_argv C'" "env = jail_env (spawn_envp I) C'"
    by (rule exec_is_last[OF assms(1,2)])
  note fields = sync_veth_fields[OF e(2)]
  have env: "av = jail_argv C" "env = jail_env (spawn_envp I) C" using e(7,8) fields by (simp_all add: jail_argv_def jail_env_def)
  obtain p r1 l1 where
    p: "run_acts [attempt K Unshare_cgroup, do_mounts K nr C', must K (Chdir nr) ''chdir newroot'']
        ([(Pdeathsig, fst (k_call K Pdeathsig h))], h0) = (None, p)"
    "0 \<le> r1" "fst w = fst p @ (PivotRoot ''.'' ''.put_old'', r1) # l1"
    "run_acts (after_pivot K a H sz I C' v) (fst p @ [(PivotRoot ''.'' ''.put_old'', r1)],
        snd (k_call K (PivotRoot ''.'' ''.put_old'') (snd p))) = (None, w)"
    by (rule must_inside[OF e(4)[unfolded setup_pivot] emits_after_pivot])
  obtain w0 w1 m0 where m: "do_mounts K nr C' w0 = (None, w1)" "fst p = fst w1 @ m0" by (rule setup_mounts[OF p(1)])
  have req: "list_all (\<lambda>c. \<exists>r\<ge>0. (c, r) \<in> set (fst w1)) (required_mounts nr C)"
    using do_mounts_requires[OF m(1)] unfolding sync_veth_required[OF e(2)] list_all_iff by blast
  have quiet: "calls no_start (fst w1 @ m0 @ l1)" using e(6) p(3) m(2) by simp
  have "\<exists>m1 m2 prog r2. l1 = m1 @ (SeccompInstall (seccomp_flags (ask C)) (of_nat (length prog)) prog, r2) # m2 \<and>
      0 \<le> r2 \<and> (\<forall>d. length (sd_args d) = 6 \<longrightarrow> bpf_run prog 0 d = Some (seccomp_spec a (ask C) d))" if "\<not> no_seccomp C"
  proof -
    let ?prog = "seccomp_program a (ask C)"
    let ?sec = "SeccompInstall (seccomp_flags (ask C)) (of_nat (length ?prog)) ?prog"
    have ns: "\<not> no_seccomp C'" using that fields(3) by simp
    obtain xs ys where "after_pivot K a H sz I C' v = xs @ must K (SeccompInstall (seccomp_flags (ask C'))
      (of_nat (length (seccomp_program a (ask C')))) (seccomp_program a (ask C'))) ''seccomp install (--ask needs kernel >= 5.0)'' # ys"
      by (rule after_pivot_seccomp[OF ns])
    note xy = this[unfolded fields(4)]
    have em: "list_all (emits (calls no_start)) xs" "list_all (emits (calls no_start)) ys"
      using emits_after_pivot[of K a H sz I C' v] unfolding xy by simp_all
    obtain u r2 m2 where
      u: "run_acts xs (fst p @ [(PivotRoot ''.'' ''.put_old'', r1)], snd (k_call K (PivotRoot ''.'' ''.put_old'') (snd p))) = (None, u)"
        "0 \<le> r2" "fst w = fst u @ (?sec, r2) # m2"
      by (rule must_inside[OF p(4)[unfolded xy] em(2)])
    obtain m1 where "fst u = fst p @ (PivotRoot ''.'' ''.put_old'', r1) # m1"
      using emits_calls_log[OF emits_run_acts[OF em(1)] u(1)] by auto
    then have "l1 = m1 @ (?sec, r2) # m2" using u(3) p(3) by simp
    then show ?thesis using u(2) seccomp_program_decides[OF assms(3)] by blast
  qed
  then have log: "l = fst w1 @ m0 @ (PivotRoot ''.'' ''.put_old'', r1) # l1 @ [(Exec av env, r)] \<and> 0 \<le> r1 \<and>
       calls no_start (fst w1 @ m0 @ l1) \<and>
       (\<not> no_seccomp C \<longrightarrow> (\<exists>m1 m2 prog r2. l1 = m1 @ (SeccompInstall (seccomp_flags (ask C)) (of_nat (length prog)) prog, r2) # m2 \<and>
          0 \<le> r2 \<and> (\<forall>d. length (sd_args d) = 6 \<longrightarrow> bpf_run prog 0 d = Some (seccomp_spec a (ask C) d))))"
    using e(5) p(2,3) m(2) quiet by simp
  have C': "snd (sync_veth (sync_msg I) C) = C'" by (simp add: e(2))
  show ?thesis
    by (rule conjI[OF e(1) conjI[OF env(1) conjI[OF env(2)]]])
      (rule exI, rule exI, rule exI, rule exI, rule exI, rule conjI[OF m(1)[folded C'] conjI[OF req log]])
qed

subsection \<open>Reaching the payload\<close>

lemma goes_landlock: "willing K \<Longrightarrow> goes (landlock_apply K H sz C)"
proof -
  assume K: "willing K"
  have "goes (ll_allow K p a)" for p a by (simp add: goes_def ll_allow_def attempt_def)
  then have "goes (ll_enforce K C rw)" for rw
    unfolding ll_enforce_def by (intro goes_run_acts) (auto simp: list_all_iff goes_calls[OF K])
  then have e: "fst (ll_enforce K C rw w) = None" for rw w unfolding goes_def by blast
  show ?thesis
    unfolding goes_def landlock_apply_def Let_def by (simp add: e case_prod_beta del: try_create.simps)
qed

lemma goes_setup: "willing K \<Longrightarrow> list_all goes (jail_setup K a H sz nr I C v)"
proof -
  assume K: "willing K"
  have "goes (net_lo_up K)" "goes (net_veth_up K C)"
    by (simp_all add: goes_def net_lo_up_def net_veth_up_def attempt_def Let_def case_prod_beta)
  moreover have "list_all goes (jail_seccomp K a C)" "list_all goes (swap_roots K nr)" "list_all goes (jail_stdio K (spawn_fds I))"
    by (auto simp: jail_seccomp_def swap_roots_def jail_stdio_def Let_def goes_calls[OF K] split: prod.split)
  ultimately show ?thesis
    by (simp add: jail_setup_def goes_calls[OF K] goes_do_mounts[OF K] goes_landlock[OF K])
qed

lemma child_runs:
  assumes "willing K" "sync_msg I \<noteq> []" "\<not> serve I"
  shows "\<exists>l h' r s. child_main K a H sz nr I C ([], h) = (Running, (l, h')) \<and>
    (Exec (jail_argv C) (jail_env (spawn_envp I) C), r) \<in> set l \<and>
    (UmountDetach ''/.put_old'', fst (k_call K (UmountDetach ''/.put_old'') s)) \<in> set l"
proof -
  obtain v C' where s: "sync_veth (sync_msg I) C = (v, C')" by (rule prod.exhaust)
  let ?w = "snd (do_call K Pdeathsig ([], h))" and ?e = "Exec (jail_argv C') (jail_env (spawn_envp I) C')"
  have "fst (run_acts (jail_setup K a H sz nr I C' v) ?w) = None"
    using goes_run_acts[OF goes_setup[OF assms(1)]] unfolding goes_def by blast
  then obtain w1 where w1: "run_acts (jail_setup K a H sz nr I C' v) ?w = (None, w1)" by (metis prod.collapse)
  let ?u = "UmountDetach ''/.put_old''"
  have em: "list_all (emits (calls no_start)) (drop 2 (after_pivot K a H sz I C' v))"
    using emits_after_pivot[of K a H sz I C' v] by (simp add: after_pivot_def)
  have S: "jail_setup K a H sz nr I C' v = ([attempt K Unshare_cgroup, do_mounts K nr C', must K (Chdir nr) ''chdir newroot'',
      must K (PivotRoot ''.'' ''.put_old'') ''pivot_root'', must K (Chdir ''/'') ''chdir /'']) @
      attempt K ?u # drop 2 (after_pivot K a H sz I C' v)"
    by (simp add: setup_pivot after_pivot_def)
  from attempted[OF w1[unfolded S] em] obtain l1 s2 l2 where "fst w1 = l1 @ (?u, fst (k_call K ?u s2)) # l2" by blast
  then have u: "(?u, fst (k_call K ?u s2)) \<in> set (fst w1)" by simp
  have "fst (must K ?e ''execvp'' w1) = None" using goes_calls(1)[OF assms(1), of ?e "''execvp''"] by (simp add: goes_def del: split_paired_All)
  then obtain w2 where w2: "must K ?e ''execvp'' w1 = (None, w2)" by (metis prod.collapse)
  have "child_main K a H sz nr I C ([], h) = (Running, (fst w2, snd w2))"
    using assms(2,3) s w1 w2 by (simp add: child_main_def Let_def)
  moreover obtain r where "fst w2 = fst w1 @ [(?e, r)]" using must_ok[OF w2] by blast
  moreover have "?e = Exec (jail_argv C) (jail_env (spawn_envp I) C)"
    using sync_veth_fields[OF s] by (simp add: jail_argv_def jail_env_def)
  ultimately show ?thesis using u
    by (intro exI[of _ "fst w2"] exI[of _ "snd w2"] exI[of _ r] exI[of _ s2] conjI) simp_all
qed

text \<open>C36: the child reaches its payload. With a kernel that grants every call, a released child runs the payload. The
  answer to the one call that detaches the old root does not matter: where it fails, the payload runs with the host's file
  system still mounted at \<^verbatim>\<open>/.put_old\<close>.\<close>

theorem child_reaches_payload:
  assumes "willing K" "sync_msg I \<noteq> []" "\<not> serve I"
  shows "\<exists>l h' r s. child_main K a H sz nr I C ([], h) = (Running, (l, h')) \<and>
    (Exec (jail_argv C) (jail_env (spawn_envp I) C), r) \<in> set l \<and>
    (UmountDetach ''/.put_old'', fst (k_call K (UmountDetach ''/.put_old'') s)) \<in> set l"
  using child_runs[OF assms] .

text \<open>A kernel that grants everything but the detaching of the old root.\<close>

definition stuck_kern :: "unit kern" where
  "stuck_kern = demo_kern\<lparr>k_call := (\<lambda>c h. (if unmounting c then - 16 else 0, h))\<rparr>"

definition demo_child :: child_in where
  "demo_child = \<lparr>sync_msg = ''x'', spawn_fds = (- 1, - 1, - 1), spawn_envp = None, serve = False\<rparr>"

lemma stuck_kern_willing: "willing stuck_kern"
  by (simp add: willing_def stuck_kern_def demo_kern_def)

theorem child_reaches_payload_witness:
  "\<exists>l h' r. child_main stuck_kern x86_64 new_hdr 24 ''/r'' demo_child cfg_init ([], ()) = (Running, (l, h')) \<and>
     (Exec [''/bin/bash''] (jail_env None cfg_init), r) \<in> set l \<and> (UmountDetach ''/.put_old'', - 16) \<in> set l"
  using child_reaches_payload[OF stuck_kern_willing, of demo_child x86_64 new_hdr 24 "''/r''" cfg_init "()"]
  by (simp add: demo_child_def jail_argv_def cfg_init_def cfg_zero_def stuck_kern_def)

theorem payload_confined_witness:
  "\<exists>l av env r. child_main stuck_kern x86_64 new_hdr 24 ''/r'' demo_child cfg_init ([], ()) = (Running, (l, ())) \<and>
     (Exec av env, r) \<in> set l \<and> av = [''/bin/bash''] \<and> (\<exists>r1\<ge>0. (PivotRoot ''.'' ''.put_old'', r1) \<in> set l) \<and>
     (\<exists>r0\<ge>0. (tmpfs_call (NR ''/r'' ''/tmp'') ''size=1g,mode=1777'', r0) \<in> set l) \<and>
     (\<exists>fl n prog r2. 0 \<le> r2 \<and> (SeccompInstall fl n prog, r2) \<in> set l)"
proof -
  have d: "sync_msg demo_child \<noteq> []" "\<not> serve demo_child" by (simp_all add: demo_child_def)
  obtain l r u where l: "child_main stuck_kern x86_64 new_hdr 24 ''/r'' demo_child cfg_init ([], ()) = (Running, (l, u))"
    and e: "(Exec (jail_argv cfg_init) (jail_env (spawn_envp demo_child) cfg_init), r) \<in> set l"
    using child_runs[OF stuck_kern_willing d, of x86_64 new_hdr 24 "''/r''" cfg_init "()"] by blast
  have sec: "\<not> no_seccomp cfg_init" by (simp add: cfg_init_def cfg_zero_def)
  note confined = payload_confined[OF l e wf_x86_64, THEN conjunct2, THEN conjunct2, THEN conjunct2]
  obtain w1 :: "unit world" and m0 r1 l1 where q: "list_all (\<lambda>c. \<exists>r\<ge>0. (c, r) \<in> set (fst w1)) (required_mounts ''/r'' cfg_init)"
      "l = fst w1 @ m0 @ (PivotRoot ''.'' ''.put_old'', r1) # l1 @ [(Exec (jail_argv cfg_init) (jail_env (spawn_envp demo_child) cfg_init), r)]" "0 \<le> r1"
      "\<not> no_seccomp cfg_init \<longrightarrow> (\<exists>m1 m2 prog r2. l1 = m1 @ (SeccompInstall (seccomp_flags (ask cfg_init)) (of_nat (length prog)) prog, r2) # m2 \<and>
          0 \<le> r2 \<and> (\<forall>d. length (sd_args d) = 6 \<longrightarrow> bpf_run prog 0 d = Some (seccomp_spec x86_64 (ask cfg_init) d)))"
    by (rule confined[THEN exE], elim exE conjE, rule that, assumption+)
  from q(4) sec obtain m1 m2 prog r2 where s: "l1 = m1 @ (SeccompInstall (seccomp_flags (ask cfg_init)) (of_nat (length prog)) prog, r2) # m2" "0 \<le> r2"
    by blast
  have "\<exists>r0\<ge>0. (tmpfs_call (NR ''/r'' ''/tmp'') ''size=1g,mode=1777'', r0) \<in> set (fst w1)"
    using q(1) by (simp add: required_mounts_def)
  then have "\<exists>r0\<ge>0. (tmpfs_call (NR ''/r'' ''/tmp'') ''size=1g,mode=1777'', r0) \<in> set l" unfolding q(2) by auto
  moreover have "\<exists>fl n prog r2. 0 \<le> r2 \<and> (SeccompInstall fl n prog, r2) \<in> set l" using s(2) unfolding q(2) s(1)
    by (intro exI[of _ "seccomp_flags (ask cfg_init)"] exI[of _ "of_nat (length prog)"] exI[of _ prog] exI[of _ r2]) simp
  moreover have "\<exists>r1\<ge>0. (PivotRoot ''.'' ''.put_old'', r1) \<in> set l" using q(3) unfolding q(2) by auto
  moreover have "jail_argv cfg_init = [''/bin/bash'']" by (simp add: jail_argv_def cfg_init_def cfg_zero_def)
  moreover have "u = ()" by simp
  ultimately show ?thesis using l e by blast
qed

end
