(* ===== verification/Launch_Claims.thy ===== *)
theory Launch_Claims
  imports Launch Jail_Claims Client_Claims Daemon_Claims
begin

text \<open>
  What has happened before the child of a launch is released, and that the loops which wait for a payload end.
\<close>

fun no_release :: "call \<Rightarrow> bool" where
  "no_release (Sup c) = (case c of SyncChild m \<Rightarrow> False | _ \<Rightarrow> True)"
| "no_release c = True"

lemma emits_write_file: "P (Sup (OpenWrite p)) \<Longrightarrow> P (WriteFile p v) \<Longrightarrow> emits (calls P) (write_file K p v)"
proof (rule emitsI)
  fix w :: "'a world"
  assume P: "P (Sup (OpenWrite p))" "P (WriteFile p v)"
  obtain r h where o: "k_call K (Sup (OpenWrite p)) (snd w) = (r, h)" by (rule prod.exhaust)
  obtain r' h' where v: "k_call K (WriteFile p v) h = (r', h')" by (rule prod.exhaust)
  let ?c = "if r < 0 then [(Sup (OpenWrite p), r)] else [(Sup (OpenWrite p), r), (WriteFile p v, r')]"
  have "fst (snd (write_file K p v w)) = fst w @ concat [?c] \<and> list_all (calls P) [?c]"
    using P o v by (simp add: write_file_def attempt_def do_call_def)
  then show "\<exists>cs. fst (snd (write_file K p v w)) = fst w @ concat cs \<and> list_all (calls P) cs" by blast
qed

lemma goes_write_file: "goes (write_file K p v)"
  by (simp add: goes_def write_file_def attempt_def Let_def case_prod_beta)

text \<open>The log of \<open>write_file\<close>: the kernel refused to open the file, or was asked to write exactly \<open>v\<close> to it (its answer to the write is
  ignored by the code).\<close>

definition tried_write :: "cstr \<Rightarrow> cstr \<Rightarrow> log \<Rightarrow> bool" where
  "tried_write p v l \<longleftrightarrow> (\<exists>r<0. (Sup (OpenWrite p), r) \<in> set l) \<or> (\<exists>r. (WriteFile p v, r) \<in> set l)"

lemma tried_write_mono: "tried_write p v l \<Longrightarrow> set l \<subseteq> set l' \<Longrightarrow> tried_write p v l'"
  unfolding tried_write_def by blast

lemma write_file_tries: "write_file K p v w = (m, w') \<Longrightarrow> \<exists>l. fst w' = fst w @ l \<and> tried_write p v l"
  by (auto simp: write_file_def attempt_def do_call_def case_prod_beta tried_write_def split: if_splits)

lemma acts_try:
  assumes "write_file K p v \<in> set xs" "list_all goes xs" "list_all (emits (calls P)) xs" "run_acts xs w = (m, w')"
  shows "tried_write p v (fst w')"
proof -
  obtain ys zs where xs: "xs = ys @ write_file K p v # zs" using assms(1) by (meson split_list)
  have "m = None" using goes_run_acts[OF assms(2)] assms(4) by (metis fst_conv goes_def)
  then obtain u where u: "run_acts (write_file K p v # zs) u = (None, w')" using assms(4) unfolding xs by (metis run_acts_split)
  obtain a u' where a: "write_file K p v u = (a, u')" by (rule prod.exhaust)
  then have "a = None" "run_acts zs u' = (None, w')" using u by (cases a; simp)+
  then obtain l where "fst w' = fst u' @ l" using emits_calls_log[OF emits_run_acts, of P zs u' None w'] assms(3) unfolding xs by auto
  then show ?thesis using write_file_tries[OF a] by (auto intro: tried_write_mono)
qed

lemma emits_write_limits: "list_all (emits (calls no_release)) (write_limits K g C)"
proof -
  have "emits (calls no_release) (\<lambda>w. case k_dev K (snd w) (workdir C) of None \<Rightarrow> (None, w)
      | Some dev \<Rightarrow> write_file K (snprintf_s PATH_MAX (g @ ''/io.max'')) (io_limits dev C) w)" (is "emits _ ?f")
  proof (rule emits_look)
    fix w :: "'a world"
    show "\<exists>a. emits (calls no_release) a \<and> ?f w = a w"
    proof (cases "k_dev K (snd w) (workdir C)")
      case None
      then show ?thesis by (intro exI[of _ "\<lambda>w. (None, w)"]) (simp add: emits_nothing)
    next
      case (Some dev)
      then show ?thesis
        by (intro exI[of _ "write_file K (snprintf_s PATH_MAX (g @ ''/io.max'')) (io_limits dev C)"]) (simp add: emits_write_file)
    qed
  qed
  then show ?thesis by (simp add: write_limits_def emits_write_file)
qed

lemma acts_grow: "list_all (emits (calls P)) xs \<Longrightarrow> \<exists>l. fst (snd (run_acts xs v)) = fst v @ l \<and> calls P l"
  using emits_calls_log[OF emits_run_acts surjective_pairing] .

lemma cgroup_make_log: "cgroup_make K pid C base w = (cg, w') \<Longrightarrow> \<exists>l. fst w' = fst w @ l \<and> calls no_release l"
proof -
  assume c: "cgroup_make K pid C base w = (cg, w')"
  define g where "g = snprintf_s PATH_MAX (base @ ''/agentcell-'' @ dec_int pid)"
  have "list_all (emits (calls no_release)) (arm_controllers K base C)" by (simp add: arm_controllers_def Let_def emits_write_file)
  then obtain l1 where l1: "fst (snd (run_acts (arm_controllers K base C) w)) = fst w @ l1" "calls no_release l1"
    using acts_grow by blast
  obtain r w2 where m: "do_call K (Mkdir g m0755) (snd (run_acts (arm_controllers K base C) w)) = (r, w2)" by (rule prod.exhaust)
  then have w2: "fst w2 = fst w @ l1 @ [(Mkdir g m0755, r)]" using l1(1) by (auto simp: do_call_def case_prod_beta)
  obtain l3 where l3: "fst (snd (run_acts (write_limits K g C) w2)) = fst w2 @ l3" "calls no_release l3"
    using acts_grow[OF emits_write_limits] by blast
  have "w' = (if r < 0 then w2 else snd (run_acts (write_limits K g C) w2))"
    using c m unfolding cgroup_make_def Let_def g_def[symmetric] by (auto split: if_splits)
  then show ?thesis using w2 l1(2) l3 by auto
qed

lemma cgroup_setup_log: "cgroup_setup K pid C w = (cg, w') \<Longrightarrow> \<exists>l. fst w' = fst w @ l \<and> calls no_release l"
  unfolding cgroup_setup_def Let_def by (auto intro: cgroup_make_log split: option.splits if_splits)

lemma emits_maps: "list_all (emits (calls no_release)) (write_uid_maps K uid gid pid @ park K cg pid)"
  by (auto simp: write_uid_maps_def park_def emits_write_file intro!: emits_must)

lemma maps_written:
  assumes "run_acts (write_uid_maps K uid gid pid @ park K cg pid) w = (None, w')"
  shows "\<exists>l. fst w' = fst w @ l \<and> calls no_release l \<and>
    (\<exists>r\<ge>0. (WriteFile (proc_path pid ''/uid_map'') (id_map uid), r) \<in> set l) \<and>
    (\<exists>r\<ge>0. (WriteFile (proc_path pid ''/gid_map'') (id_map gid), r) \<in> set l) \<and>
    (snd cg \<longrightarrow> tried_write (snprintf_s PATH_MAX (fst cg @ ''/cgroup.procs'')) (snprintf_s 32 (dec_int pid)) l)"
proof -
  let ?u = "WriteFile (proc_path pid ''/uid_map'') (id_map uid)" and ?g = "WriteFile (proc_path pid ''/gid_map'') (id_map gid)"
  let ?ou = "Sup (OpenWrite (proc_path pid ''/uid_map''))" and ?og = "Sup (OpenWrite (proc_path pid ''/gid_map''))"
  let ?s = "write_file K (proc_path pid ''/setgroups'') ''deny''"
  obtain v where v: "run_acts (write_uid_maps K uid gid pid) w = (None, v)" "run_acts (park K cg pid) v = (None, w')"
    using assms by (rule run_acts_split)
  obtain w1 where w1: "?s w = (None, w1)" by (metis goes_def goes_write_file prod.collapse)
  obtain l1 where l1: "fst w1 = fst w @ l1" "calls no_release l1" using emits_calls_log[OF emits_write_file[of no_release] w1] by auto
  from v(1) w1 have "run_acts [must K ?ou ''open uid_map'', must K ?u ''write uid_map'', must K ?og ''open gid_map'', must K ?g ''write gid_map''] w1 = (None, v)"
    by (simp add: write_uid_maps_def)
  then obtain a b c where abc: "must K ?ou ''open uid_map'' w1 = (None, a)" "must K ?u ''write uid_map'' a = (None, b)"
    "must K ?og ''open gid_map'' b = (None, c)" "must K ?g ''write gid_map'' c = (None, v)"
    by (auto split: prod.splits option.splits)
  obtain r1 where r1: "fst a = fst w1 @ [(?ou, r1)]" using must_ok[OF abc(1)] by blast
  obtain r2 where r2: "0 \<le> r2" "fst b = fst a @ [(?u, r2)]" using must_ok[OF abc(2)] by blast
  obtain r3 where r3: "fst c = fst b @ [(?og, r3)]" using must_ok[OF abc(3)] by blast
  obtain r4 where r4: "0 \<le> r4" "fst v = fst c @ [(?g, r4)]" using must_ok[OF abc(4)] by blast
  have fv: "fst v = fst w @ (l1 @ [(?ou, r1), (?u, r2), (?og, r3), (?g, r4)])" using l1 r1 r2 r3 r4 by simp
  have "list_all (emits (calls no_release)) (park K cg pid)" using emits_maps[of K uid gid pid cg] by simp
  then obtain l2 where l2: "fst w' = fst v @ l2" "calls no_release l2" using emits_calls_log[OF emits_run_acts v(2)] by blast
  have procs: "tried_write (snprintf_s PATH_MAX (fst cg @ ''/cgroup.procs'')) (snprintf_s 32 (dec_int pid)) l2" if "snd cg"
  proof -
    have "\<exists>m. write_file K (snprintf_s PATH_MAX (fst cg @ ''/cgroup.procs'')) (snprintf_s 32 (dec_int pid)) v = (m, w')"
      using v(2) that unfolding park_def by (auto split: prod.splits option.splits)
    then show ?thesis using write_file_tries[of K _ _ v _ w'] l2(1) by fastforce
  qed
  let ?l = "l1 @ [(?ou, r1), (?u, r2), (?og, r3), (?g, r4)] @ l2"
  have "set l2 \<subseteq> set ?l" by auto
  then have "snd cg \<longrightarrow> tried_write (snprintf_s PATH_MAX (fst cg @ ''/cgroup.procs'')) (snprintf_s 32 (dec_int pid)) ?l"
    using tried_write_mono[OF procs] by blast
  then show ?thesis using fv l2 l1(2) r2(1) r4(1) by (intro exI[of _ ?l]) auto
qed

lemma register_lsm_log: "register_lsm D C cg w = (lon, w') \<Longrightarrow> \<exists>l. fst w' = fst w @ l \<and> calls no_release l"
  by (auto simp: register_lsm_def log_note_def Let_def split: if_splits)

lemma veth_register_result:
  assumes "net_veth_register fs talk pid C = (vr, C')" "\<not> veth_on C"
  shows "veth_on C' \<longleftrightarrow> vr = 0" "ask C' = ask C"
proof -
  have "veth_on (put_veth ws D) = veth_on D" "ask (put_veth ws D) = ask D" for ws D by (simp_all add: put_veth_def Let_def)
  moreover have "veth_on (resolv_collect fs C) = veth_on C" "ask (resolv_collect fs C) = ask C"
    by (simp_all add: resolv_collect_def Let_def resolv_add_file_def split: option.split)
  ultimately show "veth_on C' \<longleftrightarrow> vr = 0" "ask C' = ask C"
    using assms by (auto simp: net_veth_register_def Let_def split: option.splits if_splits)
qed

lemma veth_register_egress:
  assumes "net_veth_register fs talk pid C = (vr, C')" "egress C \<noteq> []" "egress_ok (egress C)" "resolv_ok (resolv C)" "0 < pid" "pid < 2 ^ 31"
  shows "vr = - 2 \<or> vr = 0"
proof -
  let ?D = "if resolv C = [] then resolv_collect fs C else C"
  have "egress_ok (egress ?D)" "resolv_ok (resolv ?D)" using assms(3,4) resolv_collect_ok[of fs C] by (auto simp: resolv_collect_egress)
  then obtain cmd where "netup_cmd pid ?D = Some cmd" using netup_cmd_fits[OF _ _ assms(5,6)] by blast
  then show ?thesis using assms(1,2)
    by (auto simp: net_veth_register_def Let_def resolv_collect_egress put_veth_def split: if_splits)
qed

text \<open>What the log holds before the release of the child \<open>pid\<close>.\<close>

definition confined_before :: "bool \<Rightarrow> int \<Rightarrow> int \<Rightarrow> int \<Rightarrow> cfg \<Rightarrow> cstr \<times> bool \<Rightarrow> cfg \<Rightarrow> log \<Rightarrow> bool" where
  "confined_before strict uid gid pid C cg C' l \<longleftrightarrow>
     (\<exists>r\<ge>0. (WriteFile (proc_path pid ''/uid_map'') (id_map uid), r) \<in> set l) \<and>
     (\<exists>r\<ge>0. (WriteFile (proc_path pid ''/gid_map'') (id_map gid), r) \<in> set l) \<and>
     (snd cg \<longrightarrow> tried_write (snprintf_s PATH_MAX (fst cg @ ''/cgroup.procs'')) (snprintf_s 32 (dec_int pid)) l) \<and>
     (veth_on C' \<longrightarrow> (Sup (NetUp pid), 0) \<in> set l) \<and>
     (strict \<and> netmode C = NET_VETH \<and> egress C \<noteq> [] \<and> egress_ok (egress C) \<and> resolv_ok (resolv C) \<and> 0 < pid \<and> pid < 2 ^ 31 \<longrightarrow> veth_on C')"

lemma confined_before_mono: "confined_before strict uid gid pid C cg C' l \<Longrightarrow> set l \<subseteq> set l' \<Longrightarrow> confined_before strict uid gid pid C cg C' l'"
  unfolding confined_before_def using tried_write_mono[of _ _ l l'] by blast

text \<open>Where the cgroup of a cell comes from: it was made, and its limits were handed to the kernel; or there is none, because the
  caller's own cgroup is unknown or the kernel refused to make it.\<close>

definition cgroup_made :: "cstr \<times> bool \<Rightarrow> cfg \<Rightarrow> log \<Rightarrow> bool" where
  "cgroup_made cg C l \<longleftrightarrow>
     (if snd cg
      then (\<exists>r\<ge>0. (Mkdir (fst cg) m0755, r) \<in> set l) \<and>
        tried_write (snprintf_s PATH_MAX (fst cg @ ''/cpu.max'')) (cpu_max C) l \<and>
        tried_write (snprintf_s PATH_MAX (fst cg @ ''/memory.max'')) (snprintf_s 64 (dec_int (mem_bytes C))) l \<and>
        tried_write (snprintf_s PATH_MAX (fst cg @ ''/pids.max'')) (snprintf_s 64 (dec_int (pids C))) l
      else cg = ([], False) \<or> (\<exists>r<0. (Mkdir (fst cg) m0755, r) \<in> set l))"

lemma cgroup_made_mono: "cgroup_made cg C l \<Longrightarrow> set l \<subseteq> set l' \<Longrightarrow> cgroup_made cg C l'"
  unfolding cgroup_made_def using tried_write_mono[of _ _ l l'] by (auto split: if_splits)

lemma goes_write_limits: "list_all goes (write_limits K g C)"
  by (simp add: write_limits_def goes_write_file)
    (simp add: goes_def write_file_def attempt_def Let_def case_prod_beta split: option.split)

lemma cgroup_make_made: "cgroup_make K pid C base w = (cg, w') \<Longrightarrow> cgroup_made cg C (fst w')"
proof -
  assume c: "cgroup_make K pid C base w = (cg, w')"
  define g where "g = snprintf_s PATH_MAX (base @ ''/agentcell-'' @ dec_int pid)"
  obtain r w2 where m: "do_call K (Mkdir g m0755) (snd (run_acts (arm_controllers K base C) w)) = (r, w2)" by (rule prod.exhaust)
  then have w2: "(Mkdir g m0755, r) \<in> set (fst w2)" by (auto simp: do_call_def case_prod_beta)
  obtain n w3 where w3: "run_acts (write_limits K g C) w2 = (n, w3)" by (rule prod.exhaust)
  have e: "(cg, w') = (if r < 0 then ((g, False), w2) else ((g, True), w3))"
    using c m w3 unfolding cgroup_make_def Let_def g_def[symmetric] by (auto split: if_splits)
  show ?thesis
  proof (cases "r < 0")
    case True
    then show ?thesis using e w2 by (auto simp: cgroup_made_def)
  next
    case False
    note tries = acts_try[of K, OF _ goes_write_limits emits_write_limits w3]
    obtain l where "fst w3 = fst w2 @ l" using emits_calls_log[OF emits_run_acts[OF emits_write_limits] w3] by blast
    then have "\<exists>r\<ge>0. (Mkdir g m0755, r) \<in> set (fst w3)" using w2 False by (intro exI[of _ r]) simp
    then show ?thesis using e False by (simp add: cgroup_made_def) (intro conjI tries; simp add: write_limits_def)
  qed
qed

lemma cgroup_setup_made: "cgroup_setup K pid C w = (cg, w') \<Longrightarrow> cgroup_made cg C (fst w')"
proof -
  assume c: "cgroup_setup K pid C w = (cg, w')"
  have "cgroup_made ([], False) C (fst w)" by (simp add: cgroup_made_def)
  then show ?thesis using c cgroup_make_made[of K pid C _ w cg w']
    unfolding cgroup_setup_def Let_def by (auto split: option.splits if_splits)
qed

lemma release_cases:
  assumes "release_child K D n uid gid strict pid C cg w = (res, w')" "\<not> veth_on C"
  shows "(\<exists>m l. res = LDied m \<and> fst w' = fst w @ l \<and> calls no_release l) \<or>
    (\<exists>l r. strict \<and> res = LExit 127 \<and> fst w' = fst w @ l \<and> calls no_release l \<and> (Sup (Kill pid), r) \<in> set l) \<or>
    (\<exists>C' lon l r. res = LStarted pid C' cg lon \<and> fst w' = fst w @ l @ [(Sup (SyncChild (sync_text n C')), r)] \<and>
       calls no_release l \<and> confined_before strict uid gid pid C cg C' l \<and> ask C' = ask C)"
proof -
  obtain m w1 where w1: "run_acts (write_uid_maps K uid gid pid @ park K cg pid) w = (m, w1)" by (rule prod.exhaust)
  obtain lon w2 where w2: "register_lsm D C cg w1 = (lon, w2)" by (rule prod.exhaust)
  obtain vr C' w3 where w3: "register_veth D pid C w2 = (vr, C', w3)" by (metis prod.exhaust)
  obtain l2 where l2: "fst w2 = fst w1 @ l2" "calls no_release l2" using register_lsm_log[OF w2] by blast
  have l3: "\<exists>l3. fst w3 = fst w2 @ l3 \<and> calls no_release l3 \<and> (netmode C = NET_VETH \<longrightarrow> l3 = [(Sup (NetUp pid), vr)])"
    using w3 by (auto simp: register_veth_def log_note_def case_prod_beta split: if_splits)
  then obtain l3 where l3: "fst w3 = fst w2 @ l3" "calls no_release l3" "netmode C = NET_VETH \<longrightarrow> l3 = [(Sup (NetUp pid), vr)]" by blast
  have plain: "netmode C \<noteq> NET_VETH \<Longrightarrow> C' = C" using w3 by (simp add: register_veth_def)
  have veth: "net_veth_register (d_fs D) (d_talk D) pid C = (vr, C')" if "netmode C = NET_VETH"
    using w3 that by (simp add: register_veth_def case_prod_beta) (metis prod.collapse)
  show ?thesis
  proof (cases m)
    case (Some msg)
    then have "res = LDied msg \<and> w' = w1" using assms(1) w1 by (simp add: release_child_def del: run_acts.simps)
    then show ?thesis using emits_calls_log[OF emits_run_acts[OF emits_maps] w1] by blast
  next
    case None
    from maps_written[OF w1[unfolded None]] obtain l1 where l1: "fst w1 = fst w @ l1" "calls no_release l1"
      "\<exists>r\<ge>0. (WriteFile (proc_path pid ''/uid_map'') (id_map uid), r) \<in> set l1"
      "\<exists>r\<ge>0. (WriteFile (proc_path pid ''/gid_map'') (id_map gid), r) \<in> set l1"
      "snd cg \<longrightarrow> tried_write (snprintf_s PATH_MAX (fst cg @ ''/cgroup.procs'')) (snprintf_s 32 (dec_int pid)) l1" by blast
    let ?l = "l1 @ l2 @ l3"
    have fw3: "fst w3 = fst w @ ?l" "calls no_release ?l" using l1 l2 l3 by simp_all
    show ?thesis
    proof (cases "strict \<and> vr = - 2")
      case True
      then have r: "res = LExit 127" "w' = give_up K D pid C' cg lon w3"
        using assms(1) w1 w2 w3 None by (simp_all add: release_child_def del: run_acts.simps)
      have "\<exists>l r. fst (give_up K D pid C' cg lon w3) = fst w3 @ (Sup (Kill pid), r) # l \<and> calls no_release l"
        by (simp add: give_up_def do_call_def log_note_def unregister_lsm_def lsm_unregister_def Let_def case_prod_beta)
      then obtain l4 r4 where "fst w' = fst w @ ?l @ (Sup (Kill pid), r4) # l4" "calls no_release l4" using r fw3 by auto
      then show ?thesis using r(1) fw3(2) True
        by (intro disjI2 disjI1 exI[of _ "?l @ (Sup (Kill pid), r4) # l4"] exI[of _ r4]) simp
    next
      case False
      then have r: "res = LStarted pid C' cg lon" "w' = snd (do_call K (Sup (SyncChild (sync_text n C'))) w3)"
        using assms(1) w1 w2 w3 None by (auto simp: release_child_def simp del: run_acts.simps split: if_splits)
      have on: "veth_on C' \<longrightarrow> (Sup (NetUp pid), 0) \<in> set ?l" "ask C' = ask C"
        using veth_register_result[OF veth assms(2)] plain l3(3) assms(2) by (cases "netmode C = NET_VETH"; auto)+
      have "strict \<and> netmode C = NET_VETH \<and> egress C \<noteq> [] \<and> egress_ok (egress C) \<and> resolv_ok (resolv C) \<and> 0 < pid \<and> pid < 2 ^ 31 \<longrightarrow> veth_on C'"
        using veth_register_egress[OF veth] veth_register_result[OF veth assms(2)] False by blast
      moreover have "snd cg \<longrightarrow> tried_write (snprintf_s PATH_MAX (fst cg @ ''/cgroup.procs'')) (snprintf_s 32 (dec_int pid)) ?l"
        using l1(5) tried_write_mono[of _ _ l1 ?l] by auto
      ultimately have "confined_before strict uid gid pid C cg C' ?l" using l1(3,4) on unfolding confined_before_def by auto
      moreover have "\<exists>r. fst w' = fst w @ ?l @ [(Sup (SyncChild (sync_text n C')), r)]"
        using r(2) fw3(1) by (simp add: do_call_def case_prod_beta)
      ultimately show ?thesis using r(1) fw3(2) on(2) by blast
    qed
  qed
qed

text \<open>The launch as a whole: whatever the kernel and the daemon answer, it dies or gives up without ever releasing the child, or
  releases it once, after it was confined.\<close>

lemma launch_confined:
  assumes "launch K D self uid gid serving C (l0, h) = (res, (l, h'))" "\<not> veth_on C" "calls no_release l0"
  shows "case res of
      LDied m \<Rightarrow> calls no_release l
    | LExit n \<Rightarrow> n = 127 \<and> calls no_release l \<and> (\<exists>pid r. (Sup (Kill pid), r) \<in> set l)
    | LStarted pid C' cg lon \<Rightarrow> \<exists>l1 r l2. l = l1 @ (Sup (SyncChild (sync_text 160 C')), r) # l2 \<and>
        calls no_release l1 \<and> calls no_release l2 \<and> (Sup (Clone (netmode C \<noteq> NET_HOST)), pid) \<in> set l1 \<and>
        confined_before True uid gid pid C cg C' l1 \<and> cgroup_made cg C l1"
proof -
  obtain m0 w0 where w0: "must K (Sup (Mkdtemp ''/tmp/agentcell-root.XXXXXX'')) ''mkdtemp'' (l0, h) = (m0, w0)" by (rule prod.exhaust)
  obtain cg w1 where w1: "cgroup_setup K self C w0 = (cg, w1)" by (rule prod.exhaust)
  obtain m2 w2 where w2: "run_acts (launch_prepare K serving C) w1 = (m2, w2)" by (rule prod.exhaust)
  obtain pid w3 where w3: "do_call K (Sup (Clone (netmode C \<noteq> NET_HOST))) w2 = (pid, w3)" by (rule prod.exhaust)
  obtain res4 w4 where w4: "release_child K D 160 uid gid True pid C cg w3 = (res4, w4)" by (rule prod.exhaust)
  have q0: "calls no_release (fst w0)" using w0 assms(3) by (auto simp: must_def do_call_def case_prod_beta)
  have q1: "calls no_release (fst w1)" using cgroup_setup_log[OF w1] q0 by auto
  have em: "list_all (emits (calls no_release)) (launch_prepare K serving C)" by (simp add: launch_prepare_def emits_must)
  have q2: "calls no_release (fst w2)" using emits_calls_log[OF emits_run_acts[OF em] w2] q1 by auto
  have f3: "fst w3 = fst w2 @ [(Sup (Clone (netmode C \<noteq> NET_HOST)), pid)]" using w3 by (auto simp: do_call_def case_prod_beta)
  then have q3: "calls no_release (fst w3)" using q2 by simp
  have "set (fst w1) \<subseteq> set (fst w3)" using emits_calls_log[OF emits_run_acts[OF em] w2] f3 by auto
  then have made: "cgroup_made cg C (fst w3)" using cgroup_setup_made[OF w1] cgroup_made_mono by blast
  have eq: "launch K D self uid gid serving C (l0, h) =
    (case m0 of Some m \<Rightarrow> (LDied m, w0) | None \<Rightarrow> case m2 of Some m \<Rightarrow> (LDied m, w2) | None \<Rightarrow>
      if pid < 0 then (LDied ''clone (userns disabled? sysctl kernel.unprivileged_userns_clone)'', w3)
      else case (res4, w4) of
        (LStarted p C cg lon, w) \<Rightarrow> (LStarted p C cg lon, if ask C then snd (do_call K (Sup RecvListener) w) else w) | r \<Rightarrow> r)"
    using w0 w1 w2 w3 w4 by (simp add: launch_def del: run_acts.simps split: option.split)
  consider m where "res = LDied m" "l \<in> {fst w0, fst w2, fst w3}"
    | "m0 = None" "m2 = None" "\<not> pid < 0" using eq assms(1) by (auto split: option.splits if_splits)
  then show ?thesis
  proof cases
    case 1
    then show ?thesis using q0 q2 q3 by auto
  next
    case 2
    from release_cases[OF w4 assms(2)] show ?thesis
    proof (elim disjE exE conjE)
      fix m l4
      assume "res4 = LDied m" "fst w4 = fst w3 @ l4" "calls no_release l4"
      then show ?thesis using eq assms(1) 2 q3 by auto
    next
      fix l4 r4
      assume "res4 = LExit 127" "fst w4 = fst w3 @ l4" "calls no_release l4" "(Sup (Kill pid), r4) \<in> set l4"
      moreover from this have "res = LExit 127" "l = fst w3 @ l4" using eq assms(1) 2 by auto
      moreover have "\<exists>pid r. (Sup (Kill pid), r) \<in> set (fst w3 @ l4)" using calculation(4) by (intro exI[of _ pid] exI[of _ r4]) simp
      ultimately show ?thesis using q3 by simp
    next
      fix C' lon l4 r4
      assume a: "res4 = LStarted pid C' cg lon" "fst w4 = fst w3 @ l4 @ [(Sup (SyncChild (sync_text 160 C')), r4)]"
        "calls no_release l4" "confined_before True uid gid pid C cg C' l4" "ask C' = ask C"
      then have res: "res = LStarted pid C' cg lon" "(l, h') = (if ask C' then snd (do_call K (Sup RecvListener) w4) else w4)"
        using eq assms(1) 2 by auto
      then obtain l2 where "l = fst w4 @ l2" "calls no_release l2" by (auto simp: do_call_def case_prod_beta split: if_splits)
      then have "l = (fst w3 @ l4) @ (Sup (SyncChild (sync_text 160 C')), r4) # l2" "calls no_release l2" using a(2) by simp_all
      moreover have "confined_before True uid gid pid C cg C' (fst w3 @ l4)" "cgroup_made cg C (fst w3 @ l4)"
        using confined_before_mono[OF a(4)] cgroup_made_mono[OF made] by simp_all
      moreover have "calls no_release (fst w3 @ l4)" "(Sup (Clone (netmode C \<noteq> NET_HOST)), pid) \<in> set (fst w3 @ l4)"
        using q3 a(3) f3 by auto
      ultimately show ?thesis unfolding res(1) launch_end.case
        by (intro exI[of _ "fst w3 @ l4"] exI[of _ r4] exI[of _ l2] conjI)
    qed
  qed
qed

subsection \<open>The message\<close>

lemma scan_words_last:
  assumes "reply_word a" "reply_word b" "reply_word g"
  shows "scan_words 3 (CHR '' '' # a @ CHR '' '' # b @ CHR '' '' # g) = ([a, b, g], [])"
proof -
  have sp: "isspace (CHR '' '')" by (simp add: isspace_def)
  have x: "x \<noteq> []" "\<forall>c \<in> set x. \<not> isspace c" "length x \<le> 63" if "reply_word x" for x using that by (auto simp: reply_word_def)
  have "scan_s 63 (CHR '' '' # a @ CHR '' '' # b @ CHR '' '' # g) = Some (a, CHR '' '' # b @ CHR '' '' # g)"
    "scan_s 63 (CHR '' '' # b @ CHR '' '' # g) = Some (b, CHR '' '' # g)" "scan_s 63 (CHR '' '' # g) = Some (g, [])"
    using scan_s_word(2)[OF x[OF assms(1)], of "CHR '' '' # b @ CHR '' '' # g"] scan_s_word(2)[OF x[OF assms(2)], of "CHR '' '' # g"]
      scan_s_word(2)[OF x[OF assms(3)], of "[]"] sp by simp_all
  then show ?thesis by (simp add: numeral_3_eq_3)
qed

text \<open>C24: the child configures the network the parent registered. Whatever three words of up to 15 characters the daemon's answer
  held (an interface, an address, a gateway; \<open>cell_words_ok\<close> shows that its answers are such), the child reads back exactly
  these from the sync pipe and configures them.\<close>

theorem sync_message_roundtrip:
  assumes "netmode C = NET_VETH" "veth_on P" "reply_word (veth_if P)" "reply_word (veth_ip P)" "reply_word (veth_gw P)"
  shows "sync_veth (sync_text 160 P) C = (True, C\<lparr>veth_if := veth_if P, veth_ip := veth_ip P, veth_gw := veth_gw P\<rparr>)"
proof -
  let ?s = "CHR ''x'' # CHR '' '' # veth_if P @ CHR '' '' # veth_ip P @ CHR '' '' # veth_gw P"
  have len: "length ?s \<le> 49" using assms(3-5) by (simp add: reply_word_def)
  then have "sync_text 160 P = ?s" using assms(2) by (simp add: sync_text_def snprintf_s_def)
  moreover have "CHR 0x00 \<notin> set ?s" using assms(3-5) by (auto simp: reply_word_def)
  then have "drop 1 (cut0 (take 159 ?s)) = tl ?s" using len cut0_id[of ?s] by simp
  ultimately show ?thesis
    using assms(1) scan_words_last[OF assms(3-5)] by (simp add: sync_veth_def put_veth_def)
qed

theorem sync_message_roundtrip_witness:
  "\<exists>P. cell_words 0 = [veth_if P, veth_ip P, veth_gw P] \<and>
     sync_veth (sync_text 160 P) (cfg_init\<lparr>netmode := NET_VETH\<rparr>) =
       (True, cfg_init\<lparr>netmode := NET_VETH, veth_if := veth_if P, veth_ip := veth_ip P, veth_gw := veth_gw P\<rparr>)"
proof -
  obtain a b g where w: "cell_words 0 = [a, b, g]" by (simp add: cell_words_def)
  let ?P = "cfg_init\<lparr>veth_if := a, veth_ip := b, veth_gw := g, veth_on := True\<rparr>"
  have "reply_word a" "reply_word b" "reply_word g" using cell_words_ok[of 0] w by auto
  then have "sync_veth (sync_text 160 ?P) (cfg_init\<lparr>netmode := NET_VETH\<rparr>) =
      (True, (cfg_init\<lparr>netmode := NET_VETH\<rparr>)\<lparr>veth_if := veth_if ?P, veth_ip := veth_ip ?P, veth_gw := veth_gw ?P\<rparr>)"
    by (intro sync_message_roundtrip) simp_all
  then show ?thesis using w by (intro exI[of _ ?P]) simp
qed

subsection \<open>Waiting\<close>

definition timeout_post :: "(nat \<Rightarrow> bool) \<Rightarrow> int \<Rightarrow> nat \<Rightarrow> bool \<times> nat \<Rightarrow> bool" where
  "timeout_post alive left j res \<longleftrightarrow> (\<exists>killed k. res = (killed, j + k) \<and> int k \<le> left \<and>
     (if killed then int k = left \<and> (\<forall>i\<le>k. alive (j + i)) else \<not> alive (j + k) \<and> (\<forall>i<k. alive (j + i))))"

lemma timeout_post_step:
  assumes "timeout_post alive (left - 1) (Suc j) res" "alive j"
  shows "timeout_post alive left j res"
proof -
  obtain killed k where IH: "res = (killed, Suc j + k)" "int k \<le> left - 1"
    "if killed then int k = left - 1 \<and> (\<forall>i\<le>k. alive (Suc j + i)) else \<not> alive (Suc j + k) \<and> (\<forall>i<k. alive (Suc j + i))"
    using assms(1) unfolding timeout_post_def by blast
  have all: "(\<forall>i<n. alive (Suc j + i)) \<Longrightarrow> (\<forall>i<Suc n. alive (j + i))" for n
    using assms(2) by (simp add: All_less_Suc2)
  show ?thesis
  proof (cases killed)
    case True
    then have "\<forall>i\<le>Suc k. alive (j + i)" using IH(3) all[of "Suc k"] unfolding less_Suc_eq_le by simp
    then show ?thesis using True IH unfolding timeout_post_def by (intro exI[of _ True] exI[of _ "Suc k"]) simp
  next
    case False
    then show ?thesis using IH all[of k] unfolding timeout_post_def by (intro exI[of _ False] exI[of _ "Suc k"]) simp
  qed
qed

lemma wait_timeout_post: "0 \<le> left \<Longrightarrow> timeout_post alive left j (wait_timeout alive left j)"
proof (induction alive left j rule: wait_timeout.induct)
  case (1 alive left j)
  consider "\<not> alive j" | "alive j" "left = 0" | "alive j" "0 < left" using 1(2) by linarith
  then show ?case
  proof cases
    case 1
    then show ?thesis using \<open>0 \<le> left\<close> by (subst wait_timeout.simps) (auto simp: timeout_post_def)
  next
    case 2
    then show ?thesis by (subst wait_timeout.simps) (auto simp: timeout_post_def)
  next
    case 3
    then have "timeout_post alive (left - 1) (Suc j) (wait_timeout alive (left - 1) (Suc j))" using 1(1) by simp
    from timeout_post_step[OF this 3(1)] show ?thesis using 3 by (subst wait_timeout.simps) simp
  qed
qed

text \<open>C28: \<^verbatim>\<open>--timeout\<close> ends. Whatever the payload does, the waiting loop stops after at most the given number of one-second
  sleeps: either the payload was seen to have ended, or it was alive at every look and is killed after exactly that
  many seconds.\<close>

theorem timeout_ends:
  assumes "0 \<le> limit"
  shows "\<exists>killed k. wait_timeout alive limit 0 = (killed, k) \<and> int k \<le> limit \<and>
    (if killed then int k = limit \<and> (\<forall>i\<le>k. alive i) else \<not> alive k \<and> (\<forall>i<k. alive i))"
  using wait_timeout_post[OF assms, of alive 0] unfolding timeout_post_def add_0 .

theorem timeout_ends_witness: "wait_timeout (\<lambda>i. True) 5 0 = (True, 5) \<and> wait_timeout (\<lambda>i. i < 3) 5 0 = (False, 3)"
proof -
  have a: "wait_timeout (\<lambda>i. True) 5 0 = (True, 5)" using timeout_ends[of 5 "\<lambda>i. True"] by (auto split: if_splits)
  obtain killed k where k: "wait_timeout (\<lambda>i. i < 3) 5 0 = (killed, k)"
    "if killed then int k = 5 \<and> (\<forall>i\<le>k. i < 3) else \<not> k < 3 \<and> (\<forall>i<k. i < (3::nat))"
    using timeout_ends[of 5 "\<lambda>i. i < 3"] by auto
  have "\<not> killed" using k(2) by (auto split: if_splits)
  moreover from this have "k = 3" using k(2) by (metis linorder_neqE_nat less_irrefl)
  ultimately show ?thesis using a k(1) by simp
qed

text \<open>The loop of \<^verbatim>\<open>--ask\<close> ends at the first look at which the payload is gone or the clock has reached the limit.\<close>

lemma wait_ask_ends:
  assumes "\<not> alive n \<or> 0 < limit \<and> limit \<le> clock n - t0" "\<And>i. i < n \<Longrightarrow> alive i \<and> \<not> (0 < limit \<and> limit \<le> clock i - t0)" "j \<le> n"
  shows "wait_ask alive clock t0 limit j = Some (alive n, n)"
  using assms(3)
proof (induction "n - j" arbitrary: j)
  case 0
  then have "j = n" by simp
  then show ?case using assms(1) by (subst wait_ask.simps) auto
next
  case (Suc m)
  then have "j < n" "m = n - Suc j" "Suc j \<le> n" by simp_all
  then show ?case using assms(2)[of j] Suc.hyps(1)[of "Suc j"] by (subst wait_ask.simps) auto
qed

end
