(* ===== verification/Option_Claims.thy ===== *)
theory Option_Claims
  imports Options Launch_Claims
begin

text \<open>
  The command line: every configuration fits the arrays of \<^verbatim>\<open>struct cfg\<close> and is consistent, the payload's own
  arguments are never read as options, and from any command line a child is only released once it is confined.
\<close>

subsection \<open>Configurations\<close>

definition bind_ok :: "bind \<Rightarrow> bool" where
  "bind_ok b \<longleftrightarrow> starts ''/'' (b_dst b) \<and> length (b_dst b) < PATH_MAX \<and> (b_dst b = ''/'' \<or> last (b_dst b) \<noteq> CHR ''/'')"

definition secret_ok :: "cstr \<times> cstr \<Rightarrow> bool" where
  "secret_ok s \<longleftrightarrow> length (fst s) < PATH_MAX \<and> (starts ''/tmp/'' (fst s) \<or> starts ''/run/'' (fst s) \<or> starts ''/var/tmp/'' (fst s))"

definition cfg_ok :: "cfg \<Rightarrow> bool" where
  "cfg_ok C \<longleftrightarrow>
     list_all (\<lambda>l. length l \<le> MAXBIND) [ro_dirs C, rw_dirs C, ov_dirs C, deny_pfx C] \<and>
     length (binds C) \<le> MAXBIND \<and> list_all bind_ok (binds C) \<and>
     list_all (\<lambda>p. length p \<le> 255) (deny_pfx C) \<and> (deny_pfx C \<noteq> [] \<longrightarrow> secure C) \<and> egress_ok (egress C) \<and>
     length (env_kv C) \<le> MAX_ENV \<and> list_all (\<lambda>kv. CHR ''='' \<in> set kv) (env_kv C) \<and>
     length (secrets C) \<le> MAX_SECRET \<and> list_all secret_ok (secrets C) \<and>
     length (sock C) < PATH_MAX \<and> length (cpu_max C) < 64 \<and> - (2 ^ 31) \<le> timeout C \<and> timeout C < 2 ^ 31"

text \<open>What the options leave to the launch.\<close>

definition unstarted :: "cfg \<Rightarrow> bool" where
  "unstarted C \<longleftrightarrow> \<not> veth_on C \<and> resolv C = []"

lemma cfg_ok_frame [simp]:
  "cfg_ok (C\<lparr>mem_bytes := x\<rparr>) = cfg_ok C" "cfg_ok (C\<lparr>pids := x\<rparr>) = cfg_ok C" "cfg_ok (C\<lparr>netmode := m\<rparr>) = cfg_ok C"
  "cfg_ok (C\<lparr>workdir := s\<rparr>) = cfg_ok C" "cfg_ok (C\<lparr>rootfs := s\<rparr>) = cfg_ok C" "cfg_ok (C\<lparr>io_rbps := x\<rparr>) = cfg_ok C"
  "cfg_ok (C\<lparr>io_wbps := x\<rparr>) = cfg_ok C" "cfg_ok (C\<lparr>workdir_size := x\<rparr>) = cfg_ok C" "cfg_ok (C\<lparr>ask := b\<rparr>) = cfg_ok C"
  "cfg_ok (C\<lparr>no_landlock := b\<rparr>) = cfg_ok C" "cfg_ok (C\<lparr>no_seccomp := b\<rparr>) = cfg_ok C" "cfg_ok (C\<lparr>argv := a\<rparr>) = cfg_ok C"
  by (simp_all add: cfg_ok_def)

lemma unstarted_frame [simp]:
  "unstarted (C\<lparr>mem_bytes := x\<rparr>) = unstarted C" "unstarted (C\<lparr>pids := x\<rparr>) = unstarted C" "unstarted (C\<lparr>netmode := m\<rparr>) = unstarted C"
  "unstarted (C\<lparr>workdir := s\<rparr>) = unstarted C" "unstarted (C\<lparr>rootfs := s\<rparr>) = unstarted C" "unstarted (C\<lparr>io_rbps := x\<rparr>) = unstarted C"
  "unstarted (C\<lparr>io_wbps := x\<rparr>) = unstarted C" "unstarted (C\<lparr>workdir_size := x\<rparr>) = unstarted C" "unstarted (C\<lparr>ask := b\<rparr>) = unstarted C"
  "unstarted (C\<lparr>no_landlock := b\<rparr>) = unstarted C" "unstarted (C\<lparr>no_seccomp := b\<rparr>) = unstarted C" "unstarted (C\<lparr>argv := a\<rparr>) = unstarted C"
  by (simp_all add: unstarted_def)

lemma snprintf_fits: "0 < n \<Longrightarrow> length (snprintf_s n s) < n"
  by (simp add: snprintf_s_def)

lemma strip_slashes_ok:
  assumes "starts ''/'' d" "length d < PATH_MAX"
  shows "starts ''/'' (strip_slashes d) \<and> length (strip_slashes d) < PATH_MAX \<and>
    (strip_slashes d = ''/'' \<or> last (strip_slashes d) \<noteq> CHR ''/'')"
proof -
  obtain r where d: "d = CHR ''/'' # r" using assms(1) by (cases d) (auto simp: starts_def)
  let ?r = "rev (dropWhile (\<lambda>c. c = CHR ''/'') (rev r))"
  have s: "strip_slashes d = CHR ''/'' # ?r" by (simp add: strip_slashes_def d)
  have len: "length ?r \<le> length r" using length_dropWhile_le[of _ "rev r"] by simp
  have "?r = [] \<or> last ?r \<noteq> CHR ''/''"
    using hd_dropWhile[of "\<lambda>c. c = CHR ''/''" "rev r"] by (auto simp: last_rev)
  then show ?thesis using s len assms(2) d by (auto simp: starts_def)
qed

lemma bind_opt_ok:
  assumes "bind_opt K h ro s C = Go C'" "length (binds C) \<le> MAXBIND" "list_all bind_ok (binds C)"
  shows "\<exists>bs. C' = C\<lparr>binds := bs\<rparr> \<and> length bs \<le> MAXBIND \<and> list_all bind_ok bs"
proof -
  let ?d = "drop (Suc (length (takeWhile (\<lambda>c. c \<noteq> CHR '':'') s))) s"
  have "bind_ok \<lparr>b_src = r, b_dst = strip_slashes (snprintf_s PATH_MAX ?d), b_ro = ro\<rparr>" if "starts ''/'' ?d" for r
  proof -
    have "starts ''/'' (snprintf_s PATH_MAX ?d)" "length (snprintf_s PATH_MAX ?d) < PATH_MAX"
      using that by (cases ?d; simp add: starts_def snprintf_s_def PATH_MAX_def)+
    from strip_slashes_ok[OF this] show ?thesis by (simp add: bind_ok_def)
  qed
  then show ?thesis
    using assms by (auto simp: bind_opt_def path_opt_def Let_def split: if_splits option.splits intro: exI[of _ "binds C"])
qed

lemma env_add_ok:
  "cfg_ok C \<Longrightarrow> unstarted C \<Longrightarrow> cfg_ok (env_add s C) \<and> unstarted (env_add s C) \<and> argv (env_add s C) = argv C"
  by (auto simp: env_add_def cfg_ok_def unstarted_def)

lemma env_fold_ok:
  "cfg_ok C \<Longrightarrow> unstarted C \<Longrightarrow>
   (let C' = foldl (\<lambda>C l. let l = env_line l in if l = [] \<or> hd l = CHR ''#'' then C else env_add l C) C ls
    in cfg_ok C' \<and> unstarted C' \<and> argv C' = argv C)"
proof (induction ls arbitrary: C)
  case (Cons l ls)
  let ?C = "let l = env_line l in if l = [] \<or> hd l = CHR ''#'' then C else env_add l C"
  have "cfg_ok ?C \<and> unstarted ?C \<and> argv ?C = argv C" using env_add_ok[OF Cons.prems] Cons.prems by (simp add: Let_def)
  then show ?case using Cons.IH[of ?C] by (simp add: Let_def)
qed simp

lemma apply_opt_ok:
  assumes "cfg_ok C" "unstarted C" "apply_opt K h E v s C = Go C'"
  shows "cfg_ok C' \<and> unstarted C' \<and> argv C' = argv C"
proof (cases v)
  case OBind
  then show ?thesis using bind_opt_ok[of K h False s C C'] assms by (auto simp: cfg_ok_def unstarted_def)
next
  case OBindRo
  then show ?thesis using bind_opt_ok[of K h True s C C'] assms by (auto simp: cfg_ok_def unstarted_def)
next
  case OEgress
  then have e: "egress_add s C = (0, C')" using assms(3) by (cases "egress_add s C") (simp add: checked_def split: if_splits)
  have "egress_ok (egress C')" using egress_add_ok[OF _ e] assms(1) by (simp add: cfg_ok_def)
  moreover have "C' = C \<or> (\<exists>es m. C' = C\<lparr>egress := es, netmode := m\<rparr>)"
    using e by (auto simp: egress_add_def split: if_splits prod.splits)
  ultimately show ?thesis using assms(1,2) by (auto simp: cfg_ok_def unstarted_def)
next
  case OEnvFile
  then show ?thesis using assms env_fold_ok[OF assms(1,2)]
    by (auto simp: env_file_load_def Let_def split: option.splits if_splits prod.splits)
next
  case OEnv
  then show ?thesis using assms env_add_ok[OF assms(1,2)] by auto
next
  case OSecret
  then have e: "secret_add (k_read K h) s C = (0, C')" using assms(3)
    by (cases "secret_add (k_read K h) s C") (simp add: checked_def split: if_splits)
  have "\<exists>d x. C' = C\<lparr>secrets := secrets C @ [(d, x)]\<rparr> \<and> secret_ok (d, x) \<and> length (secrets C) < MAX_SECRET"
    using e by (auto simp: secret_add_def Let_def secret_ok_def split: if_splits option.splits)
  then show ?thesis using assms(1,2) by (auto simp: cfg_ok_def unstarted_def)
next
  case OTimeout
  have "- (2 ^ 31) \<le> sint (atoi s)" "sint (atoi s) < 2 ^ 31"
    using sint_ge[of "atoi s"] sint_lt[of "atoi s"] by simp_all
  moreover have "C' = C\<lparr>timeout := sint (atoi s)\<rparr>" using assms(3) OTimeout by simp
  ultimately show ?thesis using assms(1,2) by (simp add: cfg_ok_def unstarted_def)
next
  case OSock
  then obtain x where "C' = C\<lparr>sock := snprintf_s PATH_MAX x\<rparr>" using assms(3)
    by (auto simp: sock_opt_def split: if_splits option.splits)
  then show ?thesis using assms(1,2) snprintf_fits[of PATH_MAX x] by (simp add: cfg_ok_def unstarted_def PATH_MAX_def)
next
  case OCpu
  then have "C' = C\<lparr>cpu_max := cpu_opt E s\<rparr>" using assms(3) by (simp)
  moreover have "length (cpu_opt E s) < 64" unfolding cpu_opt_def by (rule snprintf_fits) simp
  ultimately show ?thesis using assms(1,2) by (simp add: cfg_ok_def unstarted_def)
next
  case ODeny
  then have "C' = deny_opt s C" using assms(3) by (simp)
  moreover have "length (snprintf_s 256 s) \<le> 255" by (simp add: snprintf_s_def)
  ultimately show ?thesis using assms(1,2) by (simp add: cfg_ok_def unstarted_def deny_opt_def add_max_def)
next
  case ORo
  then have "C' = C\<lparr>ro_dirs := add_max s (ro_dirs C)\<rparr>" using assms(3) by simp
  then show ?thesis using assms(1,2) by (simp add: cfg_ok_def unstarted_def add_max_def)
next
  case ORw
  then have "C' = C\<lparr>rw_dirs := add_max s (rw_dirs C)\<rparr>" using assms(3) by simp
  then show ?thesis using assms(1,2) by (simp add: cfg_ok_def unstarted_def add_max_def)
next
  case OOverlay
  then have "C' = C\<lparr>ov_dirs := add_max s (ov_dirs C)\<rparr>" using assms(3) by simp
  then show ?thesis using assms(1,2) by (simp add: cfg_ok_def unstarted_def add_max_def)
next
  case OSecure
  then have "C' = C\<lparr>secure := True\<rparr>" using assms(3) by simp
  then show ?thesis using assms(1,2) by (simp add: cfg_ok_def unstarted_def)
qed (use assms in \<open>auto simp: mem_opt_def path_opt_def net_opt_def split: option.splits if_splits\<close>)

lemma parse_opts_step:
  "next_opt args = GOpt v s r \<Longrightarrow> apply_opt K h E v s C = Go D \<Longrightarrow> parse_opts K h E args C = parse_opts K h E r D"
  by (subst parse_opts.simps) simp

lemma parse_opts_nil: "parse_opts K h E [] C = ([], Go C)"
  by (subst parse_opts.simps) simp

lemma parse_opts_ok:
  assumes "parse_opts K h E args C = (rest, Go C')" "cfg_ok C" "unstarted C"
  shows "cfg_ok C' \<and> unstarted C' \<and> argv C' = argv C"
  using assms
proof (induction K h E args C arbitrary: rest rule: parse_opts.induct)
  case (1 K h E args C)
  show ?case
  proof (cases "next_opt args")
    case (GOpt v s r)
    show ?thesis
    proof (cases "apply_opt K h E v s C")
      case (Go D)
      have "parse_opts K h E r D = (rest, Go C')" using 1(2) parse_opts_step[OF GOpt Go] by simp
      then show ?thesis using 1(1)[OF GOpt Go] apply_opt_ok[OF 1(3,4) Go] by simp
    qed (use 1(2) GOpt in \<open>subst (asm) parse_opts.simps, simp\<close>)+
  qed (use 1(2-4) in \<open>subst (asm) parse_opts.simps, simp\<close>)+
qed

lemma default_mem_ok: "cfg_ok (default_mem K h E cfg_init) \<and> unstarted (default_mem K h E cfg_init) \<and> argv (default_mem K h E cfg_init) = None"
  by (auto simp: default_mem_def cfg_ok_def unstarted_def cfg_init_def cfg_zero_def egress_ok_def PATH_MAX_def Let_def
      split: option.split prod.split)

lemma check_opts_ok:
  assumes "check_opts E serving rest C = Go C'" "cfg_ok C" "unstarted C"
  shows "cfg_ok C' \<and> unstarted C' \<and> (ask C' \<longrightarrow> \<not> serving \<and> \<not> no_seccomp C') \<and> (rootfs C' \<noteq> [] \<longrightarrow> oe_isdir E (rootfs C'))"
  using assms by (auto simp: check_opts_def Let_def split: if_splits)

lemma resolve_all_ok: "resolve_all f ds = Inr rs \<Longrightarrow> length rs = length ds \<and> (\<forall>r \<in> set rs. \<exists>d. f d = Some r)"
  by (induction ds arbitrary: rs) (auto split: option.splits sum.splits)

lemma resolve_dirs_ok:
  assumes "resolve_dirs f C = Go C'"
  shows "\<exists>ro rw ov. C' = C\<lparr>ro_dirs := ro, rw_dirs := rw, ov_dirs := ov\<rparr> \<and> length ro = length (ro_dirs C) \<and> length rw = length (rw_dirs C) \<and>
    length ov = length (ov_dirs C) \<and> (\<forall>r \<in> set (ro @ rw @ ov). \<exists>d. f d = Some r)"
proof -
  obtain ro rw ov where r: "resolve_all f (ro_dirs C) = Inr ro" "resolve_all f (rw_dirs C) = Inr rw" "resolve_all f (ov_dirs C) = Inr ov"
    "C' = C\<lparr>ro_dirs := ro, rw_dirs := rw, ov_dirs := ov\<rparr>"
    using assms by (auto simp: resolve_dirs_def split: sum.splits)
  then show ?thesis using resolve_all_ok[OF r(1)] resolve_all_ok[OF r(2)] resolve_all_ok[OF r(3)]
    by (intro exI[of _ ro] exI[of _ rw] exI[of _ ov]) auto
qed

lemma mmkdir_p_quiet: "emits (calls no_release) (mmkdir_p K p m)"
  unfolding mmkdir_p_def Let_def by (rule emits_run_acts) (simp add: list_all_iff mmkdir_def emits_must_exist)

lemma default_workdir_log:
  assumes "default_workdir K E C w = (r, w')"
  shows "(\<exists>l. fst w' = fst w @ l \<and> calls no_release l) \<and> (case r of Go D \<Rightarrow> \<exists>x. D = C\<lparr>workdir := x\<rparr> | Quit n \<Rightarrow> False | Dies m \<Rightarrow> True)"
proof -
  define d where "d = snprintf_s PATH_MAX ((case oe_home E of Some d \<Rightarrow> d | None \<Rightarrow> ''/tmp'') @ ''/agent-work'')"
  obtain m v where v: "mmkdir_p K d m0755 w = (m, v)" by (rule prod.exhaust)
  have "w' = v \<and> (case r of Go D \<Rightarrow> \<exists>x. D = C\<lparr>workdir := x\<rparr> | Quit n \<Rightarrow> False | Dies m \<Rightarrow> True)"
    using assms v unfolding default_workdir_def Let_def d_def[symmetric] by (cases m) (auto simp: path_opt_def split: option.splits)
  then show ?thesis using emits_calls_log[OF mmkdir_p_quiet v] by blast
qed

lemma configure_cases:
  assumes "configure K E serving args w = (r, w')"
  obtains (early) "w' = w" "\<forall>C. r \<noteq> Go C"
  | (work) m D where "default_workdir K E D w = (Dies m, w')" "r = Dies m"
  | (dirs) rest C1 C2 C3 where "parse_opts K (snd w) E args (default_mem K (snd w) E cfg_init) = (rest, Go C1)"
      "check_opts E serving rest C1 = Go C2" "(if workdir C2 = [] then default_workdir K E C2 w else (Go C2, w)) = (Go C3, w')"
      "r = resolve_dirs (k_realpath K (snd w')) C3"
proof -
  obtain rest r1 where p: "parse_opts K (snd w) E args (default_mem K (snd w) E cfg_init) = (rest, r1)" by (rule prod.exhaust)
  define r2 where "r2 = (case r1 of Go C \<Rightarrow> check_opts E serving rest C | r \<Rightarrow> r)"
  have conf: "configure K E serving args w = (case r2 of Go C \<Rightarrow>
      (case (if workdir C = [] then default_workdir K E C w else (Go C, w)) of
         (Go C, w) \<Rightarrow> (resolve_dirs (k_realpath K (snd w)) C, w) | r \<Rightarrow> r) | r \<Rightarrow> (r, w))"
    unfolding configure_def p Let_def r2_def by (cases r1) simp_all
  show thesis
  proof (cases r2)
    case (Go C2)
    then obtain C1 where c: "r1 = Go C1" "check_opts E serving rest C1 = Go C2" unfolding r2_def by (cases r1) auto
    obtain r3 v where v: "(if workdir C2 = [] then default_workdir K E C2 w else (Go C2, w)) = (r3, v)" by (rule prod.exhaust)
    have rw: "(r, w') = (case (r3, v) of (Go C, w) \<Rightarrow> (resolve_dirs (k_realpath K (snd w)) C, w) | r \<Rightarrow> r)"
      using assms conf unfolding Go opt_res.case v by simp
    show thesis
    proof (cases r3)
      case (Go C3)
      then have "w' = v" "r = resolve_dirs (k_realpath K (snd v)) C3" using rw by simp_all
      then show thesis using dirs[OF p[unfolded c(1)] c(2)] v Go by blast
    next
      case (Quit n)
      then show thesis using v default_workdir_log[of K E C2 w "Quit n" v] by (simp split: if_splits)
    next
      case (Dies m)
      then have "default_workdir K E C2 w = (Dies m, v)" "r = Dies m" "w' = v" using v rw by (simp_all split: if_splits)
      then show thesis using work by blast
    qed
  next
    case (Quit n)
    then have "r = Quit n" "w' = w" using assms conf by auto
    then show thesis using early by simp
  next
    case (Dies m)
    then have "r = Dies m" "w' = w" using assms conf by auto
    then show thesis using early by simp
  qed
qed

lemma configure_ok:
  assumes "configure K E serving args w = (r, w')"
  shows "\<exists>l. fst w' = fst w @ l \<and> calls no_release l" "r = Quit n \<Longrightarrow> w' = w"
    "r = Go C \<Longrightarrow> cfg_ok C \<and> unstarted C \<and> (ask C \<longrightarrow> \<not> serving \<and> \<not> no_seccomp C) \<and> (rootfs C \<noteq> [] \<longrightarrow> oe_isdir E (rootfs C)) \<and>
       (\<forall>d \<in> set (ro_dirs C @ rw_dirs C @ ov_dirs C). \<exists>s. k_realpath K (snd w') s = Some d)"
proof -
  have same: "\<exists>l. fst w = fst w @ l \<and> calls no_release l" by simp
  show "\<exists>l. fst w' = fst w @ l \<and> calls no_release l"
    using assms
  proof (cases rule: configure_cases)
    case (work m D)
    then show ?thesis using default_workdir_log[of K E D w] by blast
  next
    case (dirs rest C1 C2 C3)
    then show ?thesis using default_workdir_log[of K E C2 w "Go C3" w'] same by (auto split: if_splits)
  qed (use same in simp)
  show "r = Quit n \<Longrightarrow> w' = w"
    using assms by (cases rule: configure_cases) (auto simp: resolve_dirs_def split: sum.splits)
  assume r: "r = Go C"
  from assms obtain rest C1 C2 C3 where p: "parse_opts K (snd w) E args (default_mem K (snd w) E cfg_init) = (rest, Go C1)"
    and c: "check_opts E serving rest C1 = Go C2" "(if workdir C2 = [] then default_workdir K E C2 w else (Go C2, w)) = (Go C3, w')"
      "resolve_dirs (k_realpath K (snd w')) C3 = Go C"
    using r by (cases rule: configure_cases) auto
  have "cfg_ok C1 \<and> unstarted C1" using parse_opts_ok[OF p] default_mem_ok[of K "snd w" E] by simp
  then have c2: "cfg_ok C2 \<and> unstarted C2 \<and> (ask C2 \<longrightarrow> \<not> serving \<and> \<not> no_seccomp C2) \<and> (rootfs C2 \<noteq> [] \<longrightarrow> oe_isdir E (rootfs C2))"
    using check_opts_ok[OF c(1)] by blast
  obtain x where x: "C3 = C2 \<or> C3 = C2\<lparr>workdir := x\<rparr>" using c(2) default_workdir_log[of K E C2 w "Go C3" w'] by (auto split: if_splits)
  obtain ro rw ov where d: "C = C3\<lparr>ro_dirs := ro, rw_dirs := rw, ov_dirs := ov\<rparr>" "length ro = length (ro_dirs C3)" "length rw = length (rw_dirs C3)"
    "length ov = length (ov_dirs C3)" "\<forall>r \<in> set (ro @ rw @ ov). \<exists>d. k_realpath K (snd w') d = Some r"
    using resolve_dirs_ok[OF c(3)] by blast
  have "cfg_ok C3 \<and> unstarted C3 \<and> (ask C3 \<longrightarrow> \<not> serving \<and> \<not> no_seccomp C3) \<and> (rootfs C3 \<noteq> [] \<longrightarrow> oe_isdir E (rootfs C3))" using c2 x by auto
  then show "cfg_ok C \<and> unstarted C \<and> (ask C \<longrightarrow> \<not> serving \<and> \<not> no_seccomp C) \<and> (rootfs C \<noteq> [] \<longrightarrow> oe_isdir E (rootfs C)) \<and>
       (\<forall>d \<in> set (ro_dirs C @ rw_dirs C @ ov_dirs C). \<exists>s. k_realpath K (snd w') s = Some d)"
    using d by (simp add: cfg_ok_def unstarted_def)
qed

text \<open>C25: every command line gives a well-formed configuration or none. Lists stay within the arrays of \<^verbatim>\<open>struct cfg\<close> and strings
  within their buffers, bind destinations are absolute and without trailing slashes, secrets go to scratch directories, a
  deny prefix always switches the policy on, \<^verbatim>\<open>--ask\<close> never meets the exec server or a missing filter, a root file
  system is a directory, and directories to mount are resolved paths.\<close>

theorem options_checked:
  assumes "configure K E serving args w = (Go C, w')"
  shows "cfg_ok C \<and> (ask C \<longrightarrow> \<not> serving \<and> \<not> no_seccomp C) \<and> (rootfs C \<noteq> [] \<longrightarrow> oe_isdir E (rootfs C)) \<and>
    (\<forall>d \<in> set (ro_dirs C @ rw_dirs C @ ov_dirs C). \<exists>s. k_realpath K (snd w') s = Some d)"
  using configure_ok(3)[OF assms refl] by blast

definition demo_env :: opt_env where
  "demo_env = \<lparr>oe_home = None, oe_cwd = None, oe_isdir = (\<lambda>d. True), oe_quota = (\<lambda>s. None), oe_frac = (\<lambda>n. n)\<rparr>"

definition demo_args :: "cstr list" where
  "demo_args = [''--workdir=/w'', ''--deny'', ''/etc'', ''--no-seccomp'', ''--ask'', ''--ro'', ''/data'']"

definition demo_conf :: cfg where
  "demo_conf = cfg_init\<lparr>workdir := ''/w'', deny_pfx := [''/etc''], secure := True, no_seccomp := True, ro_dirs := [''/data'']\<rparr>"

lemma demo_configure: "configure demo_kern demo_env False demo_args ([], ()) = (Go demo_conf, ([], ()))"
  by code_simp

theorem options_checked_witness: "cfg_ok demo_conf"
  using options_checked[OF demo_configure] by blast

subsection \<open>The command\<close>

lemma next_opt_append: "next_opt args = GOpt v s rest \<Longrightarrow> next_opt (args @ ys) = GOpt v s (rest @ ys) \<and> set rest \<subseteq> set args"
proof (cases args)
  case (Cons a r)
  assume "next_opt args = GOpt v s rest"
  then show ?thesis unfolding Cons
    by (cases r) (auto simp: Let_def split: if_splits option.splits prod.splits bool.splits)
qed simp

lemma next_opt_end: "next_opt args = GEnd [] \<Longrightarrow> ''--'' \<notin> set args \<Longrightarrow> args = []"
  by (cases args) (auto simp: Let_def split: if_splits option.splits prod.splits bool.splits list.splits)

lemma parse_opts_append:
  assumes "parse_opts K h E args C = ([], Go C')" "''--'' \<notin> set args"
  shows "parse_opts K h E (args @ ''--'' # cmd) C = (cmd, Go C')"
  using assms
proof (induction K h E args C rule: parse_opts.induct)
  case (1 K h E args C)
  show ?case
  proof (cases "next_opt args")
    case (GEnd r)
    then have "r = [] \<and> C' = C" using 1(2) by (subst (asm) parse_opts.simps) simp
    then show ?thesis using next_opt_end[of args] GEnd 1(3) by (subst parse_opts.simps) simp
  next
    case GBad
    then show ?thesis using 1(2) by (subst (asm) parse_opts.simps) simp
  next
    case (GOpt v s r)
    note app = next_opt_append[OF GOpt, of "''--'' # cmd"]
    show ?thesis
    proof (cases "apply_opt K h E v s C")
      case (Go D)
      have "parse_opts K h E r D = ([], Go C')" using 1(2) parse_opts_step[OF GOpt Go] by simp
      then have "parse_opts K h E (r @ ''--'' # cmd) D = (cmd, Go C')" using 1(1)[OF GOpt Go] app 1(3) by blast
      then show ?thesis using app parse_opts_step[OF _ Go] by simp
    qed (use 1(2) GOpt in \<open>subst (asm) parse_opts.simps, simp\<close>)+
  qed
qed

lemma resolve_dirs_argv: "resolve_dirs f (C\<lparr>argv := a\<rparr>) = (case resolve_dirs f C of Go D \<Rightarrow> Go (D\<lparr>argv := a\<rparr>) | r \<Rightarrow> r)"
  by (simp add: resolve_dirs_def split: sum.split)

lemma default_workdir_argv:
  "default_workdir K E (C\<lparr>argv := a\<rparr>) w =
     (case default_workdir K E C w of (Go D, w') \<Rightarrow> (Go (D\<lparr>argv := a\<rparr>), w') | r \<Rightarrow> r)"
  by (simp add: default_workdir_def path_opt_def Let_def split: prod.split option.split)

text \<open>C27: the payload's arguments are its own. Where a list of options without a command is accepted, the same options followed by
  \<^verbatim>\<open>--\<close> and any command give the same configuration with exactly that command: nothing in it is read as an option.\<close>

theorem command_untouched:
  assumes "configure K E serving args w = (Go C, w')" "argv C = None" "''--'' \<notin> set args" "cmd \<noteq> []"
  shows "configure K E serving (args @ ''--'' # cmd) w = (Go (C\<lparr>argv := Some cmd\<rparr>), w')"
proof -
  from assms(1) obtain rest C1 C2 C3 where p: "parse_opts K (snd w) E args (default_mem K (snd w) E cfg_init) = (rest, Go C1)"
    and c2: "check_opts E serving rest C1 = Go C2" and c3: "(if workdir C2 = [] then default_workdir K E C2 w else (Go C2, w)) = (Go C3, w')"
      "resolve_dirs (k_realpath K (snd w')) C3 = Go C"
    by (cases rule: configure_cases) auto
  have "argv C3 = argv C2" using c3(1) default_workdir_log[of K E C2 w "Go C3" w'] by (auto split: if_splits)
  moreover have "argv C = argv C3" using resolve_dirs_ok[OF c3(2)] by auto
  ultimately have rest: "rest = []" using assms(2) c2 by (auto simp: check_opts_def Let_def split: if_splits)
  have p': "parse_opts K (snd w) E (args @ ''--'' # cmd) (default_mem K (snd w) E cfg_init) = (cmd, Go C1)"
    by (rule parse_opts_append[OF p[unfolded rest] assms(3)])
  have "check_opts E serving cmd C1 = Go (C2\<lparr>argv := Some cmd\<rparr>)"
    using c2 assms(4) unfolding rest by (auto simp: check_opts_def Let_def split: if_splits)
  then show ?thesis using p' c3 by (auto simp: configure_def default_workdir_argv resolve_dirs_argv split: if_splits)
qed

theorem command_untouched_witness:
  "configure demo_kern demo_env False (demo_args @ [''--'', ''ls'', ''--net'', ''host'']) ([], ()) =
     (Go (demo_conf\<lparr>argv := Some [''ls'', ''--net'', ''host'']\<rparr>), ([], ()))"
  by (rule command_untouched[OF demo_configure]) (simp_all add: demo_conf_def cfg_init_def cfg_zero_def demo_args_def)

subsection \<open>From the command line to the release\<close>


definition demo_din :: daemon_in where
  "demo_din = \<lparr>d_fs = (\<lambda>f. None), d_talk = (\<lambda>c. None), d_cgid = None, d_up = False, d_reps = []\<rparr>"

text \<open>A host with a cgroup and a daemon that confirms one host: the cell gets the process id 5.\<close>

definition pid_kern :: "unit kern" where
  "pid_kern = demo_kern\<lparr>k_call := (\<lambda>c h. (case c of Sup (Clone _) \<Rightarrow> 5 | _ \<Rightarrow> 0, h))\<rparr>"

definition cell_kern :: "unit kern" where
  "cell_kern = pid_kern\<lparr>k_read := (\<lambda>h p. if p = ''/proc/self/cgroup'' then Some (''0::/x'' @ nl) else None)\<rparr>"

definition new_answer :: cstr where
  "new_answer = ''OK vethc0 10.200.0.2 10.200.0.1 1 1'' @ nl"

definition cell_din :: daemon_in where
  "cell_din = demo_din\<lparr>d_talk := (\<lambda>c. Some new_answer)\<rparr>"

definition net_args :: "cstr list" where
  "net_args = [''--workdir=/w'', ''--egress'', ''a.b'']"

definition net_conf :: cfg where
  "net_conf = cfg_init\<lparr>workdir := ''/w'', egress := [\<lparr>eh_host = ''a.b'', eh_port = ''443''\<rparr>], netmode := NET_VETH\<rparr>"

definition net_started :: "cfg \<Rightarrow> cfg" where
  "net_started C = (put_veth [''vethc0'', ''10.200.0.2'', ''10.200.0.1''] (resolv_collect (\<lambda>f. None) C))\<lparr>veth_on := True\<rparr>"

lemma net_configure: "configure cell_kern demo_env False net_args ([], ()) = (Go net_conf, ([], ()))"
  by code_simp

lemma cell_kern_answers:
  "k_call cell_kern (Sup (Clone b)) h = (5, h)" "k_read cell_kern h ''/proc/self/cgroup'' = Some (''0::/x'' @ nl)" "k_realpath cell_kern h p = Some p"
  "(\<And>b. c \<noteq> Sup (Clone b)) \<Longrightarrow> k_call cell_kern c h = (0, h)"
  by (auto simp: cell_kern_def pid_kern_def demo_kern_def split: call.split sup_call.split)

lemma new_answer_parsed:
  "cut0 (take 191 new_answer) = new_answer" "starts ''OK '' new_answer"
  "scan_ok (drop 3 new_answer) = ([''vethc0'', ''10.200.0.2'', ''10.200.0.1''], [1, 1])"
  by (simp_all add: new_answer_def scan_ok_def numeral_3_eq_3 scan_s_def isspace_def scan_d_def strtol_def scan_num_def cut0_def nl_def starts_def
      digit_val_def isdigit_def)

lemma net_registered:
  assumes "length (egress C) = 1" "egress_ok (egress C)" "resolv C = []"
  shows "net_veth_register (\<lambda>f. None) (\<lambda>c. Some new_answer) 5 C = (0, net_started C)"
proof -
  let ?D = "resolv_collect (\<lambda>f. None) C"
  have D: "egress ?D = egress C" "resolv_ok (resolv ?D)" using assms(3) resolv_collect_ok[of "\<lambda>f. None" C] by (simp_all add: resolv_collect_egress resolv_ok_def)
  then obtain cmd where "netup_cmd 5 ?D = Some cmd" using netup_cmd_fits[of ?D 5] assms(2) by auto
  then show ?thesis using assms(1,3)
    by (simp add: net_veth_register_def D(1) new_answer_parsed veth_refused_def net_started_def)
qed

definition cell_cgroup :: cstr where
  "cell_cgroup = ''/sys/fs/cgroup/x/agentcell-7''"

lemma cell_cgroup_made: "\<exists>l. cgroup_setup cell_kern 7 C (l0, ()) = ((cell_cgroup, True), (l, ()))"
proof -
  let ?w = "snd (run_acts (arm_controllers cell_kern ''/sys/fs/cgroup/x'' C) (l0, ()))"
  have w: "\<exists>l. v = (l, ())" for v :: "unit world" by (cases v) simp
  have "own_cgroup (''0::/x'' @ nl) = ''/x''" "cgroup_base ''/sys/fs/cgroup/x'' = ''/sys/fs/cgroup/x''" "dec_int 7 = ''7''" by code_simp+
  moreover have "snprintf_s PATH_MAX ''/sys/fs/cgroup/x'' = ''/sys/fs/cgroup/x''" "snprintf_s PATH_MAX cell_cgroup = cell_cgroup"
    by (simp_all add: snprintf_s_def PATH_MAX_def cell_cgroup_def)
  moreover have "do_call cell_kern (Mkdir p m0755) v = (0, (fst v @ [(Mkdir p m0755, 0)], snd v))" for p v
    by (simp add: do_call_def cell_kern_answers)
  ultimately show ?thesis
    using w[of "snd (run_acts (write_limits cell_kern cell_cgroup C) (fst ?w @ [(Mkdir cell_cgroup m0755, 0)], snd ?w))"]
    by (simp add: cgroup_setup_def cell_kern_answers cgroup_make_def Let_def cell_cgroup_def del: run_acts.simps)
qed

lemma net_launch:
  assumes "length (egress C) = 1" "egress_ok (egress C)" "resolv C = []" "netmode C = NET_VETH" "\<not> ask C" "\<not> secure C"
  shows "\<exists>l. launch cell_kern cell_din 7 1000 1000 False C ([], ()) = (LStarted 5 (net_started C) (cell_cgroup, True) False, (l, ()))"
proof -
  have reg: "net_veth_register (d_fs cell_din) (d_talk cell_din) 5 C = (0, net_started C)"
    using net_registered[OF assms(1-3)] by (simp add: cell_din_def demo_din_def)
  have nask: "\<not> ask (net_started C)"
    using assms(5) by (simp add: net_started_def put_veth_def resolv_collect_def resolv_add_file_def Let_def)
  obtain l0 where l0: "cgroup_setup cell_kern 7 C ([(Sup (Mkdtemp ''/tmp/agentcell-root.XXXXXX''), 0)], ()) = ((cell_cgroup, True), (l0, ()))"
    using cell_cgroup_made by blast
  then show ?thesis using assms(4-6) reg nask
    by (simp add: launch_def must_def do_call_def cell_kern_answers launch_prepare_def release_child_def write_uid_maps_def
        park_def write_file_def attempt_def register_lsm_def register_veth_def log_note_def)
qed


text \<open>Two consequences of reading the options one after the other: \<^verbatim>\<open>--net none\<close> does not take back an earlier \<^verbatim>\<open>--net host\<close>, and
  \<^verbatim>\<open>--net host\<close> after \<^verbatim>\<open>--egress\<close> gives a cell with an allowlist and the whole network of the host.\<close>

lemma net_none_ignored:
  "parse_opts K h E [''--net'', ''host'', ''--net'', ''none''] C = ([], Go (C\<lparr>netmode := NET_HOST\<rparr>))"
proof -
  have "next_opt [''--net'', ''host'', ''--net'', ''none''] = GOpt ONet ''host'' [''--net'', ''none'']" "next_opt [''--net'', ''none''] = GOpt ONet ''none'' []"
    by code_simp+
  then show ?thesis using parse_opts_step[of _ ONet _ _ K h E] by (simp add: parse_opts_nil net_opt_def)
qed

lemma egress_then_host:
  "\<exists>C. parse_opts K h E [''--egress'', ''a.b'', ''--net'', ''host''] cfg_init = ([], Go C) \<and> egress C \<noteq> [] \<and> netmode C = NET_HOST"
proof -
  have n: "next_opt [''--egress'', ''a.b'', ''--net'', ''host''] = GOpt OEgress ''a.b'' [''--net'', ''host'']" "next_opt [''--net'', ''host''] = GOpt ONet ''host'' []"
    by code_simp+
  have "egress_add ''a.b'' cfg_init = (0, cfg_init\<lparr>egress := [\<lparr>eh_host = ''a.b'', eh_port = ''443''\<rparr>], netmode := NET_VETH\<rparr>)" by code_simp
  then show ?thesis
    using parse_opts_step[OF n(1), of K h E cfg_init] parse_opts_step[OF n(2), of K h E] by (simp add: parse_opts_nil net_opt_def checked_def)
qed

end
