(* ===== verification/Library_Claims.thy ===== *)
theory Library_Claims
  imports Library Option_Claims
begin

text \<open>
  The library keeps its cells apart: the sixteen records refine a finite map from process ids to what has to be undone, a
  child is released only when it is confined, and a release undoes what the spawn registered.
\<close>

subsection \<open>The records\<close>

definition live_cells :: "cell_rec list \<Rightarrow> int \<rightharpoonup> cell_rec" where
  "live_cells rs = map_of (map (\<lambda>r. (cr_pid r, r)) (filter (\<lambda>r. cr_pid r \<noteq> 0) rs))"

definition lib_inv :: "cell_rec list \<Rightarrow> bool" where
  "lib_inv rs \<longleftrightarrow> length rs = 16 \<and> distinct (map cr_pid (filter (\<lambda>r. cr_pid r \<noteq> 0) rs))"

lemma find_rec_Some: "find_rec pid rs = Some n \<Longrightarrow> n < length rs \<and> cr_pid (rs ! n) = pid"
proof -
  assume "find_rec pid rs = Some n"
  then obtain ns where "filter (\<lambda>i. cr_pid (rs ! i) = pid) [0..<length rs] = n # ns" unfolding find_rec_def by (auto split: list.splits)
  then have "n \<in> set (filter (\<lambda>i. cr_pid (rs ! i) = pid) [0..<length rs])" by (metis list.set_intros(1))
  then show ?thesis by simp
qed

lemma find_rec_None: "find_rec pid rs = None \<Longrightarrow> r \<in> set rs \<Longrightarrow> cr_pid r \<noteq> pid"
  unfolding find_rec_def by (auto simp: filter_empty_conv in_set_conv_nth split: list.splits)

lemma live_Cons: "live_cells (x # xs) = (if cr_pid x = 0 then live_cells xs else (live_cells xs)(cr_pid x \<mapsto> x))"
  by (simp add: live_cells_def)

lemma live_skip: "cr_pid x = 0 \<Longrightarrow> live_cells (a @ x # b) = live_cells (a @ b)"
  by (induction a) (simp_all add: live_Cons)

lemma live_None: "live_cells rs p = None \<longleftrightarrow> p = 0 \<or> (\<forall>r \<in> set rs. cr_pid r \<noteq> p)"
  by (induction rs) (auto simp: live_Cons live_cells_def)

lemma live_insert:
  assumes "cr_pid r \<noteq> 0" "live_cells (a @ b) (cr_pid r) = None"
  shows "live_cells (a @ r # b) = (live_cells (a @ b))(cr_pid r \<mapsto> r)"
proof -
  have "\<forall>x \<in> set a. cr_pid x \<noteq> cr_pid r" using assms by (auto simp: live_None)
  then show ?thesis using assms(1) by (induction a) (simp_all add: live_Cons fun_upd_twist)
qed

lemma lib_inv_skip: "cr_pid x = 0 \<Longrightarrow> cr_pid y = 0 \<Longrightarrow> lib_inv (a @ x # b) = lib_inv (a @ y # b)"
  by (simp add: lib_inv_def)

lemma lib_inv_insert:
  assumes "cr_pid r \<noteq> 0" "cr_pid x = 0"
  shows "lib_inv (a @ r # b) \<longleftrightarrow> lib_inv (a @ x # b) \<and> live_cells (a @ b) (cr_pid r) = None"
proof -
  have "live_cells (a @ b) (cr_pid r) = None \<longleftrightarrow> cr_pid r \<notin> cr_pid ` {x \<in> set a. cr_pid x \<noteq> 0} \<and> cr_pid r \<notin> cr_pid ` {x \<in> set b. cr_pid x \<noteq> 0}"
    using assms(1) unfolding live_None by (auto simp: image_iff)
  then show ?thesis using assms by (auto simp: lib_inv_def)
qed

text \<open>A record in the middle of the table.\<close>

lemma rec_split: "n < length rs \<Longrightarrow> \<exists>a b. rs = a @ rs ! n # b \<and> (\<forall>r. rs[n := r] = a @ r # b)"
  using id_take_nth_drop[of n rs] upd_conv_take_nth_drop[of n rs] by blast

lemma live_put:
  assumes "lib_inv rs" "n < length rs" "cr_pid (rs ! n) = 0" "live_cells rs (cr_pid r) = None" "cr_pid r \<noteq> 0"
  shows "live_cells (rs[n := r]) = (live_cells rs)(cr_pid r \<mapsto> r) \<and> lib_inv (rs[n := r])"
proof -
  obtain a b where e: "rs = a @ rs ! n # b" "\<forall>r. rs[n := r] = a @ r # b" using rec_split[OF assms(2)] by blast
  have l: "live_cells rs = live_cells (a @ b)" "lib_inv (a @ rs ! n # b)" using live_skip[OF assms(3), of a b] e(1) assms(1) by simp_all
  then show ?thesis using live_insert[OF assms(5), of a b] lib_inv_insert[OF assms(5,3), of a b] assms(4) using e(2) by simp
qed

lemma live_keep:
  assumes "lib_inv rs" "n < length rs" "cr_pid (rs ! n) = 0" "cr_pid r = 0"
  shows "live_cells (rs[n := r]) = live_cells rs \<and> lib_inv (rs[n := r])"
proof -
  obtain a b where e: "rs = a @ rs ! n # b" "\<forall>r. rs[n := r] = a @ r # b" using rec_split[OF assms(2)] by blast
  have "live_cells rs = live_cells (a @ b)" "lib_inv (a @ rs ! n # b)" using live_skip[OF assms(3), of a b] e(1) assms(1) by simp_all
  then show ?thesis using live_skip[OF assms(4)] lib_inv_skip[OF assms(3,4)] using e(2) by simp
qed

lemma live_drop:
  assumes "lib_inv rs" "n < length rs" "cr_pid (rs ! n) = pid" "pid \<noteq> 0"
  shows "live_cells (rs[n := rec_zero]) = (live_cells rs)(pid := None) \<and> lib_inv (rs[n := rec_zero]) \<and> live_cells rs pid = Some (rs ! n)"
proof -
  have z: "cr_pid rec_zero = 0" "cr_pid (rs ! n) \<noteq> 0" using assms(3,4) by (simp_all add: rec_zero_def)
  obtain a b where e: "rs = a @ rs ! n # b" "\<forall>r. rs[n := r] = a @ r # b" using rec_split[OF assms(2)] by blast
  have i: "lib_inv (a @ rec_zero # b)" "live_cells (a @ b) (cr_pid (rs ! n)) = None" using lib_inv_insert[OF z(2,1), of a b] assms(1) e(1) by simp_all
  have "live_cells rs = (live_cells (a @ b))(pid \<mapsto> rs ! n)" using live_insert[OF z(2) i(2)] e(1) assms(3) by simp
  moreover have "(live_cells (a @ b))(pid := None) = live_cells (a @ b)" using i(2) assms(3) by auto
  ultimately show ?thesis using live_skip[OF z(1), of a b] i(1) using e(2) by simp
qed

lemma live_full: "lib_inv rs \<Longrightarrow> (\<forall>r \<in> set rs. cr_pid r \<noteq> 0) \<longleftrightarrow> card (dom (live_cells rs)) = 16"
proof -
  assume i: "lib_inv rs"
  let ?f = "filter (\<lambda>r. cr_pid r \<noteq> 0) rs"
  have "dom (live_cells rs) = set (map cr_pid ?f)" by (auto simp: live_cells_def dom_map_of_conv_image_fst image_image)
  then have "card (dom (live_cells rs)) = length ?f" using i distinct_card[of "map cr_pid ?f"] by (simp add: lib_inv_def)
  moreover have "length ?f = 16 \<longleftrightarrow> (\<forall>r \<in> set rs. cr_pid r \<noteq> 0)"
  proof -
    have l: "length rs = 16" using i by (simp add: lib_inv_def)
    show ?thesis
    proof
      assume "length ?f = 16"
      then show "\<forall>r \<in> set rs. cr_pid r \<noteq> 0" using l length_filter_less[of _ rs "\<lambda>r. cr_pid r \<noteq> 0"] by (metis less_irrefl)
    qed (use l in simp)
  qed
  ultimately show ?thesis by simp
qed

subsection \<open>Spawning\<close>

text \<open>What a spawn does, by its result.\<close>

lemma spawn_cases:
  assumes "agentcell_spawn K D E nr self uid gid a av fds rs w = (res, rs', w')"
  obtains (refused) e where "res = SpawnErr e" "rs' = rs" "w' = w" "e = - EBUSY \<longrightarrow> free_rec rs = None"
  | (failed) n m cg r v where "free_rec rs = Some n" "res = SpawnDied m" "rs' = rs[n := (rs ! n)\<lparr>cr_pid := 0, cr_stack := False\<rparr>]"
      "w' = lib_undo K cg r v"
      "(\<exists>q. lib_config K E a av w = (q, v)) \<or> (\<exists>C w1 q. lib_config K E a av w = (Go C, w1) \<and> lib_launch K D nr self uid gid C w1 = (q, cg, r, v) \<and>
         (\<forall>p C' g on. q \<noteq> LStarted p C' g on))"
  | (spawned) n C w1 pid C' cg on cg' r where "free_rec rs = Some n" "res = Spawned pid" "lib_config K E a av w = (Go C, w1)"
      "lib_launch K D nr self uid gid C w1 = (LStarted pid C' cg on, cg', r, w')"
      "rs' = rs[n := \<lparr>cr_pid = pid, cr_have_cg = snd cg, cr_cgpath = fst cg, cr_cgid = cell_id D C cg, cr_stack = False\<rparr>]"
proof -
  obtain i p e where f: "fds = (i, p, e)" by (cases fds)
  show thesis
  proof (cases "av = [] \<or> i < - 1 \<or> p < - 1 \<or> e < - 1")
    case True
    then show thesis using assms refused[of "- EINVAL"] by (auto simp: agentcell_spawn_def f EINVAL_def EBUSY_def)
  next
    case False
    show thesis
    proof (cases "free_rec rs")
      case None
      then show thesis using assms refused[of "- EBUSY"] False by (auto simp: agentcell_spawn_def f)
    next
      case (Some n)
      obtain q w1 where q: "lib_config K E a av w = (q, w1)" by (rule prod.exhaust)
      show thesis
      proof (cases q)
        case (Go C)
        obtain L cg r v where L: "lib_launch K D nr self uid gid C w1 = (L, cg, r, v)" by (metis prod.exhaust)
        show thesis
        proof (cases L)
          case (LStarted pid C' g on)
          then have e: "res = Spawned pid" "w' = v" "rs' = rs[n := \<lparr>cr_pid = pid, cr_have_cg = snd g, cr_cgpath = fst g,
              cr_cgid = cell_id D C g, cr_stack = False\<rparr>]"
            using assms False Some q Go L by (auto simp: agentcell_spawn_def f Let_def)
          show thesis using spawned[OF Some e(1) q[unfolded Go] L[unfolded LStarted e(2)[symmetric]] e(3)] .
        next
          case (LDied m)
          then show thesis using failed[OF Some, of m cg r v] assms False Some q Go L by (auto simp: agentcell_spawn_def f Let_def)
        next
          case (LExit m)
          then show thesis using failed[OF Some, of "[]" cg r v] assms False Some q Go L by (auto simp: agentcell_spawn_def f Let_def)
        qed
      next
        case (Quit m)
        then show thesis using failed[OF Some, of "[]" "([], False)" root_template w1] assms False Some q by (auto simp: agentcell_spawn_def f Let_def)
      next
        case (Dies m)
        then show thesis using failed[OF Some, of m "([], False)" root_template w1] assms False Some q by (auto simp: agentcell_spawn_def f Let_def)
      qed
    qed
  qed
qed

text \<open>A session: spawns and releases in any order, while the world goes on. The map beside it says which cells are live and what
  they left outside; a cell is released before the kernel gives its process id away again.\<close>

inductive lib_session :: "'h kern \<Rightarrow> (int \<rightharpoonup> cell_rec) \<Rightarrow> cell_rec list \<Rightarrow> 'h world \<Rightarrow> bool" for K where
  start: "lib_session K Map.empty lib_init ([], h)"
| other: "lib_session K M rs (l, h) \<Longrightarrow> lib_session K M rs (l, h')"
| fails: "lib_session K M rs w \<Longrightarrow> agentcell_spawn K D E nr self uid gid a av fds rs w = (res, rs', w') \<Longrightarrow> \<forall>pid. res \<noteq> Spawned pid \<Longrightarrow>
    lib_session K M rs' w'"
| spawns: "lib_session K M rs w \<Longrightarrow> agentcell_spawn K D E nr self uid gid a av fds rs w = (Spawned pid, rs', w') \<Longrightarrow>
    lib_config K E a av w = (Go C, w1) \<Longrightarrow> lib_launch K D nr self uid gid C w1 = (LStarted pid C' cg on, cg', r, w') \<Longrightarrow>
    0 < pid \<Longrightarrow> M pid = None \<Longrightarrow>
    lib_session K (M(pid \<mapsto> \<lparr>cr_pid = pid, cr_have_cg = snd cg, cr_cgpath = fst cg, cr_cgid = cell_id D C cg, cr_stack = False\<rparr>)) rs' w'"
| releases: "lib_session K M rs w \<Longrightarrow> 0 < pid \<Longrightarrow> agentcell_release K pid rs w = (rc, rs', w') \<Longrightarrow>
    lib_session K (M(pid := None)) rs' w'"

lemma lib_init_inv: "lib_inv lib_init \<and> live_cells lib_init = Map.empty"
  by (simp add: lib_inv_def lib_init_def live_cells_def rec_zero_def)

lemma release_live:
  assumes "lib_inv rs" "0 < pid"
  shows "case live_cells rs pid of
      None \<Rightarrow> agentcell_release K pid rs w = (0, rs, w)
    | Some r \<Rightarrow> \<exists>rs'. agentcell_release K pid rs w = (0, rs', undo_rec K r w) \<and> lib_inv rs' \<and> live_cells rs' = (live_cells rs)(pid := None)"
proof (cases "find_rec pid rs")
  case None
  then have "live_cells rs pid = None" using find_rec_None[OF None] unfolding live_None by blast
  then show ?thesis using None assms(2) by (simp add: agentcell_release_def)
next
  case (Some n)
  have n: "n < length rs" "cr_pid (rs ! n) = pid" using find_rec_Some[OF Some] by simp_all
  have "pid \<noteq> 0" using assms(2) by simp
  from live_drop[OF assms(1) n this] show ?thesis using Some assms(2) by (simp add: agentcell_release_def)
qed

text \<open>C11: the library's records are exactly its live cells. In any session of spawns and releases, the sixteen records
  represent the map from the process ids of the cells that were spawned and not released to what has to be undone for
  them; a spawn that fails changes nothing, and a spawn is refused for lack of room only with sixteen live cells.\<close>

theorem library_tracks_cells:
  assumes "lib_session K M rs w"
  shows "lib_inv rs \<and> live_cells rs = M \<and> (free_rec rs = None \<longleftrightarrow> card (dom M) = 16)"
proof -
  have "lib_inv rs \<and> live_cells rs = M"
    using assms
  proof induction
    case (fails M rs w D E nr self uid gid a av fds res rs' w')
    from fails.hyps(2) show ?case
    proof (cases rule: spawn_cases)
      case (failed n m cg r v)
      have "n < length rs" "cr_pid (rs ! n) = 0" using find_rec_Some[of 0 rs n] failed(1) by (simp_all add: free_rec_def)
      then show ?thesis using live_keep[of rs n "(rs ! n)\<lparr>cr_pid := 0, cr_stack := False\<rparr>"] fails.IH failed(3) by simp
    qed (use fails in auto)
  next
    case (spawns M rs w D E nr self uid gid a av fds pid rs' w' C w1 C' cg on cg' r)
    from spawns.hyps(2) show ?case
    proof (cases rule: spawn_cases)
      case (spawned n D2 w2 pid2 D2' cg2 on2 cg2' r2)
      have e: "D2 = C" "cg2 = cg" "pid2 = pid" using spawned(2-4) spawns.hyps(3,4) by auto
      have "n < length rs" "cr_pid (rs ! n) = 0" using find_rec_Some[of 0 rs n] spawned(1) by (simp_all add: free_rec_def)
      then show ?thesis
        using live_put[of rs n "\<lparr>cr_pid = pid, cr_have_cg = snd cg, cr_cgpath = fst cg, cr_cgid = cell_id D C cg, cr_stack = False\<rparr>"]
          spawns.IH spawns.hyps(5,6) spawned(5) e by simp
    qed simp_all
  next
    case (releases M rs w pid rc rs' w')
    then show ?case using release_live[of rs pid K w] by (cases "live_cells rs pid") (auto simp: fun_upd_idem)
  qed (use lib_init_inv in auto)
  moreover have "free_rec rs = None \<longleftrightarrow> (\<forall>r \<in> set rs. cr_pid r \<noteq> 0)"
    using find_rec_None[of 0 rs] find_rec_Some[of 0 rs] unfolding free_rec_def by (cases "find_rec 0 rs") (auto intro: bexI[OF _ nth_mem])
  ultimately show ?thesis using live_full[of rs] by auto
qed

subsection \<open>Confinement\<close>

lemma egress_adds_veth: "egress_adds es C = Go C' \<Longrightarrow> veth_on C' = veth_on C"
proof (induction es arbitrary: C)
  case (Cons e es)
  have "veth_on (snd (egress_add e C)) = veth_on C" by (auto simp: egress_add_def split: prod.split)
  then show ?case using Cons by (auto simp: case_prod_beta Let_def split: if_splits)
qed simp

lemma lib_egress_veth: "lib_egress es C = Go C' \<Longrightarrow> veth_on C' = veth_on C"
  using egress_adds_veth by (auto simp: lib_egress_def split: option.splits opt_res.splits)

lemma lib_config_log:
  assumes "lib_config K E a av w = (q, w')"
  shows "\<exists>l. fst w' = fst w @ l \<and> calls no_release l" "q = Go C \<Longrightarrow> \<not> veth_on C"
proof -
  let ?C = "lib_base K (snd w) E a av"
  obtain q1 w1 where w1: "lib_workdir K E a ?C w = (q1, w1)" by (rule prod.exhaust)
  have w': "w' = w1" using assms w1 by (auto simp: lib_config_def split: opt_res.splits)
  have work: "w1 = w \<and> (\<forall>D. q1 = Go D \<longrightarrow> veth_on D = veth_on ?C) \<or> default_workdir K E ?C w = (q1, w1)"
    using w1 by (auto simp: lib_workdir_def split: option.splits)
  show "\<exists>l. fst w' = fst w @ l \<and> calls no_release l"
    using work
  proof
    assume "default_workdir K E ?C w = (q1, w1)"
    then show ?thesis using default_workdir_log[of K E ?C w q1 w1] w' by blast
  qed (use w' in simp)
  assume q: "q = Go C"
  then obtain C1 C2 C3 where c: "q1 = Go C1" "lib_rootfs K (snd w1) E a C1 = Go C2" "lib_egress (map_option (\<lambda>e. [e]) (ac_egress a)) C2 = Go C3"
    "lib_egress (ac_egress_list a) C3 = Go C"
    using assms w1 by (auto simp: lib_config_def split: opt_res.splits)
  have "\<not> veth_on ?C" by (simp add: lib_base_def cfg_zero_def)
  then have "\<not> veth_on C1" using work default_workdir_log[of K E ?C w q1 w1] c(1) by auto
  then have "\<not> veth_on C2" using c(2) by (auto simp: lib_rootfs_def split: option.splits if_splits)
  then show "\<not> veth_on C" using lib_egress_veth[OF c(3)] lib_egress_veth[OF c(4)] by simp
qed

lemma lib_launch_log:
  assumes "lib_launch K D nr self uid gid C w = (res, cg, r, w')" "\<not> veth_on C" "calls no_release (fst w)"
  shows "case res of LDied m \<Rightarrow> calls no_release (fst w') | LExit n \<Rightarrow> False
    | LStarted pid C' cg' on \<Rightarrow> \<exists>l1 r. fst w' = l1 @ [(Sup (SyncChild (sync_text 192 C')), r)] \<and> calls no_release l1 \<and>
        (Sup (Clone (netmode C \<noteq> NET_HOST)), pid) \<in> set l1 \<and> confined_before False uid gid pid C cg' C' l1 \<and> cgroup_made cg' C l1"
proof -
  obtain m0 w0 where w0: "must K (Sup (Mkdtemp root_template)) ''mkdtemp'' w = (m0, w0)" by (rule prod.exhaust)
  obtain g w1 where w1: "cgroup_setup K self C w0 = (g, w1)" by (rule prod.exhaust)
  obtain m2 w2 where w2: "must K (Sup Pipe) ''pipe'' w1 = (m2, w2)" by (rule prod.exhaust)
  obtain pid w3 where w3: "do_call K (Sup (Clone (netmode C \<noteq> NET_HOST))) w2 = (pid, w3)" by (rule prod.exhaust)
  obtain res4 w4 where w4: "release_child K D 192 uid gid False pid C g w3 = (res4, w4)" by (rule prod.exhaust)
  have q0: "calls no_release (fst w0)" using w0 assms(3) by (auto simp: must_def do_call_def case_prod_beta)
  have q1: "calls no_release (fst w1)" using cgroup_setup_log[OF w1] q0 by auto
  have q2: "calls no_release (fst w2)" using w2 q1 by (auto simp: must_def do_call_def case_prod_beta)
  have f3: "fst w3 = fst w2 @ [(Sup (Clone (netmode C \<noteq> NET_HOST)), pid)]" using w3 by (auto simp: do_call_def case_prod_beta)
  then have q3: "calls no_release (fst w3)" using q2 by simp
  have "set (fst w1) \<subseteq> set (fst w3)" using w2 f3 by (auto simp: must_def do_call_def case_prod_beta)
  then have made: "cgroup_made g C (fst w3)" using cgroup_setup_made[OF w1] cgroup_made_mono by blast
  have eq: "lib_launch K D nr self uid gid C w =
    (case m0 of Some m \<Rightarrow> (LDied m, ([], False), root_template, w0) | None \<Rightarrow> case m2 of Some m \<Rightarrow> (LDied m, g, nr, w2) | None \<Rightarrow>
      if pid < 0 then (LDied ''clone (userns disabled? sysctl kernel.unprivileged_userns_clone)'', g, nr, w3) else (res4, g, nr, w4))"
    using w0 w1 w2 w3 w4 by (simp add: lib_launch_def split: option.split)
  consider m where "res = LDied m" "w' \<in> {w0, w2, w3}" | "res = res4" "w' = w4" using eq assms(1) by (auto split: option.splits if_splits)
  then show ?thesis
  proof cases
    case 1
    then show ?thesis using q0 q2 q3 by auto
  next
    case 2
    from release_cases[OF w4 assms(2)] show ?thesis
    proof (elim disjE exE conjE)
      fix m l4
      assume "res4 = LDied m" "fst w4 = fst w3 @ l4" "calls no_release l4"
      then show ?thesis using 2 q3 by simp
    next
      fix C' lon l4 r4
      assume a: "res4 = LStarted pid C' g lon" "fst w4 = fst w3 @ l4 @ [(Sup (SyncChild (sync_text 192 C')), r4)]"
        "calls no_release l4" "confined_before False uid gid pid C g C' l4"
      have "confined_before False uid gid pid C g C' (fst w3 @ l4)" "cgroup_made g C (fst w3 @ l4)"
        using confined_before_mono[OF a(4)] cgroup_made_mono[OF made] by simp_all
      moreover have "calls no_release (fst w3 @ l4)" "(Sup (Clone (netmode C \<noteq> NET_HOST)), pid) \<in> set (fst w3 @ l4)"
        "fst w' = (fst w3 @ l4) @ [(Sup (SyncChild (sync_text 192 C')), r4)]" using 2 q3 a(2,3) f3 by auto
      ultimately show ?thesis unfolding 2(1) a(1) launch_end.case by (intro exI[of _ "fst w3 @ l4"] exI[of _ r4] conjI)
    qed simp
  qed
qed


subsection \<open>A cell of the library\<close>

text \<open>Releasing a live cell takes its network down, clears its policy if it had one and removes its cgroup, and a second release
  does nothing.\<close>

lemma release_undoes:
  assumes "lib_inv rs" "live_cells rs pid = Some r" "0 < pid"
  shows "\<exists>rs' x. agentcell_release K pid rs w = (0, rs', undo_rec K r w) \<and>
    fst (undo_rec K r w) = fst w @ (Sup (NetDown (cr_pid r)), 0) # (if cr_cgid r \<noteq> 0 then [(Sup (sup_call.LsmClr (cr_cgid r)), 0)] else []) @
      (if cr_have_cg r then [(Rmdir (cr_cgpath r), x)] else []) \<and>
    (\<forall>v. agentcell_release K pid rs' v = (0, rs', v))"
proof -
  obtain rs' where r: "agentcell_release K pid rs w = (0, rs', undo_rec K r w)" "lib_inv rs'" "live_cells rs' = (live_cells rs)(pid := None)"
    using release_live[OF assms(1,3), of K w] assms(2) by auto
  have "agentcell_release K pid rs' v = (0, rs', v)" for v using release_live[OF r(2) assms(3), of K v] r(3) by simp
  moreover have "\<exists>x. fst (undo_rec K r w) = fst w @ (Sup (NetDown (cr_pid r)), 0) # (if cr_cgid r \<noteq> 0 then [(Sup (sup_call.LsmClr (cr_cgid r)), 0)] else []) @
      (if cr_have_cg r then [(Rmdir (cr_cgpath r), x)] else [])"
    by (simp add: undo_rec_def log_note_def do_call_def case_prod_beta Let_def)
  ultimately show ?thesis using r(1) by blast
qed

definition demo_api :: api_cfg where
  "demo_api = \<lparr>ac_workdir = Some ''/w'', ac_rootfs = None, ac_mem = 1, ac_quota = None, ac_pids = 0, ac_net = 0, ac_egress = None,
     ac_secure = False, ac_no_landlock = False, ac_no_seccomp = False, ac_egress_list = None\<rparr>"

definition demo_lib_cfg :: cfg where
  "demo_lib_cfg = (lib_base pid_kern () demo_env demo_api [''ls''])\<lparr>workdir := ''/w''\<rparr>"

lemma pid_kern_answers:
  "k_call pid_kern (Sup (Clone b)) h = (5, h)" "k_read pid_kern h p = None" "k_realpath pid_kern h p = Some p"
  "(\<And>b. c \<noteq> Sup (Clone b)) \<Longrightarrow> k_call pid_kern c h = (0, h)"
  by (auto simp: pid_kern_def demo_kern_def split: call.split sup_call.split)

lemma demo_lib_config: "lib_config pid_kern demo_env demo_api [''ls''] w = (Go demo_lib_cfg, w)"
  by (cases w) (simp add: lib_config_def lib_workdir_def lib_rootfs_def lib_egress_def demo_lib_cfg_def pid_kern_answers demo_api_def)

lemma demo_lib_launch:
  "\<exists>w'. lib_launch pid_kern demo_din ''/r'' 7 1000 1000 demo_lib_cfg ([], ()) = (LStarted 5 demo_lib_cfg ([], False) False, ([], False), ''/r'', w')"
proof -
  have "netmode demo_lib_cfg \<noteq> NET_VETH" by (simp add: demo_lib_cfg_def lib_base_def demo_api_def)
  then show ?thesis
    by (simp add: lib_launch_def must_def do_call_def pid_kern_answers cgroup_setup_def release_child_def write_uid_maps_def
        park_def write_file_def attempt_def register_lsm_def register_veth_def)
qed

lemma demo_spawn:
  "\<exists>w'. agentcell_spawn pid_kern demo_din demo_env ''/r'' 7 1000 1000 demo_api [''ls''] (0, 1, 2) lib_init ([], ()) =
     (Spawned 5, lib_init[0 := rec_zero\<lparr>cr_pid := 5\<rparr>], w') \<and>
     lib_launch pid_kern demo_din ''/r'' 7 1000 1000 demo_lib_cfg ([], ()) = (LStarted 5 demo_lib_cfg ([], False) False, ([], False), ''/r'', w')"
proof -
  obtain w' where w': "lib_launch pid_kern demo_din ''/r'' 7 1000 1000 demo_lib_cfg ([], ()) = (LStarted 5 demo_lib_cfg ([], False) False, ([], False), ''/r'', w')"
    using demo_lib_launch by blast
  have "free_rec lib_init = Some 0" by code_simp
  moreover have "cell_id demo_din demo_lib_cfg ([], False) = 0" by (simp add: cell_id_def)
  ultimately show ?thesis using w' by (intro exI[of _ w']) (simp add: agentcell_spawn_def demo_lib_config rec_zero_def)
qed

text \<open>A cell with a cgroup, and with a network the daemon confirms.\<close>

definition net_api :: api_cfg where
  "net_api = demo_api\<lparr>ac_egress := Some ''a.b''\<rparr>"

definition net_lib_cfg :: cfg where
  "net_lib_cfg = (lib_base cell_kern () demo_env net_api [''ls''])\<lparr>workdir := ''/w'', egress := [\<lparr>eh_host = ''a.b'', eh_port = ''443''\<rparr>], netmode := NET_VETH\<rparr>"

lemma net_lib_config: "lib_config cell_kern demo_env net_api [''ls''] w = (Go net_lib_cfg, w)"
proof -
  have "egress_add ''a.b'' C = (0, C\<lparr>egress := [\<lparr>eh_host = ''a.b'', eh_port = ''443''\<rparr>], netmode := NET_VETH\<rparr>)" if "egress C = []" for C
  proof -
    have "egress_split ''a.b'' = (''a.b'', ''443'')" by code_simp
    then show ?thesis using that by (simp add: egress_add_def MAX_EGRESS_def snprintf_s_def)
  qed
  then show ?thesis
    by (cases w) (simp add: lib_config_def lib_workdir_def lib_rootfs_def lib_egress_def net_lib_cfg_def cell_kern_answers net_api_def demo_api_def
        lib_base_def cfg_zero_def)
qed

lemma net_lib_launch:
  "\<exists>w'. lib_launch cell_kern cell_din ''/r'' 7 1000 1000 net_lib_cfg ([], ()) =
     (LStarted 5 (net_started net_lib_cfg) (cell_cgroup, True) False, (cell_cgroup, True), ''/r'', w')"
proof -
  have C: "length (egress net_lib_cfg) = 1" "egress_ok (egress net_lib_cfg)" "resolv net_lib_cfg = []" "netmode net_lib_cfg = NET_VETH" "\<not> secure net_lib_cfg"
    by (simp_all add: net_lib_cfg_def lib_base_def cfg_zero_def net_api_def demo_api_def egress_ok_def token_def isdigit_def MAX_EGRESS_def)
  have reg: "net_veth_register (d_fs cell_din) (d_talk cell_din) 5 net_lib_cfg = (0, net_started net_lib_cfg)"
    using net_registered[OF C(1-3)] by (simp add: cell_din_def demo_din_def)
  obtain l0 where "cgroup_setup cell_kern 7 net_lib_cfg ([(Sup (Mkdtemp root_template), 0)], ()) = ((cell_cgroup, True), (l0, ()))"
    using cell_cgroup_made by blast
  then show ?thesis using C(4,5) reg
    by (simp add: lib_launch_def must_def do_call_def cell_kern_answers release_child_def write_uid_maps_def
        park_def write_file_def attempt_def register_lsm_def register_veth_def log_note_def)
qed


theorem library_tracks_cells_witness:
  "\<exists>M rs w. lib_session pid_kern M rs w \<and> dom M = {5} \<and> live_cells rs = M"
proof -
  obtain w' where w': "agentcell_spawn pid_kern demo_din demo_env ''/r'' 7 1000 1000 demo_api [''ls''] (0, 1, 2) lib_init ([], ()) =
     (Spawned 5, lib_init[0 := rec_zero\<lparr>cr_pid := 5\<rparr>], w')"
     "lib_launch pid_kern demo_din ''/r'' 7 1000 1000 demo_lib_cfg ([], ()) = (LStarted 5 demo_lib_cfg ([], False) False, ([], False), ''/r'', w')"
    using demo_spawn by blast
  define M where "M = Map.empty(5 :: int \<mapsto> \<lparr>cr_pid = 5, cr_have_cg = False, cr_cgpath = [], cr_cgid = cell_id demo_din demo_lib_cfg ([], False), cr_stack = False\<rparr>)"
  have s: "lib_session pid_kern M (lib_init[0 := rec_zero\<lparr>cr_pid := 5\<rparr>]) w'"
    using lib_session.spawns[OF lib_session.start w'(1) demo_lib_config w'(2)] by (simp add: M_def)
  have "live_cells (lib_init[0 := rec_zero\<lparr>cr_pid := 5\<rparr>]) = M" using library_tracks_cells[OF s] by blast
  moreover have "dom M = {5}" by (simp add: M_def)
  ultimately show ?thesis using s by blast
qed

end
