(* ===== verification/Cells.thy ===== *)
theory Cells
  imports Launch
begin

text \<open>
  Looking after running cells: the side files \<^verbatim>\<open>*.info\<close> (\<^verbatim>\<open>write_info\<close>, \<^verbatim>\<open>cell_info\<close>), \<^verbatim>\<open>sand cells\<close>, \<^verbatim>\<open>sand top\<close> and
  \<^verbatim>\<open>sand lsm\<close> of \<^verbatim>\<open>src/sand.c\<close>. Files are what \<open>fs\<close> returns for a path, \<open>ino\<close> is the inode number \<^verbatim>\<open>stat\<close> gives, and a
  directory is the list of its names. What is printed is a value.
\<close>

subsection \<open>The side file\<close>

record info =
  ci_sup :: int
  ci_jail :: int
  ci_started :: int
  ci_cg :: cstr
  ci_execs :: int

definition info_text :: "info \<Rightarrow> bool \<Rightarrow> u64 \<Rightarrow> cstr" where
  "info_text I sec cgid =
     ''sup='' @ dec_int (ci_sup I) @ nl @ ''jail='' @ dec_int (ci_jail I) @ nl @ ''started='' @ dec_int (ci_started I) @ nl @
     ''cg='' @ ci_cg I @ nl @ ''execs='' @ dec_int (ci_execs I) @ nl @
     ''secure='' @ dec_int (if sec then 1 else 0) @ nl @ ''cgid='' @ dec (unat cgid) @ nl"

definition atol :: "cstr \<Rightarrow> int" where
  "atol s = (case strtol s of None \<Rightarrow> 0 | Some (v, _) \<Rightarrow> v)"

definition chomp :: "cstr \<Rightarrow> cstr" where
  "chomp = takeWhile (\<lambda>c. c \<noteq> CHR 0x0A)"

definition info_line :: "cstr \<Rightarrow> info \<Rightarrow> info" where
  "info_line l I =
     (if starts ''sup='' l then I\<lparr>ci_sup := sint (atoi (drop 4 l))\<rparr>
      else if starts ''jail='' l then I\<lparr>ci_jail := sint (atoi (drop 5 l))\<rparr>
      else if starts ''started='' l then I\<lparr>ci_started := atol (drop 8 l)\<rparr>
      else if starts ''cg='' l then I\<lparr>ci_cg := snprintf_s PATH_MAX (chomp (drop 3 l))\<rparr>
      else if starts ''execs='' l then I\<lparr>ci_execs := atol (drop 6 l)\<rparr>
      else I)"

text \<open>The values before the call matter for keys the file does not have.\<close>

definition cell_info :: "(cstr \<Rightarrow> cstr option) \<Rightarrow> cstr \<Rightarrow> info \<Rightarrow> info option" where
  "cell_info fs base I =
     map_option (\<lambda>text. fold info_line (fgets_all text) (I\<lparr>ci_cg := []\<rparr>)) (fs (snprintf_s PATH_MAX (base @ ''.info'')))"

subsection \<open>Listing\<close>

definition cg_num :: "(cstr \<Rightarrow> cstr option) \<Rightarrow> cstr \<Rightarrow> cstr \<Rightarrow> int" where
  "cg_num fs cg file =
     (case fs (snprintf_s PATH_MAX (cg @ ''/'' @ file)) of
        None \<Rightarrow> - 1
      | Some text \<Rightarrow> (case scan_ld text of Some (v, _) \<Rightarrow> v | None \<Rightarrow> - 1))"

text \<open>The number is kept from line to line, so that a file without the key gives the last number read.\<close>

fun cg_scan :: "cstr \<Rightarrow> cstr list \<Rightarrow> int \<Rightarrow> int" where
  "cg_scan key [] v = v"
| "cg_scan key (l # ls) v =
     (case scan_s 63 l of
        None \<Rightarrow> cg_scan key ls v
      | Some (k, r) \<Rightarrow> (case scan_ld r of None \<Rightarrow> cg_scan key ls v | Some (v', _) \<Rightarrow> if k = key then v' else cg_scan key ls v'))"

definition cg_stat :: "(cstr \<Rightarrow> cstr option) \<Rightarrow> cstr \<Rightarrow> cstr \<Rightarrow> cstr \<Rightarrow> int" where
  "cg_stat fs cg file key =
     (case fs (snprintf_s PATH_MAX (cg @ ''/'' @ file)) of None \<Rightarrow> - 1 | Some text \<Rightarrow> cg_scan key (fgets_all text) (- 1))"

text \<open>\<open>gfmt\<close> prints a number of gigabytes with \<^verbatim>\<open>"%.1fG"\<close>.\<close>

definition fmt_human :: "(int \<Rightarrow> cstr) \<Rightarrow> nat \<Rightarrow> int \<Rightarrow> cstr" where
  "fmt_human gfmt n bytes =
     snprintf_s n
      (if bytes < 0 then ''-''
       else if bytes < 2 ^ 20 then dec_int (bytes div 2 ^ 10) @ ''K''
       else if bytes < 2 ^ 30 then dec_int (bytes div 2 ^ 20) @ ''M''
       else gfmt bytes)"

definition sock_name :: "cstr \<Rightarrow> bool" where
  "sock_name n \<longleftrightarrow> length n \<ge> 5 \<and> drop (length n - 5) n = ''.sock'' \<and> starts ''agentcell-'' n"

text \<open>Division in C rounds towards zero.\<close>

definition cdiv :: "int \<Rightarrow> int \<Rightarrow> int" where
  "cdiv a b = (if a < 0 then - (- a div b) else a div b)"

definition cmod :: "int \<Rightarrow> int \<Rightarrow> int" where
  "cmod a b = a - cdiv a b * b"

record row =
  rw_name :: cstr
  rw_sup :: int
  rw_up :: "int \<times> int \<times> int"
  rw_execs :: int
  rw_cpu :: int
  rw_mem :: cstr
  rw_pids :: int

definition list_row :: "(cstr \<Rightarrow> cstr option) \<Rightarrow> (int \<Rightarrow> bool) \<Rightarrow> int \<Rightarrow> (int \<Rightarrow> cstr) \<Rightarrow> cstr \<Rightarrow> cstr \<Rightarrow> row option" where
  "list_row fs alive now gfmt rt name =
     (case cell_info fs (snprintf_s PATH_MAX (rt @ ''/'' @ name)) \<lparr>ci_sup = 0, ci_jail = 0, ci_started = 0, ci_cg = [], ci_execs = 0\<rparr> of
        None \<Rightarrow> None
      | Some I \<Rightarrow>
          if \<not> alive (ci_sup I) then None
          else
            let up = now - ci_started I; cg = ci_cg I; have_cg = (cg \<noteq> [] \<and> cg \<noteq> ''-'');
                memc = (if have_cg then cg_num fs cg ''memory.current'' else - 1);
                usec = (if have_cg then cg_stat fs cg ''cpu.stat'' ''usage_usec'' else - 1);
                n = (if have_cg then cg_num fs cg ''pids.current'' else - 1)
            in Some \<lparr>rw_name = name, rw_sup = ci_sup I, rw_up = (cdiv up 3600, cmod (cdiv up 60) 60, cmod up 60),
                 rw_execs = ci_execs I, rw_cpu = (if usec < 0 then - 1 else usec div 1000000), rw_mem = fmt_human gfmt 16 memc, rw_pids = n\<rparr>)"

definition runtime_dir :: "cstr option \<Rightarrow> cstr" where
  "runtime_dir rt = (case rt of Some d \<Rightarrow> d | None \<Rightarrow> ''/tmp'')"

definition list_cells :: "(cstr \<Rightarrow> cstr option) \<Rightarrow> (int \<Rightarrow> bool) \<Rightarrow> int \<Rightarrow> (int \<Rightarrow> cstr) \<Rightarrow> cstr option \<Rightarrow> cstr list option \<Rightarrow> row list \<times> int" where
  "list_cells fs alive now gfmt rt dir =
     (case dir of
        None \<Rightarrow> ([], 1)
      | Some names \<Rightarrow>
          let rows = List.map_filter (list_row fs alive now gfmt (runtime_dir rt)) (filter sock_name names)
          in (rows, if rows \<noteq> [] then 0 else 1))"

text \<open>\<^verbatim>\<open>sand top\<close>: without an argument \<^verbatim>\<open>strstr\<close> is called on a null pointer. One turn of its endless loop gives a sample.\<close>

datatype top_end = TopCrash | TopExit int | TopRun cstr info

definition top_cells :: "(cstr \<Rightarrow> cstr option) \<Rightarrow> info \<Rightarrow> cstr option \<Rightarrow> top_end" where
  "top_cells fs I arg =
     (case arg of
        None \<Rightarrow> TopCrash
      | Some s \<Rightarrow>
          (case strstr ''.sock'' s of
             None \<Rightarrow> TopExit 2
           | Some (pre, _) \<Rightarrow>
               let base = snprintf_s PATH_MAX (pre @ ''.sock'')
               in case cell_info fs base I of None \<Rightarrow> TopExit 1 | Some I \<Rightarrow> TopRun base I))"

definition top_sample :: "(cstr \<Rightarrow> cstr option) \<Rightarrow> (int \<Rightarrow> cstr) \<Rightarrow> int \<Rightarrow> info \<Rightarrow> (int \<times> cstr \<times> cstr \<times> int \<times> int) \<times> int" where
  "top_sample fs gfmt prev I =
     (let usec = cg_stat fs (ci_cg I) ''cpu.stat'' ''usage_usec''; mem = cg_num fs (ci_cg I) ''memory.current'';
          n = cg_num fs (ci_cg I) ''pids.current''; memmax = cg_num fs (ci_cg I) ''memory.max''
      in ((cdiv (usec - prev) 1000, fmt_human gfmt 16 mem, fmt_human gfmt 16 memmax, n, ci_execs I), usec))"

subsection \<open>Naming cells\<close>

record cellname =
  ce_cgid :: u64
  ce_name :: cstr

definition info_cg :: "cstr \<Rightarrow> cstr" where
  "info_cg text = (case find (starts ''cg='') (fgets_all text) of None \<Rightarrow> [] | Some l \<Rightarrow> snprintf_s PATH_MAX (chomp (drop 3 l)))"

definition table_add :: "(cstr \<Rightarrow> cstr option) \<Rightarrow> (cstr \<Rightarrow> u64 option) \<Rightarrow> cstr \<Rightarrow> nat \<Rightarrow> cellname list \<Rightarrow> cstr \<Rightarrow> cellname list" where
  "table_add fs ino rt lim tab name =
     (if length tab \<ge> lim \<or> \<not> sock_name name then tab
      else case fs (snprintf_s PATH_MAX (rt @ ''/'' @ name @ ''.info'')) of
        None \<Rightarrow> tab
      | Some text \<Rightarrow>
          if info_cg text = [] then tab
          else case ino (info_cg text) of
            None \<Rightarrow> tab
          | Some i \<Rightarrow> tab @ [\<lparr>ce_cgid = i, ce_name = snprintf_s 64 name\<rparr>])"

definition build_cell_table :: "(cstr \<Rightarrow> cstr option) \<Rightarrow> (cstr \<Rightarrow> u64 option) \<Rightarrow> cstr option \<Rightarrow> cstr list option \<Rightarrow> nat \<Rightarrow> cellname list" where
  "build_cell_table fs ino rt dir lim =
     (case dir of None \<Rightarrow> [] | Some names \<Rightarrow> foldl (table_add fs ino (runtime_dir rt) lim) [] names)"

definition cell_of :: "cellname list \<Rightarrow> u64 \<Rightarrow> cstr" where
  "cell_of tab cgid = (case find (\<lambda>c. ce_cgid c = cgid) tab of None \<Rightarrow> ''?'' | Some c \<Rightarrow> ce_name c)"

definition strtoull :: "cstr \<Rightarrow> u64" where
  "strtoull s = (case scan_llu s of None \<Rightarrow> 0 | Some (v, _) \<Rightarrow> v)"

definition resolve_target :: "cstr \<Rightarrow> cellname list \<Rightarrow> (u64 \<times> cstr) option" where
  "resolve_target sel tab =
     (if list_all isdigit sel then Some (strtoull sel, snprintf_s 64 (cell_of tab (strtoull sel)))
      else
        let base = basename_of sel
        in case filter (\<lambda>c. ce_name c = base \<or> starts base (ce_name c)) tab of
             [c] \<Rightarrow> Some (ce_cgid c, snprintf_s 64 (ce_name c))
           | _ \<Rightarrow> None)"

subsection \<open>Changing and showing policies\<close>

text \<open>A conversation: a request gives the answer read, or \<open>None\<close>, and changes the state of the daemon.\<close>

type_synonym 's talk = "cstr \<Rightarrow> 's \<Rightarrow> cstr option \<times> 's"

definition rule_cmd :: "cstr \<Rightarrow> u64 \<Rightarrow> cstr \<Rightarrow> cstr" where
  "rule_cmd verb cgid p = snprintf_s 320 (verb @ '' '' @ dec (unat cgid) @ '' '' @ p)"

definition said_ok :: "cstr option \<Rightarrow> bool" where
  "said_ok rep = (case rep of None \<Rightarrow> False | Some r \<Rightarrow> starts ''OK'' r)"

fun ctl_rules :: "'s talk \<Rightarrow> cstr \<Rightarrow> u64 \<Rightarrow> cstr list \<Rightarrow> 's \<Rightarrow> int \<times> 's" where
  "ctl_rules talk verb cgid [] s = (0, s)"
| "ctl_rules talk verb cgid (p # ps) s =
     (let (rep, s) = talk (rule_cmd verb cgid p) s; (rc, s) = ctl_rules talk verb cgid ps s
      in (if said_ok rep then rc else 1, s))"

definition lsm_ctl_cmd :: "'s talk \<Rightarrow> cellname list \<Rightarrow> cstr \<Rightarrow> cstr list \<Rightarrow> 's \<Rightarrow> int \<times> 's" where
  "lsm_ctl_cmd talk tab sub av s =
     (if av = [] \<or> sub \<noteq> ''reset'' \<and> tl av = [] then (2, s)
      else case resolve_target (hd av) tab of
        None \<Rightarrow> (1, s)
      | Some (cgid, _) \<Rightarrow>
          if sub = ''reset'' then
            let (rep, s) = talk (snprintf_s 320 (''CLR '' @ dec (unat cgid))) s in (if said_ok rep then 0 else 1, s)
          else ctl_rules talk (if sub = ''deny'' then ''ADD'' else ''DEL'') cgid (tl av) s)"

text \<open>The complete lines of one read; what follows the last newline is dropped.\<close>

definition whole_lines :: "cstr \<Rightarrow> cstr list" where
  "whole_lines chunk = butlast (split_on (CHR 0x0A) (cut0 chunk))"

text \<open>The reads of \<^verbatim>\<open>LIST\<close>: the rows, and whether \<^verbatim>\<open>END\<close> was seen.\<close>

fun list_lines :: "cellname list \<Rightarrow> cstr list \<Rightarrow> (u64 \<times> cstr \<times> cstr) list \<times> bool" where
  "list_lines tab [] = ([], False)"
| "list_lines tab (l # ls) =
     (if starts ''END'' l then ([], True)
      else
        let (rows, ended) = list_lines tab ls;
            row = (case scan_llu l of None \<Rightarrow> [] | Some (cgid, r) \<Rightarrow>
                    (case scan_s 255 r of None \<Rightarrow> [] | Some (p, _) \<Rightarrow> [(cgid, cell_of tab cgid, p)]))
        in (row @ rows, ended))"

fun list_reads :: "cellname list \<Rightarrow> cstr list \<Rightarrow> (u64 \<times> cstr \<times> cstr) list \<times> bool" where
  "list_reads tab [] = ([], False)"
| "list_reads tab (chunk # chunks) =
     (case list_lines tab (whole_lines chunk) of
        (rows, True) \<Rightarrow> (rows, True)
      | (rows, False) \<Rightarrow> (let (rest, ended) = list_reads tab chunks in (rows @ rest, ended)))"

text \<open>The lines of \<^verbatim>\<open>WATCH\<close>, read with \<^verbatim>\<open>"EV %llu %n"\<close>.\<close>

definition event_line :: "cellname list \<Rightarrow> cstr \<Rightarrow> (cstr \<times> cstr) option" where
  "event_line tab l =
     (if \<not> starts ''EV'' l then None
      else map_option (\<lambda>(cgid, r). (cell_of tab cgid, dropWhile isspace r)) (scan_llu (drop 2 l)))"

definition event_reads :: "cellname list \<Rightarrow> cstr list \<Rightarrow> (cstr \<times> cstr) list" where
  "event_reads tab chunks = List.map_filter (event_line tab) (concat (map whole_lines chunks))"

definition watch_cmd :: "cstr option \<Rightarrow> cstr" where
  "watch_cmd classes = (case classes of None \<Rightarrow> ''WATCH'' @ nl | Some c \<Rightarrow> snprintf_s 300 (''WATCH '' @ c @ nl))"

text \<open>\<^verbatim>\<open>lsm_status\<close>: the exit status, the rows of \<^verbatim>\<open>LIST\<close>, the requests sent and the events shown. \<open>up\<close> says whether the daemon
  accepts a connection; the reads of each phase are arguments.\<close>

record 's status =
  st_rc :: int
  st_rows :: "(u64 \<times> cstr \<times> cstr) list"
  st_sent :: "cstr list"
  st_events :: "(cstr \<times> cstr) list"
  st_daemon :: 's

definition lsm_status :: "'s talk \<Rightarrow> cellname list \<Rightarrow> bool \<Rightarrow> cstr list \<Rightarrow> cstr list \<Rightarrow> cstr list \<Rightarrow> 's \<Rightarrow> 's status" where
  "lsm_status talk tab up lreads wreads av s =
     (if av \<noteq> [] \<and> (hd av = ''deny'' \<or> hd av = ''allow'' \<or> hd av = ''reset'') then
        let (rc, s) = lsm_ctl_cmd talk tab (hd av) (tl av) s
        in \<lparr>st_rc = rc, st_rows = [], st_sent = [], st_events = [], st_daemon = s\<rparr>
      else if \<not> up then \<lparr>st_rc = 1, st_rows = [], st_sent = [], st_events = [], st_daemon = s\<rparr>
      else
        let follow = av \<noteq> [] \<and> (hd av = ''-f'' \<or> hd av = ''--follow'');
            classes = (case tl av of [] \<Rightarrow> None | c # _ \<Rightarrow> Some c);
            rows = fst (list_reads tab lreads)
        in if \<not> follow then \<lparr>st_rc = 0, st_rows = rows, st_sent = [''LIST'' @ nl], st_events = [], st_daemon = s\<rparr>
           else \<lparr>st_rc = 0, st_rows = rows, st_sent = [''LIST'' @ nl, watch_cmd classes], st_events = event_reads tab wreads, st_daemon = s\<rparr>)"

end
