(* ===== verification/Serve_Loop.thy ===== *)
theory Serve_Loop
  imports Cells
begin

text \<open>
  The supervisor of \<^verbatim>\<open>sand serve\<close>: \<^verbatim>\<open>serve_loop\<close> and \<^verbatim>\<open>write_info\<close> of \<^verbatim>\<open>src/sand.c\<close>. A turn of the loop is a record of what
  the calls that wait or look return; \<^verbatim>\<open>bind\<close>, \<^verbatim>\<open>send_fd\<close> and the clean-up are calls on the log.
\<close>

definition EINTR :: int where "EINTR = 4"

definition sock_path :: "cstr option \<Rightarrow> int \<Rightarrow> cfg \<Rightarrow> cstr" where
  "sock_path rt jail C =
     snprintf_s PATH_MAX (if sock C \<noteq> [] then sock C else runtime_dir rt @ ''/agentcell-'' @ dec_int jail @ ''.sock'')"

text \<open>The address has room for 107 characters.\<close>

definition sun_path :: "cstr \<Rightarrow> cstr" where
  "sun_path p = snprintf_s 108 p"

definition info_path :: "cstr \<Rightarrow> cstr" where
  "info_path p = snprintf_s PATH_MAX (p @ ''.info'')"

definition m0666 :: nat where "m0666 = 438"
definition m0600 :: nat where "m0600 = 384"

definition write_info :: "'h kern \<Rightarrow> cstr \<Rightarrow> cstr \<Rightarrow> 'h act" where
  "write_info K path text w =
     (let (fd, w) = do_call K (OpenCreate path m0666) w in
      if fd < 0 then (None, w) else attempt K (WriteFile path text) w)"

record serve_cell =
  sc_self :: int
  sc_jail :: int
  sc_cg :: "cstr \<times> bool"
  sc_cgid :: u64
  sc_secure :: bool
  sc_path :: cstr

definition info_now :: "serve_cell \<Rightarrow> int \<Rightarrow> int \<Rightarrow> cstr" where
  "info_now S now execs =
     info_text \<lparr>ci_sup = sc_self S, ci_jail = sc_jail S, ci_started = now, ci_cg = (if snd (sc_cg S) then fst (sc_cg S) else ''-''),
       ci_execs = execs\<rparr> (sc_secure S) (sc_cgid S)"

definition serve_start :: "'h kern \<Rightarrow> serve_cell \<Rightarrow> int \<Rightarrow> 'h act list" where
  "serve_start K S now =
     [attempt K (Unlink (sc_path S)), must K (Sup (Bind (sun_path (sc_path S)))) ''listen socket'', must K (Sup Listen) ''listen socket'',
      attempt K (Sup (Chmod (sc_path S) m0600)), write_info K (info_path (sc_path S)) (info_now S now 0)]"

text \<open>One turn: \<open>si_stop\<close> is \<^verbatim>\<open>g_stop\<close>, \<open>si_poll\<close> what \<^verbatim>\<open>poll\<close> returns, \<open>si_host\<close> and \<open>si_listen\<close> the events, \<open>si_peek\<close> what \<^verbatim>\<open>recv\<close>
  returns, \<open>si_conn\<close> what \<^verbatim>\<open>accept4\<close> returns, \<open>si_gone\<close> whether \<^verbatim>\<open>waitpid\<close> finds the jail ended, \<open>si_now\<close> the time.\<close>

record serve_in =
  si_stop :: bool
  si_poll :: int
  si_host :: bool
  si_peek :: int
  si_listen :: bool
  si_conn :: int
  si_gone :: bool
  si_now :: int

definition hand_over :: "'h kern \<Rightarrow> serve_cell \<Rightarrow> serve_in \<Rightarrow> int \<Rightarrow> 'h world \<Rightarrow> int \<times> 'h world" where
  "hand_over K S i execs w =
     (if si_listen i \<and> si_conn i \<ge> 0
      then let w = snd (do_call K (Sup (SendFd (si_conn i))) w)
           in (execs + 1, snd (write_info K (info_path (sc_path S)) (info_now S (si_now i) (execs + 1)) w))
      else (execs, w))"

definition serve_step :: "'h kern \<Rightarrow> serve_cell \<Rightarrow> serve_in \<Rightarrow> int \<Rightarrow> 'h world \<Rightarrow> bool \<times> int \<times> 'h world" where
  "serve_step K S i execs w =
     (if si_stop i then (False, execs, w)
      else if si_poll i < 0 then (si_poll i = - EINTR, execs, w)
      else if si_host i \<and> si_peek i \<le> 0 then (False, execs, w)
      else let (execs, w) = hand_over K S i execs w in (\<not> si_gone i, execs, w))"

text \<open>The loop over the turns so far: whether it has ended, and the number of connections handed over.\<close>

fun serve_turns :: "'h kern \<Rightarrow> serve_cell \<Rightarrow> serve_in list \<Rightarrow> int \<Rightarrow> 'h world \<Rightarrow> bool \<times> int \<times> 'h world" where
  "serve_turns K S [] execs w = (False, execs, w)"
| "serve_turns K S (i # turns) execs w =
     (case serve_step K S i execs w of
        (True, execs, w) \<Rightarrow> serve_turns K S turns execs w
      | (False, execs, w) \<Rightarrow> (True, execs, w))"

definition serve_stop :: "'h kern \<Rightarrow> daemon_in \<Rightarrow> serve_cell \<Rightarrow> cfg \<Rightarrow> bool \<Rightarrow> 'h world \<Rightarrow> 'h world" where
  "serve_stop K D S C lsm_on w =
     (let w = snd (do_call K (Sup (Kill (sc_jail S))) w);
          w = snd (do_call K (Sup (WaitFor (sc_jail S))) w);
          w = unregister_lsm D lsm_on w;
          w = (case net_veth_unregister (sc_jail S) C of (Some _, _) \<Rightarrow> log_note (NetDown (sc_jail S)) 0 w | (None, _) \<Rightarrow> w);
          w = snd (do_call K (Unlink (sc_path S)) w)
      in snd (do_call K (Unlink (info_path (sc_path S))) w))"

datatype serve_end = SDied cstr | Serving int | Stopped int

definition serve_loop :: "'h kern \<Rightarrow> daemon_in \<Rightarrow> serve_cell \<Rightarrow> cfg \<Rightarrow> bool \<Rightarrow> int \<Rightarrow> serve_in list \<Rightarrow> 'h world \<Rightarrow> serve_end \<times> 'h world" where
  "serve_loop K D S C lsm_on now turns w =
     (case run_acts (serve_start K S now) w of
        (Some m, w) \<Rightarrow> (SDied m, w)
      | (None, w) \<Rightarrow>
          (case serve_turns K S turns 0 w of
             (False, execs, w) \<Rightarrow> (Serving execs, w)
           | (True, execs, w) \<Rightarrow> (Stopped execs, serve_stop K D S C lsm_on w)))"

end
