(* ===== verification/Cell_Claims.thy ===== *)
theory Cell_Claims
  imports Serve_Loop Client_Claims Daemon_Claims
begin

text \<open>
  Properties of the administration of running cells: policy changes made with \<^verbatim>\<open>sand lsm\<close> reach the hook, the side file is
  read back as it was written, and the supervisor of \<^verbatim>\<open>sand serve\<close> hands every connection on once and cleans up.
\<close>

subsection \<open>Policy changes\<close>

text \<open>One connection to the daemon: the request is a line of its socket, and the answer is what it wrote back.\<close>

definition daemon_talk :: "'h env \<Rightarrow> outside \<Rightarrow> nat \<Rightarrow> 'h daemon talk" where
  "daemon_talk E w i cmd d =
     (let d' = serve_line E w i cmd d
      in (if length (dm_sent d) < length (dm_sent d') then Some (snd (last (dm_sent d'))) else None, d'))"

definition rule_word :: "cstr \<Rightarrow> bool" where
  "rule_word p \<longleftrightarrow> p \<noteq> [] \<and> (\<forall>c \<in> set p. \<not> isspace c) \<and> length p \<le> 63"

lemma unat64: "unat (c :: u64) < 2 ^ 64"
proof -
  have "unat c < 2 ^ LENGTH(64)" by (rule unsigned_less)
  then show ?thesis by simp
qed

lemma scan_llu_dec: "r = [] \<or> \<not> isdigit (hd r) \<Longrightarrow> scan_llu (dec (unat c) @ r) = Some (c, r)"
  using unat64[of c] by (simp add: scan_llu_def scan_num_dec)

lemma scan_rule_print: "rule_word p \<Longrightarrow> scan_rule (dec (unat c) @ CHR '' '' # p) = Some (c, p)"
proof -
  assume p: "rule_word p"
  have "\<not> isdigit (CHR '' '')" by (simp add: isdigit_def)
  then have "scan_llu (dec (unat c) @ CHR '' '' # p) = Some (c, CHR '' '' # p)" by (intro scan_llu_dec) simp
  moreover have "scan_s 63 (CHR '' '' # p) = Some (p, [])" using scan_s_word(2)[of p "[]"] p by (simp add: rule_word_def)
  ultimately show ?thesis by (simp add: scan_rule_def)
qed

lemma length_dec64: "length (dec (unat (c :: u64))) \<le> 20"
  using unat64[of c] length_dec[of "unat c" 19] by simp

lemma snprintf_whole: "length s < n \<Longrightarrow> snprintf_s n s = s"
  by (simp add: snprintf_s_def)

lemma rule_cmd_whole: "rule_word p \<Longrightarrow> length v = 3 \<Longrightarrow> rule_cmd v c p = v @ CHR '' '' # dec (unat c) @ CHR '' '' # p"
  unfolding rule_cmd_def using length_dec64[of c] by (subst snprintf_whole) (simp_all add: rule_word_def)

lemma clr_cmd_whole: "snprintf_s 320 (''CLR '' @ dec (unat (c :: u64))) = CHR ''C'' # CHR ''L'' # CHR ''R'' # CHR '' '' # dec (unat c)"
  using length_dec64[of c] by (subst snprintf_whole) simp_all

lemma dm_maps_reply [simp]: "dm_maps (reply w i rep d) = dm_maps d"
  by (simp add: reply_def conn_drop_def Let_def)

lemma reply_ok:
  assumes "length (dm_sent d) < length (dm_sent (reply w i (ok_or ok err) (d\<lparr>dm_maps := ms\<rparr>)))"
    "starts ''OK'' (snd (last (dm_sent (reply w i (ok_or ok err) (d\<lparr>dm_maps := ms\<rparr>)))))" "starts ''ERR'' err"
  shows ok
proof (rule ccontr)
  assume n: "\<not> ok"
  obtain e where "err = CHR ''E'' # e" using assms(3) by (cases err) (auto simp: starts_def)
  then show False using assms(1,2) n by (auto simp: reply_def ok_or_def starts_def conn_drop_def Let_def split: if_splits)
qed

text \<open>The three requests as steps of the policy.\<close>

fun op_cmd :: "lsm_op \<Rightarrow> cstr" where
  "op_cmd (LsmAdd i j c p) = rule_cmd ''ADD'' c p"
| "op_cmd (LsmDel c p) = rule_cmd ''DEL'' c p"
| "op_cmd (lsm_op.LsmClr c) = snprintf_s 320 (''CLR '' @ dec (unat c))"

fun op_word :: "outside \<Rightarrow> lsm_op \<Rightarrow> bool" where
  "op_word w (LsmAdd i j c p) = (rule_word p \<and> (i, j) = o_places w)"
| "op_word w (LsmDel c p) = rule_word p"
| "op_word w (lsm_op.LsmClr c) = True"

lemma serve_op:
  assumes "op_word w oper" "lsm_step (dm_maps d) oper = (rc, ms)"
  shows "\<exists>err. starts ''ERR'' err \<and> serve_line E w i (op_cmd oper) d = reply w i (ok_or (rc = 0) err) (d\<lparr>dm_maps := ms\<rparr>)"
proof (cases oper)
  case (LsmAdd a b c p)
  then have "op_cmd oper = CHR ''A'' # CHR ''D'' # CHR ''D'' # CHR '' '' # dec (unat c) @ CHR '' '' # p" "scan_rule (dec (unat c) @ CHR '' '' # p) = Some (c, p)"
    using assms(1) rule_cmd_whole[of p "''ADD''" c] scan_rule_print[of p c] by auto
  moreover have "o_places w = (a, b)" using assms(1) LsmAdd by simp
  ultimately show ?thesis using assms(2) LsmAdd
    by (intro exI[of _ "''ERR add''"]) (simp add: serve_line_def skip_def starts_def serve_add_def)
next
  case (LsmDel c p)
  then have "op_cmd oper = CHR ''D'' # CHR ''E'' # CHR ''L'' # CHR '' '' # dec (unat c) @ CHR '' '' # p" "scan_rule (dec (unat c) @ CHR '' '' # p) = Some (c, p)"
    using assms(1) rule_cmd_whole[of p "''DEL''" c] scan_rule_print[of p c] by auto
  then show ?thesis using assms LsmDel
    by (intro exI[of _ "''ERR del''"]) (simp add: serve_line_def skip_def starts_def serve_del_def)
next
  case (LsmClr c)
  then have "op_cmd oper = CHR ''C'' # CHR ''L'' # CHR ''R'' # CHR '' '' # dec (unat c)" "scan_llu (dec (unat c)) = Some (c, [])"
    using clr_cmd_whole[of c] scan_llu_dec[of "[]" c] by simp_all
  then show ?thesis using assms LsmClr
    by (intro exI[of _ "''ERR clr''"]) (simp add: serve_line_def skip_def starts_def serve_clr_def)
qed

lemma talk_op:
  assumes "op_word w oper" "daemon_talk E w i (op_cmd oper) d = (rep, d')" "lsm_inv (dm_maps d)" "said_ok rep"
  shows "lsm_inv (dm_maps d') \<and> lsm_abs (dm_maps d') = policy_step (lsm_abs (dm_maps d)) oper"
proof -
  obtain rc ms where st: "lsm_step (dm_maps d) oper = (rc, ms)" by (rule prod.exhaust)
  obtain err where e: "starts ''ERR'' err" "serve_line E w i (op_cmd oper) d = reply w i (ok_or (rc = 0) err) (d\<lparr>dm_maps := ms\<rparr>)"
    using serve_op[OF assms(1) st] by blast
  have t: "length (dm_sent d) < length (dm_sent d')" "starts ''OK'' (snd (last (dm_sent d')))" "d' = serve_line E w i (op_cmd oper) d"
    using assms(2,4) by (auto simp: daemon_talk_def Let_def said_ok_def split: if_splits)
  have "rc = 0" by (rule reply_ok[OF _ _ e(1)]) (use t e(2) in simp_all)
  moreover have "op_prefix_ok oper" using assms(1) by (cases oper) (auto simp: rule_word_def)
  ultimately show ?thesis using lsm_step_refines[OF assms(3) _ st] t(3) e(2) by simp
qed

lemma ctl_rules_ops:
  assumes "ctl_rules (daemon_talk E w i) v c ps d = (0, d')" "lsm_inv (dm_maps d)" "list_all (\<lambda>p. op_word w (f p) \<and> op_cmd (f p) = rule_cmd v c p) ps"
  shows "lsm_inv (dm_maps d') \<and> lsm_abs (dm_maps d') = foldl policy_step (lsm_abs (dm_maps d)) (map f ps)"
  using assms
proof (induction ps arbitrary: d)
  case (Cons p ps)
  obtain rep d1 where t: "daemon_talk E w i (rule_cmd v c p) d = (rep, d1)" by (rule prod.exhaust)
  obtain rc d2 where r: "ctl_rules (daemon_talk E w i) v c ps d1 = (rc, d2)" by (rule prod.exhaust)
  have ok: "said_ok rep" "rc = 0" "d2 = d'" using Cons.prems(1) t r by (auto split: if_splits)
  have "lsm_inv (dm_maps d1) \<and> lsm_abs (dm_maps d1) = policy_step (lsm_abs (dm_maps d)) (f p)"
    using talk_op[of w "f p" E i d rep d1] Cons.prems(2,3) t ok(1) by simp
  then show ?case using Cons.IH[of d1] r ok Cons.prems(3) by simp
qed simp

text \<open>What \<^verbatim>\<open>sand lsm\<close> asks for.\<close>

definition wanted_ops :: "cstr \<Rightarrow> u64 \<Rightarrow> cstr list \<Rightarrow> lsm_op list" where
  "wanted_ops sub c ps =
     (if sub = ''reset'' then [lsm_op.LsmClr c] else if sub = ''deny'' then map (LsmAdd 0 0 c) ps else map (LsmDel c) ps)"

lemma policy_step_places: "policy_step P (LsmAdd i j c p) = policy_step P (LsmAdd 0 0 c p)"
  by (cases P) simp

lemma foldl_places: "foldl policy_step P (map (LsmAdd i j c) ps) = foldl policy_step P (map (LsmAdd 0 0 c) ps)"
  by (induction ps arbitrary: P) (simp_all add: policy_step_places[of _ i j])

text \<open>C8: a policy change takes effect. When \<^verbatim>\<open>sand lsm deny\<close>, \<^verbatim>\<open>allow\<close> or \<^verbatim>\<open>reset\<close> reports success for a cell and prefixes that are words
  of at most 63 characters, then from then on the hook decides every open of a path it can see in full by the former
  policy with exactly those prefixes added, removed, or all of the cell's rules dropped.\<close>

theorem policy_change_enforced:
  assumes "lsm_ctl_cmd (daemon_talk E w i) tab sub (sel # ps) d = (0, d')" "resolve_target sel tab = Some (cgid, name)"
    "lsm_inv (dm_maps d)" "list_all rule_word ps" "sub \<in> {''deny'', ''allow'', ''reset''}"
    "length path < PLEN" "block_until_ns ro = 0" "\<not> mode_flat ro"
  shows "cell_file_open ro (dm_maps d') cx (Some path) =
    (if policy_denies (foldl policy_step (lsm_abs (dm_maps d)) (wanted_ops sub cgid ps)) (cur_cgid cx) path
     then (- uint EPERM, deny_event cx path) else (0, []))"
proof -
  have new: "lsm_inv (dm_maps d') \<and> lsm_abs (dm_maps d') = foldl policy_step (lsm_abs (dm_maps d)) (wanted_ops sub cgid ps)"
  proof (cases "sub = ''reset''")
    case True
    obtain rep d1 where t: "daemon_talk E w i (op_cmd (lsm_op.LsmClr cgid)) d = (rep, d1)" by (rule prod.exhaust)
    have "said_ok rep" "d' = d1" using assms(1,2) True t by (auto simp: lsm_ctl_cmd_def Let_def split: if_splits)
    then show ?thesis using talk_op[OF _ t assms(3)] True by (simp add: wanted_ops_def)
  next
    case False
    define f where "f = (if sub = ''deny'' then LsmAdd (fst (o_places w)) (snd (o_places w)) cgid else LsmDel cgid)"
    have "ctl_rules (daemon_talk E w i) (if sub = ''deny'' then ''ADD'' else ''DEL'') cgid ps d = (0, d')"
      using assms(1,2) False by (auto simp: lsm_ctl_cmd_def split: if_splits)
    moreover have "list_all (\<lambda>p. op_word w (f p) \<and> op_cmd (f p) = rule_cmd (if sub = ''deny'' then ''ADD'' else ''DEL'') cgid p) ps"
      using assms(4) by (simp add: list_all_iff f_def)
    ultimately have "lsm_inv (dm_maps d') \<and> lsm_abs (dm_maps d') = foldl policy_step (lsm_abs (dm_maps d)) (map f ps)"
      using assms(3) by (intro ctl_rules_ops)
    then show ?thesis using False foldl_places by (simp add: wanted_ops_def f_def split: if_splits)
  qed
  show ?thesis
    unfolding new[THEN conjunct2, symmetric] using cell_file_open_serve[OF new[THEN conjunct1] assms(6-8)] by (simp add: policy_denies_def lsm_abs_def)
qed

definition demo_tab :: "cellname list" where
  "demo_tab = [\<lparr>ce_cgid = 7, ce_name = ''agentcell-3.sock''\<rparr>]"

lemma demo_deny:
  "\<exists>d'. lsm_ctl_cmd (daemon_talk (sim_env (\<lambda>_. False)) demo_outside 0) demo_tab ''deny'' [''agentcell-3'', ''/home''] (demo_daemon [demo_conn]) = (0, d')"
proof -
  let ?E = "sim_env (\<lambda>_. False)" and ?d = "demo_daemon [demo_conn]"
  have r: "resolve_target ''agentcell-3'' demo_tab = Some (7, ''agentcell-3.sock'')" by code_simp
  obtain ms where ms: "lsm_step (dm_maps ?d) (LsmAdd 0 0 7 ''/home'') = (0, ms)" by (simp add: demo_daemon_def lsm_eval)
  have "op_word demo_outside (LsmAdd 0 0 7 ''/home'')" by (simp add: rule_word_def isspace_def demo_outside_def)
  from serve_op[OF this ms, of ?E 0] obtain err where "serve_line ?E demo_outside 0 (rule_cmd ''ADD'' 7 ''/home'') ?d = reply demo_outside 0 (ok_or True err) (?d\<lparr>dm_maps := ms\<rparr>)"
    by auto
  then have "\<exists>d'. daemon_talk ?E demo_outside 0 (rule_cmd ''ADD'' 7 ''/home'') ?d = (Some (ok_or True err), d')"
    by (simp add: daemon_talk_def reply_def demo_outside_def)
  then obtain d' where "daemon_talk ?E demo_outside 0 (rule_cmd ''ADD'' 7 ''/home'') ?d = (Some (ok_or True err), d')" by blast
  then show ?thesis using r by (simp add: lsm_ctl_cmd_def said_ok_def ok_or_def starts_def)
qed

theorem policy_change_enforced_witness:
  "\<exists>d'. lsm_ctl_cmd (daemon_talk (sim_env (\<lambda>_. False)) demo_outside 0) demo_tab ''deny'' [''agentcell-3'', ''/home''] (demo_daemon [demo_conn]) = (0, d') \<and>
     fst (cell_file_open serve_rodata (dm_maps d') (demo_ctx 7) (Some ''/home/x'')) = - 1"
proof -
  obtain d' where d': "lsm_ctl_cmd (daemon_talk (sim_env (\<lambda>_. False)) demo_outside 0) demo_tab ''deny'' [''agentcell-3'', ''/home''] (demo_daemon [demo_conn]) = (0, d')"
    using demo_deny by blast
  have r: "resolve_target ''agentcell-3'' demo_tab = Some (7, ''agentcell-3.sock'')" by code_simp
  have w: "list_all rule_word [''/home'']" by (simp add: rule_word_def isspace_def)
  have i: "lsm_inv (dm_maps (demo_daemon [demo_conn]))" by (simp add: demo_daemon_def lsm_inv_init)
  have "cell_file_open serve_rodata (dm_maps d') (demo_ctx 7) (Some ''/home/x'') = (- uint EPERM, deny_event (demo_ctx 7) ''/home/x'')"
  proof -
    have "policy_denies (foldl policy_step (lsm_abs (dm_maps (demo_daemon [demo_conn]))) (wanted_ops ''deny'' 7 [''/home''])) (cur_cgid (demo_ctx 7)) ''/home/x''"
      by (simp add: policy_denies_def wanted_ops_def lsm_abs_def demo_ctx_def PLEN_def)
    moreover have "length ''/home/x'' < PLEN" "block_until_ns serve_rodata = 0" "\<not> mode_flat serve_rodata"
      by (simp_all add: PLEN_def serve_rodata_def)
    ultimately show ?thesis using policy_change_enforced[OF d' r i w, of "''/home/x''" serve_rodata "demo_ctx 7"] by simp
  qed
  then show ?thesis using d' by (auto simp: EPERM_def)
qed

text \<open>The rows of \<^verbatim>\<open>LIST\<close> are cut out of each read alone: a row that spans two reads is lost.\<close>

lemma list_split_lost:
  "list_reads demo_tab [''7 /etc'' @ nl @ ''END'' @ nl] = ([(7, ''agentcell-3.sock'', ''/etc'')], True)"
  "list_reads demo_tab [''7 /e'', ''tc'' @ nl @ ''END'' @ nl] = ([], True)"
  by (simp_all add: whole_lines_def cut0_def nl_def scan_llu_def scan_num_def scan_s_def isspace_def isdigit_def val_def digit_val_def starts_def
      cell_of_def demo_tab_def Let_def)

subsection \<open>The side file\<close>

lemma fgets_all_line:
  assumes "CHR 0x0A \<notin> set a" "length a < 255"
  shows "fgets_all (a @ CHR 0x0A # r) = (a @ [CHR 0x0A]) # fgets_all r"
proof -
  have "takeWhile (\<lambda>c. c \<noteq> CHR 0x0A) (a @ CHR 0x0A # r) = a" using assms(1) by (subst takeWhile_append2) auto
  then have "fgets1 (a @ CHR 0x0A # r) = a @ [CHR 0x0A]" using assms(2) by (simp add: fgets1_def)
  then show ?thesis by (subst fgets_all.simps) simp
qed

lemma dec_clean: "CHR 0x0A \<notin> set (dec n)"
  using dec_digits[of n] not_digit_notin[of "dec n" "CHR 0x0A"] by (simp add: isdigit_def)

lemma length_dec63: "n < 2 ^ 64 \<Longrightarrow> length (dec n) \<le> 20"
  using length_dec[of n 19] by simp

lemma strtol_line: "0 \<le> v \<Longrightarrow> v < 2 ^ 63 \<Longrightarrow> strtol (dec_int v @ [CHR 0x0A]) = Some (v, [CHR 0x0A])"
  using strtol_dec[of "nat v" "[CHR 0x0A]"] by (simp add: dec_int_def isdigit_def)

lemma atol_line: "0 \<le> v \<Longrightarrow> v < 2 ^ 63 \<Longrightarrow> atol (dec_int v @ [CHR 0x0A]) = v"
  by (simp add: atol_def strtol_line del: power_numeral)

lemma atoi_line: "0 \<le> v \<Longrightarrow> v < 2 ^ 31 \<Longrightarrow> sint (atoi (dec_int v @ [CHR 0x0A])) = v"
  using strtol_line[of v] by (simp add: atoi_def int_word_sint)

definition info_ok :: "info \<Rightarrow> bool" where
  "info_ok I \<longleftrightarrow> 0 \<le> ci_sup I \<and> ci_sup I < 2 ^ 31 \<and> 0 \<le> ci_jail I \<and> ci_jail I < 2 ^ 31 \<and> 0 \<le> ci_started I \<and> ci_started I < 2 ^ 63 \<and>
     0 \<le> ci_execs I \<and> ci_execs I < 2 ^ 63 \<and> CHR 0x0A \<notin> set (ci_cg I) \<and> length (ci_cg I) \<le> 251"

lemma key_line: "CHR 0x0A \<notin> set k \<Longrightarrow> CHR 0x0A \<notin> set v \<Longrightarrow> length k + length v < 255 \<Longrightarrow> fgets_all (k @ v @ nl @ r) = (k @ v @ nl) # fgets_all r"
  using fgets_all_line[of "k @ v" r] by (simp add: nl_def)

lemma num_line:
  assumes "0 \<le> v" "v < 2 ^ 63" "CHR 0x0A \<notin> set k" "length k < 100"
  shows "fgets_all (k @ dec_int v @ nl @ r) = (k @ dec_int v @ nl) # fgets_all r"
proof (rule key_line[OF assms(3)])
  have "nat v < 2 ^ 64" using assms(1,2) by simp
  then show "CHR 0x0A \<notin> set (dec_int v)" "length k + length (dec_int v) < 255"
    using assms dec_clean[of "nat v"] length_dec63[of "nat v"] by (simp_all add: dec_int_def)
qed

lemma info_lines:
  assumes "info_ok I"
  shows "fgets_all (info_text I sec cgid) =
    [''sup='' @ dec_int (ci_sup I) @ nl, ''jail='' @ dec_int (ci_jail I) @ nl, ''started='' @ dec_int (ci_started I) @ nl, ''cg='' @ ci_cg I @ nl,
     ''execs='' @ dec_int (ci_execs I) @ nl, ''secure='' @ dec_int (if sec then 1 else 0) @ nl, ''cgid='' @ dec (unat cgid) @ nl]"
proof -
  have I: "0 \<le> ci_sup I" "ci_sup I < 2 ^ 63" "0 \<le> ci_jail I" "ci_jail I < 2 ^ 63" "0 \<le> ci_started I" "ci_started I < 2 ^ 63"
    "0 \<le> ci_execs I" "ci_execs I < 2 ^ 63" "CHR 0x0A \<notin> set (ci_cg I)" "length (ci_cg I) \<le> 251"
    using assms by (simp_all add: info_ok_def)
  have cg: "fgets_all (''cg='' @ ci_cg I @ nl @ r) = (''cg='' @ ci_cg I @ nl) # fgets_all r" for r
    by (rule key_line) (use I(9,10) in simp_all)
  have id: "fgets_all (''cgid='' @ dec (unat cgid) @ nl @ r) = (''cgid='' @ dec (unat cgid) @ nl) # fgets_all r" for r
    by (rule key_line) (use dec_clean[of "unat cgid"] length_dec64[of cgid] in simp_all)
  have sec: "fgets_all (''secure='' @ dec_int (if sec then 1 else 0) @ nl @ r) = (''secure='' @ dec_int (if sec then 1 else 0) @ nl) # fgets_all r" for r
    by (rule num_line) simp_all
  have k: "fgets_all (''sup='' @ dec_int (ci_sup I) @ nl @ r) = (''sup='' @ dec_int (ci_sup I) @ nl) # fgets_all r"
    "fgets_all (''jail='' @ dec_int (ci_jail I) @ nl @ r) = (''jail='' @ dec_int (ci_jail I) @ nl) # fgets_all r"
    "fgets_all (''started='' @ dec_int (ci_started I) @ nl @ r) = (''started='' @ dec_int (ci_started I) @ nl) # fgets_all r"
    "fgets_all (''execs='' @ dec_int (ci_execs I) @ nl @ r) = (''execs='' @ dec_int (ci_execs I) @ nl) # fgets_all r" for r
    by (rule num_line[OF I(1,2)] num_line[OF I(3,4)] num_line[OF I(5,6)] num_line[OF I(7,8)], simp, simp)+
  have e: "fgets_all [] = []" by (subst fgets_all.simps) simp
  show ?thesis unfolding info_text_def k cg sec using id[of "[]"] by (simp only: append_Nil2 e)
qed

lemma info_line_keys:
  "info_line (''sup='' @ x) I = I\<lparr>ci_sup := sint (atoi x)\<rparr>" "info_line (''jail='' @ x) I = I\<lparr>ci_jail := sint (atoi x)\<rparr>"
  "info_line (''started='' @ x) I = I\<lparr>ci_started := atol x\<rparr>" "info_line (''cg='' @ x) I = I\<lparr>ci_cg := snprintf_s PATH_MAX (chomp x)\<rparr>"
  "info_line (''execs='' @ x) I = I\<lparr>ci_execs := atol x\<rparr>" "info_line (''secure='' @ x) I = I" "info_line (''cgid='' @ x) I = I"
  by (simp_all add: info_line_def starts_def)

text \<open>C33: the side file is read back as it was written. What \<^verbatim>\<open>write_info\<close> writes for process ids, a start time, a number of executions
  and a cgroup path of at most 251 characters, \<^verbatim>\<open>cell_info\<close> reads back exactly, whatever its variables held before.\<close>

theorem info_read_back:
  assumes "info_ok I" "fs (snprintf_s PATH_MAX (base @ ''.info'')) = Some (info_text I sec cgid)"
  shows "cell_info fs base I0 = Some I"
proof -
  have "\<forall>c \<in> set (ci_cg I). c \<noteq> CHR 0x0A" "length (ci_cg I) \<le> 251" using assms(1) by (auto simp: info_ok_def)
  then have "chomp (ci_cg I @ nl) = ci_cg I" by (simp add: chomp_def nl_def takeWhile_append2)
  then have cg: "snprintf_s PATH_MAX (chomp (ci_cg I @ nl)) = ci_cg I"
    using \<open>length (ci_cg I) \<le> 251\<close> by (simp add: snprintf_s_def PATH_MAX_def)
  have num: "sint (atoi (dec_int (ci_sup I) @ nl)) = ci_sup I" "sint (atoi (dec_int (ci_jail I) @ nl)) = ci_jail I"
    "atol (dec_int (ci_started I) @ nl) = ci_started I" "atol (dec_int (ci_execs I) @ nl) = ci_execs I"
    using assms(1) unfolding info_ok_def nl_def by (intro atoi_line atol_line; blast)+
  have "cell_info fs base I0 = Some (fold info_line (fgets_all (info_text I sec cgid)) (I0\<lparr>ci_cg := []\<rparr>))"
    using assms(2) by (simp add: cell_info_def)
  then show ?thesis unfolding info_lines[OF assms(1)] by (simp only: fold_simps info_line_keys cg num) simp
qed

theorem info_read_back_witness:
  "\<forall>I0. cell_info (\<lambda>p. Some (info_text \<lparr>ci_sup = 10, ci_jail = 11, ci_started = 1700000000, ci_cg = ''/sys/fs/cgroup/agentcell-10'', ci_execs = 2\<rparr> True 7))
     ''/run/agentcell-11.sock'' I0 = Some \<lparr>ci_sup = 10, ci_jail = 11, ci_started = 1700000000, ci_cg = ''/sys/fs/cgroup/agentcell-10'', ci_execs = 2\<rparr>"
  by (rule allI, rule info_read_back) (simp_all add: info_ok_def)

subsection \<open>The supervisor of \<^verbatim>\<open>sand serve\<close>\<close>

text \<open>The descriptors a log hands to the jail; the connection a turn accepts; the turns that end the loop.\<close>

definition handed_fd :: "call \<times> int \<Rightarrow> int list" where
  "handed_fd e = (case fst e of Sup (SendFd fd) \<Rightarrow> [fd] | _ \<Rightarrow> [])"

definition handed :: "log \<Rightarrow> int list" where
  "handed l = concat (map handed_fd l)"

definition polled_ok :: "serve_in \<Rightarrow> bool" where
  "polled_ok i \<longleftrightarrow> \<not> si_stop i \<and> \<not> si_poll i < 0 \<and> \<not> (si_host i \<and> si_peek i \<le> 0)"

definition accepted_conn :: "serve_in \<Rightarrow> int list" where
  "accepted_conn i = (if polled_ok i \<and> si_listen i \<and> si_conn i \<ge> 0 then [si_conn i] else [])"

definition ends_loop :: "serve_in \<Rightarrow> bool" where
  "ends_loop i \<longleftrightarrow> si_stop i \<or> si_poll i < 0 \<and> si_poll i \<noteq> - EINTR \<or> \<not> si_poll i < 0 \<and> (si_host i \<and> si_peek i \<le> 0 \<or> si_gone i)"

definition turns_used :: "serve_in list \<Rightarrow> serve_in list" where
  "turns_used ts = takeWhile (\<lambda>i. \<not> ends_loop i) ts @ take 1 (dropWhile (\<lambda>i. \<not> ends_loop i) ts)"

lemma handed_append [simp]: "handed (a @ b) = handed a @ handed b" "handed [] = []" "handed (e # l) = handed_fd e @ handed l"
  by (simp_all add: handed_def)

lemma handed_calls [simp]:
  "handed_fd (Sup (SendFd fd), r) = [fd]" "handed_fd (OpenCreate p m, r) = []" "handed_fd (WriteFile p t, r) = []" "handed_fd (Unlink p, r) = []"
  "handed_fd (Sup (Bind p), r) = []" "handed_fd (Sup Listen, r) = []" "handed_fd (Sup (Chmod p m), r) = []"
  "handed_fd (Sup (Kill x), r) = []" "handed_fd (Sup (WaitFor x), r) = []" "handed_fd (Sup (sup_call.LsmClr c), r) = []" "handed_fd (Sup (NetDown x), r) = []"
  by (simp_all add: handed_fd_def)

lemma do_call_log: "\<exists>r. fst (snd (do_call K c w)) = fst w @ [(c, r)]"
  by (simp add: do_call_def case_prod_beta)

lemma write_info_log: "\<exists>l. fst (snd (write_info K p t w)) = fst w @ l \<and> handed l = []"
  using do_call_log[of K "OpenCreate p m0666" w]
  by (auto simp: write_info_def attempt_def case_prod_beta Let_def do_call_def)

lemma serve_step_spec:
  assumes "serve_step K S i n w = (go, n', w')"
  shows "go = (\<not> ends_loop i)" "n' = n + int (length (accepted_conn i))" "\<exists>l. fst w' = fst w @ l \<and> handed l = accepted_conn i"
proof -
  have h: "\<exists>l. fst (snd (hand_over K S i n w)) = fst w @ l \<and> handed l = accepted_conn i" "fst (hand_over K S i n w) = n + int (length (accepted_conn i))" if "polled_ok i"
  proof -
    let ?c = "Sup (SendFd (si_conn i))"
    obtain r where r: "fst (snd (do_call K ?c w)) = fst w @ [(?c, r)]" using do_call_log[of K ?c w] by blast
    obtain l where l: "fst (snd (write_info K (info_path (sc_path S)) (info_now S (si_now i) (n + 1)) (snd (do_call K ?c w)))) = fst w @ [(?c, r)] @ l" "handed l = []"
      using write_info_log[of K "info_path (sc_path S)" "info_now S (si_now i) (n + 1)" "snd (do_call K ?c w)"] r by auto
    show "\<exists>l. fst (snd (hand_over K S i n w)) = fst w @ l \<and> handed l = accepted_conn i"
      using l that by (auto simp: hand_over_def accepted_conn_def)
    show "fst (hand_over K S i n w) = n + int (length (accepted_conn i))" using that by (simp add: hand_over_def accepted_conn_def Let_def)
  qed
  show "go = (\<not> ends_loop i)" using assms by (auto simp: serve_step_def ends_loop_def EINTR_def case_prod_beta split: if_splits)
  have "n' = n + int (length (accepted_conn i)) \<and> (\<exists>l. fst w' = fst w @ l \<and> handed l = accepted_conn i)"
  proof (cases "polled_ok i")
    case True
    then have "n' = fst (hand_over K S i n w)" "w' = snd (hand_over K S i n w)"
      using assms by (auto simp: serve_step_def polled_ok_def case_prod_beta split: if_splits)
    then show ?thesis using h[OF True] by simp
  next
    case False
    then have "n' = n" "w' = w" "accepted_conn i = []" using assms by (auto simp: serve_step_def polled_ok_def accepted_conn_def split: if_splits)
    then show ?thesis by simp
  qed
  then show "n' = n + int (length (accepted_conn i))" "\<exists>l. fst w' = fst w @ l \<and> handed l = accepted_conn i" by simp_all
qed

lemma serve_turns_spec:
  assumes "serve_turns K S ts n w = (fin, n', w')"
  shows "fin = list_ex ends_loop ts \<and> n' = n + int (length (concat (map accepted_conn (turns_used ts)))) \<and>
    (\<exists>l. fst w' = fst w @ l \<and> handed l = concat (map accepted_conn (turns_used ts)))"
  using assms
proof (induction ts arbitrary: n w)
  case Nil
  then show ?case by (simp add: turns_used_def)
next
  case (Cons i ts)
  obtain go n1 w1 where st: "serve_step K S i n w = (go, n1, w1)" by (metis prod.exhaust)
  note sp = serve_step_spec[OF st]
  obtain l where l: "fst w1 = fst w @ l" "handed l = accepted_conn i" using sp(3) by blast
  show ?case
  proof (cases "ends_loop i")
    case True
    then show ?thesis using Cons.prems st sp by (auto simp: turns_used_def)
  next
    case False
    then have "serve_turns K S ts n1 w1 = (fin, n', w')" using Cons.prems st sp(1) by simp
    from Cons.IH[OF this] obtain l2 where "fin = list_ex ends_loop ts" "n' = n1 + int (length (concat (map accepted_conn (turns_used ts))))"
      "fst w' = fst w1 @ l2" "handed l2 = concat (map accepted_conn (turns_used ts))" by blast
    moreover have "turns_used (i # ts) = i # turns_used ts" using False by (simp add: turns_used_def)
    ultimately show ?thesis using False sp(2) l by (intro conjI exI[of _ "l @ l2"]) simp_all
  qed
qed

lemma serve_start_log: "run_acts (serve_start K S now) w = (m, w') \<Longrightarrow> \<exists>l. fst w' = fst w @ l \<and> handed l = []"
proof -
  assume a: "run_acts (serve_start K S now) w = (m, w')"
  let ?Q = "\<lambda>l. handed l = []"
  have "emits ?Q (write_info K p t)" for p t
  proof (rule emitsI)
    fix w
    obtain l where "fst (snd (write_info K p t w)) = fst w @ l" "handed l = []" using write_info_log by blast
    then show "\<exists>cs. fst (snd (write_info K p t w)) = fst w @ concat cs \<and> list_all ?Q cs" by (intro exI[of _ "[l]"]) simp
  qed
  then have "list_all (emits ?Q) (serve_start K S now)" by (simp add: serve_start_def acts)
  from emits_log[OF emits_run_acts[OF this] a] obtain cs where cs: "fst w' = fst w @ concat cs" "list_all ?Q cs" by blast
  have "list_all ?Q cs \<Longrightarrow> handed (concat cs) = []" by (induction cs) simp_all
  then show ?thesis using cs by blast
qed

lemma serve_stop_log:
  "\<exists>r1 r2 r3 r4 mid. fst (serve_stop K D S C on w) =
     fst w @ [(Sup (Kill (sc_jail S)), r1), (Sup (WaitFor (sc_jail S)), r2)] @ mid @ [(Unlink (sc_path S), r3), (Unlink (info_path (sc_path S)), r4)] \<and>
     (veth_on C \<longrightarrow> (Sup (NetDown (sc_jail S)), 0) \<in> set mid) \<and> handed mid = []"
proof -
  define w1 where "w1 = snd (do_call K (Sup (WaitFor (sc_jail S))) (snd (do_call K (Sup (Kill (sc_jail S))) w)))"
  define w2 where "w2 = unregister_lsm D on w1"
  define w3 where "w3 = (case net_veth_unregister (sc_jail S) C of (Some _, _) \<Rightarrow> log_note (NetDown (sc_jail S)) 0 w2 | (None, _) \<Rightarrow> w2)"
  have eq: "serve_stop K D S C on w = snd (do_call K (Unlink (info_path (sc_path S))) (snd (do_call K (Unlink (sc_path S)) w3)))"
    unfolding serve_stop_def Let_def w3_def w2_def w1_def ..
  obtain r1 r2 where r: "fst w1 = fst w @ [(Sup (Kill (sc_jail S)), r1), (Sup (WaitFor (sc_jail S)), r2)]"
    by (simp add: w1_def do_call_def case_prod_beta)
  have "\<exists>m1. fst w2 = fst w1 @ m1 \<and> handed m1 = []"
    by (cases on) (simp_all add: w2_def unregister_lsm_def lsm_unregister_def log_note_def)
  then obtain m1 where m1: "fst w2 = fst w1 @ m1" "handed m1 = []" by blast
  have "\<exists>m2. fst w3 = fst w2 @ m2 \<and> handed m2 = [] \<and> (veth_on C \<longrightarrow> (Sup (NetDown (sc_jail S)), 0) \<in> set m2)"
    by (cases "veth_on C") (simp_all add: w3_def net_veth_unregister_def log_note_def)
  then obtain m2 where m2: "fst w3 = fst w2 @ m2" "handed m2 = []" "veth_on C \<longrightarrow> (Sup (NetDown (sc_jail S)), 0) \<in> set m2" by blast
  obtain r3 r4 where "fst (serve_stop K D S C on w) = fst w3 @ [(Unlink (sc_path S), r3), (Unlink (info_path (sc_path S)), r4)]"
    unfolding eq by (simp add: do_call_def case_prod_beta)
  then show ?thesis using r m1 m2 by (intro exI[of _ r1] exI[of _ r2] exI[of _ r3] exI[of _ r4] exI[of _ "m1 @ m2"]) simp
qed

text \<open>C22: the supervisor hands every connection to the jail exactly once and in order, and cleans up. It goes on exactly until the first
  turn with a signal, a failed wait, a closed jail or an ended jail; up to then the descriptors sent into the jail are those it
  accepted, and their number is the count it reports. When it stops it kills and awaits the jail, takes a network down, and
  last removes the socket and the side file.\<close>

theorem serve_hands_over:
  assumes "serve_loop K D S C on now ts ([], h) = (res, (l, h'))"
  shows "case res of
      SDied m \<Rightarrow> handed l = []
    | Serving n \<Rightarrow> list_all (\<lambda>i. \<not> ends_loop i) ts \<and> handed l = concat (map accepted_conn ts) \<and> n = int (length (handed l))
    | Stopped n \<Rightarrow> list_ex ends_loop ts \<and> handed l = concat (map accepted_conn (turns_used ts)) \<and> n = int (length (handed l)) \<and>
        (\<exists>l1 r1 r2 r3 r4 mid. l = l1 @ [(Sup (Kill (sc_jail S)), r1), (Sup (WaitFor (sc_jail S)), r2)] @ mid @
           [(Unlink (sc_path S), r3), (Unlink (info_path (sc_path S)), r4)] \<and> (veth_on C \<longrightarrow> (Sup (NetDown (sc_jail S)), 0) \<in> set mid))"
proof -
  obtain m w1 where w1: "run_acts (serve_start K S now) ([], h) = (m, w1)" by (rule prod.exhaust)
  have l1: "handed (fst w1) = []" using serve_start_log[OF w1] by auto
  obtain fin n w2 where w2: "serve_turns K S ts 0 w1 = (fin, n, w2)" by (metis prod.exhaust)
  from serve_turns_spec[OF w2] obtain l2 where t: "fin = list_ex ends_loop ts" "n = int (length (concat (map accepted_conn (turns_used ts))))"
    "fst w2 = fst w1 @ l2" "handed l2 = concat (map accepted_conn (turns_used ts))" by auto
  have h2: "handed (fst w2) = concat (map accepted_conn (turns_used ts))" using t l1 by simp
  show ?thesis
  proof (cases m)
    case (Some e)
    then show ?thesis using assms w1 l1 by (auto simp: serve_loop_def simp del: run_acts.simps)
  next
    case None
    show ?thesis
    proof (cases fin)
      case True
      have r: "res = Stopped n" "(l, h') = serve_stop K D S C on w2" using assms w1 w2 None True by (simp_all add: serve_loop_def del: run_acts.simps)
      obtain r1 r2 r3 r4 mid where s: "l = fst w2 @ [(Sup (Kill (sc_jail S)), r1), (Sup (WaitFor (sc_jail S)), r2)] @ mid @
          [(Unlink (sc_path S), r3), (Unlink (info_path (sc_path S)), r4)]" "veth_on C \<longrightarrow> (Sup (NetDown (sc_jail S)), 0) \<in> set mid" "handed mid = []"
        using serve_stop_log[of K D S C on w2] unfolding r(2)[symmetric] fst_conv by blast
      have "handed l = concat (map accepted_conn (turns_used ts))" using s(1,3) h2 by simp
      then show ?thesis using t(1,2) True s(2) unfolding r(1) serve_end.case
        by (intro conjI exI[of _ "fst w2"] exI[of _ r1] exI[of _ r2] exI[of _ r3] exI[of _ r4] exI[of _ mid] s(1)) simp_all
    next
      case False
      then have r: "res = Serving n" "(l, h') = w2" using assms w1 w2 None by (simp_all add: serve_loop_def del: run_acts.simps)
      have no: "list_all (\<lambda>i. \<not> ends_loop i) ts" using t(1) False by (simp add: list_all_iff list_ex_iff)
      then have "turns_used ts = ts" by (simp add: turns_used_def list_all_iff takeWhile_eq_all_conv[THEN iffD2] dropWhile_eq_Nil_conv[THEN iffD2])
      then show ?thesis using no t(2) h2 r(2)[symmetric] unfolding r(1) serve_end.case by simp
    qed
  qed
qed

definition demo_serve :: serve_cell where
  "demo_serve = \<lparr>sc_self = 10, sc_jail = 11, sc_cg = ([], False), sc_cgid = 0, sc_secure = False, sc_path = ''/run/agentcell-11.sock''\<rparr>"

definition demo_turn :: serve_in where
  "demo_turn = \<lparr>si_stop = False, si_poll = 1, si_host = False, si_peek = 0, si_listen = True, si_conn = 6, si_gone = False, si_now = 100\<rparr>"

definition no_daemon :: daemon_in where
  "no_daemon = \<lparr>d_fs = (\<lambda>f. None), d_talk = (\<lambda>c. None), d_cgid = None, d_up = False, d_reps = []\<rparr>"

definition yes_kern :: "unit kern" where
  "yes_kern = \<lparr>k_call = (\<lambda>c h. (0, h)), k_lstat = (\<lambda>h p. None), k_stat = (\<lambda>h p. True), k_readlink = (\<lambda>h p. None),
     k_read = (\<lambda>h p. None), k_dev = (\<lambda>h p. None), k_realpath = (\<lambda>h p. Some p), k_ifup = (\<lambda>h i. None)\<rparr>"

theorem serve_hands_over_witness:
  "\<exists>l h n. serve_loop yes_kern no_daemon demo_serve cfg_init False 90 [demo_turn, demo_turn\<lparr>si_conn := 7\<rparr>, demo_turn\<lparr>si_stop := True\<rparr>] ([], ()) = (Stopped n, (l, h)) \<and>
     handed l = [6, 7] \<and> n = 2"
proof -
  let ?ts = "[demo_turn, demo_turn\<lparr>si_conn := 7\<rparr>, demo_turn\<lparr>si_stop := True\<rparr>]"
  obtain res l h where r: "serve_loop yes_kern no_daemon demo_serve cfg_init False 90 ?ts ([], ()) = (res, (l, h))" by (metis prod.exhaust)
  have u: "concat (map accepted_conn (turns_used ?ts)) = [6, 7]" "\<not> list_all (\<lambda>i. \<not> ends_loop i) ?ts"
    by (simp_all add: turns_used_def accepted_conn_def ends_loop_def polled_ok_def demo_turn_def)
  have "\<forall>m. res \<noteq> SDied m"
    using r by (auto simp: serve_loop_def serve_start_def must_def attempt_def write_info_def do_call_def yes_kern_def Let_def split: prod.splits bool.splits)
  then obtain n where "res = Stopped n" using serve_hands_over[OF r] u(2) by (cases res) auto
  then show ?thesis using serve_hands_over[OF r] u(1) r by auto
qed

end
