(* ===== verification/Spec2Isabelle.thy ===== *)
theory Spec2Isabelle
  imports Ask_Mode Exec_Wire Lsm_Policy Netd_Claims Daemon_Claims Client_Claims Secret_Claims
    Library_Claims Cell_Claims
begin

text \<open>
  A verification library for agentcell.

  \<^bold>\<open>The program.\<close> \<^verbatim>\<open>sand\<close> (\<^verbatim>\<open>src/sand.c\<close>) builds a jail (a \<^emph>\<open>cell\<close>) around a command and
  supervises it. \<^verbatim>\<open>agentlsm\<close> is the root daemon: \<^verbatim>\<open>src/agentlsm.c\<close> serves a control socket and
  owns the per-cell file policy, which the kernel programs of \<^verbatim>\<open>src/agentlsm.bpf.c\<close> enforce, and
  the per-cell network. \<^verbatim>\<open>src/agentmon.c\<close> is an earlier monitor and \<^verbatim>\<open>src/libagentcell.c\<close> runs
  cells from a host program.

  \<^bold>\<open>The theories.\<close>
  \<^item> \<open>AC_Prelude\<close>: integer types, C strings, shared facts. \<open>C_Lib\<close>: the C library functions the
    sources call (number parsing and printing, \<^verbatim>\<open>snprintf\<close>, \<^verbatim>\<open>inet_pton\<close>, \<^verbatim>\<open>inet_ntop\<close>).
  \<^item> \<open>Arch_Tables\<close>, \<open>Classic_Bpf\<close>, \<open>Seccomp\<close>: the tables of \<^verbatim>\<open>src/arch\<close>, the kernel's filter machine, and
    \<^verbatim>\<open>denylist_build\<close>, \<^verbatim>\<open>emit_bst\<close>, \<^verbatim>\<open>seccomp_apply\<close> of \<^verbatim>\<open>sand.c\<close>; the compiled search tree decides
    every call as the deny list says, fits its arrays, and its jumps fit their 8 bits and stay inside the program.
  \<^item> \<open>Bitmap64\<close>, \<open>Ask_Mode\<close>: bitmaps in 64-bit words as sets (locale \<open>bitset\<close>), and \<^verbatim>\<open>ask_handle\<close>.
  \<^item> \<open>Exec_Wire\<close>: both ends of \<^verbatim>\<open>sand exec\<close> (\<^verbatim>\<open>handle_conn\<close>, \<^verbatim>\<open>client_exec\<close>), for any chunking; the client returns the code of the
    status \<^verbatim>\<open>waitpid\<close> gave (\<open>reaped\<close>).
  \<^item> \<open>Bpf_Hash\<close>, \<open>Lsm_Policy\<close>: kernel hash maps (locale \<open>kernel_map\<close>), the programs of
    \<^verbatim>\<open>agentlsm.bpf.c\<close> and \<^verbatim>\<open>cell_add\<close>, \<^verbatim>\<open>cell_del\<close>, \<^verbatim>\<open>cell_clr\<close>; sessions of requests refine an abstract
    policy that the hook enforces.
  \<^item> \<open>Firewall\<close>, \<open>Egress\<close>, \<open>Netd\<close>: the commands the daemon runs and the \<open>FORWARD\<close> chain they edit, the
    resolution and installation of allowlists, and \<^verbatim>\<open>net_up\<close>, \<^verbatim>\<open>net_down\<close>, NAT and start-up recovery.
  \<^item> \<open>Netd_Safety\<close>, \<open>Netd_Reach\<close>, \<open>Netd_Claims\<close>: the invariant of the network state, its preservation
    along every sequence of operations with a process id other than 0 and decimal ports (\<open>net_reach\<close>; the daemon
    checks neither, and \<^verbatim>\<open>NETDOWN 0\<close> breaks the invariant), and the properties. A crash is the same code on a host that stops
    answering after some number of effects (\<open>dying\<close>). \<open>Sim_Host\<close>: a concrete host for witnesses.

  \<^item> \<open>Daemon\<close>, \<open>Daemon_Claims\<close>: \<^verbatim>\<open>serve_line\<close> with every request, \<^verbatim>\<open>on_evt\<close>, \<^verbatim>\<open>fanout\<close>, \<^verbatim>\<open>accept\<close> and the read
    loop of \<^verbatim>\<open>serve_mode\<close>; framing for any chunking, delivery of events, and three defects.
  \<^item> \<open>Sand_Client\<close>, \<open>Client_Claims\<close>: \<^verbatim>\<open>egress_add\<close>, \<^verbatim>\<open>resolv_collect\<close>, \<^verbatim>\<open>net_veth_register\<close>, \<^verbatim>\<open>lsm_register\<close> of \<^verbatim>\<open>sand.c\<close>;
    the request and the answer survive the trip to the daemon and back.
  \<^item> \<open>Sand_Config\<close>, \<open>Path_Claims\<close>: \<^verbatim>\<open>struct cfg\<close> and paths. \<open>Host_Calls\<close>: system calls as a log answered by any
    kernel. \<open>Jail_Mounts\<close>, \<open>Mount_Claims\<close>, \<open>Secret_Claims\<close>: \<^verbatim>\<open>do_mounts\<close>, the mounts it must make (\<open>required_mounts\<close>) and the
    mount table its calls leave (\<open>mtab\<close>, in which a recursive bind is one entry). \<open>Landlock\<close>, \<open>Landlock_Claims\<close>: \<^verbatim>\<open>landlock_apply\<close>.
    \<open>Jail_Init\<close>, \<open>Jail_Claims\<close>: \<^verbatim>\<open>child_main\<close>, the first process of a cell.
  \<^item> \<open>Cgroup\<close>, \<open>Launch\<close>, \<open>Launch_Claims\<close>: \<^verbatim>\<open>cgroup_setup\<close>, \<^verbatim>\<open>write_uid_maps\<close> and the part of \<^verbatim>\<open>main\<close> that clones, registers,
    releases and awaits the cell; what the log holds before the release (\<open>confined_before\<close>, \<open>cgroup_made\<close>), the message to the
    child and the end of \<^verbatim>\<open>--timeout\<close>.
  \<^item> \<open>Options\<close>, \<open>Option_Claims\<close>: the command line, from \<^verbatim>\<open>getopt_long\<close> to the launch; configurations are well formed, the
    command is left alone, and from any command line a child is released once and only after it is confined.
  \<^item> \<open>Library\<close>, \<open>Library_Claims\<close>: \<^verbatim>\<open>libagentcell.c\<close>; its records are exactly its live cells.
  \<^item> \<open>Cells\<close>, \<open>Serve_Loop\<close>, \<open>Cell_Claims\<close>: \<^verbatim>\<open>sand cells\<close>, \<^verbatim>\<open>top\<close>, \<^verbatim>\<open>lsm\<close>, the side files, and \<^verbatim>\<open>serve_loop\<close>; policy changes reach
    the hook, the side file is read back, every connection is handed over once.

  \<^bold>\<open>What is a parameter.\<close> The host that carries out commands (\<open>iptables_documented\<close>), the resolver's
  answers (\<open>dns_ok\<close>), the files of \<^verbatim>\<open>ip_forward\<close> (\<open>files_documented\<close>), \<^verbatim>\<open>bpf_d_path\<close>
  (\<open>d_path_documented\<close>), what sockets, files and terminals
  deliver and whether a write succeeds. Isolation and \<^verbatim>\<open>NETUP\<close> further assume that
  inserts succeed, because the code ignores the status of the base rules.

  \<^bold>\<open>Bounds.\<close> No fuel is used: every loop is a terminating recursion on its data, except \<open>wait_ask\<close>, which has no bound in the
  source and is a \<^verbatim>\<open>partial_function\<close> shown to return when the payload ends or the time is up. The endless loops of the servers
  are functions of the turns so far. Process ids and
  times are integers and network indices are naturals below 16384; BPF words, map keys and bitmaps
  keep their width. The 512-byte command buffer of \<^verbatim>\<open>sh\<close> is not cut in \<open>cmd_text\<close>: \<open>cmd_text_fits\<close> shows that the daemon's commands fit.

  \<^bold>\<open>Not modelled.\<close> Start-up, locking and shutdown of \<^verbatim>\<open>serve_mode\<close>, the one-shot modes of \<^verbatim>\<open>agentlsm\<close> and the loading of its BPF object,
  which are calls of libbpf; \<^verbatim>\<open>agentmon\<close>, whose probes repeat those of \<^verbatim>\<open>agentlsm.bpf.c\<close>; in \<^verbatim>\<open>sand.c\<close> the socket exchange
  \<^verbatim>\<open>lsm_cmd\<close> (an argument here), messages on the terminal and the layout of tables; in \<^verbatim>\<open>libagentcell.c\<close> null pointers, the
  allocation of the stack, and the jump of \<^verbatim>\<open>die\<close> inside the child.
\<close>

end
